(* ===== verification/Prelude.thy ===== *)
theory Prelude
  imports Main "HOL-Library.Word" "HOL-Library.Char_ord" "HOL-Library.List_Lexorder"
    "HOL-Library.Product_Lexorder"
begin

text \<open>
  Shared vocabulary of the development.

  \<^item> Machine integers: \<open>u8\<close>, \<open>u16\<close>, \<open>u32\<close>, \<open>u64\<close>, \<open>u128\<close> are words of that width.
  \<^item> Fallible code returns a sum, \<open>Inl\<close> for \<open>Err\<close> and \<open>Inr\<close> for \<open>Ok\<close>.  A method that
    takes \<open>&mut self\<close> and returns \<open>Result\<close> returns the result paired with the new
    state, because in Rust the mutations made before an early return stay.
  \<^item> \<open>BTreeMap\<close> is an association list sorted by key without duplicates
    (\<open>om_insert\<close>, \<open>om_get\<close>, \<open>om_remove\<close>); iteration order is the list's order.  A
    \<open>HashMap\<close> whose iteration order is never observed uses the same operations.
\<close>

named_theorems om_simps \<open>reading an ordered map after an update\<close>

type_synonym u8 = "8 word"
type_synonym u16 = "16 word"
type_synonym u32 = "32 word"
type_synonym u64 = "64 word"
type_synonym u128 = "128 word"
type_synonym ('e, 'a) result = "'e + 'a"
type_synonym ('e, 'a, 's) result_st = "('e + 'a) \<times> 's"

text \<open>The outcome of one I/O call: success, or an error after \<open>k\<close> bytes of the data reached the
  file.\<close>

datatype io_outcome = IoOk | IoFail nat

section \<open>Saturating arithmetic on machine words\<close>

definition sat_sub :: "'a::len word \<Rightarrow> 'a word \<Rightarrow> 'a word" where
  "sat_sub a b = (if a < b then 0 else a - b)"

definition sat_add :: "'a::len word \<Rightarrow> 'a word \<Rightarrow> 'a word" where
  "sat_add a b = (if a + b < a then - 1 else a + b)"

section \<open>Ordered maps\<close>

type_synonym ('k, 'v) omap = "('k \<times> 'v) list"

fun om_insert :: "'k::linorder \<Rightarrow> 'v \<Rightarrow> ('k, 'v) omap \<Rightarrow> ('k, 'v) omap" where
  "om_insert k v [] = [(k, v)]"
| "om_insert k v ((a, b) # m) =
     (if k < a then (k, v) # (a, b) # m
      else if k = a then (k, v) # m
      else (a, b) # om_insert k v m)"

definition om_get :: "('k, 'v) omap \<Rightarrow> 'k \<Rightarrow> 'v option" where
  "om_get m k = map_of m k"

definition om_remove :: "'k \<Rightarrow> ('k, 'v) omap \<Rightarrow> ('k, 'v) omap" where
  "om_remove k m = filter (\<lambda>(a, b). a \<noteq> k) m"

definition om_keys :: "('k, 'v) omap \<Rightarrow> 'k list" where
  "om_keys m = map fst m"

definition om_values :: "('k, 'v) omap \<Rightarrow> 'v list" where
  "om_values m = map snd m"

text \<open>\<open>entry(k).or_insert(v)\<close> followed by an update of the entry.\<close>

definition om_entry :: "'k::linorder \<Rightarrow> 'v \<Rightarrow> ('v \<Rightarrow> 'v) \<Rightarrow> ('k, 'v) omap \<Rightarrow> ('k, 'v) omap" where
  "om_entry k d f m = om_insert k (f (case om_get m k of None \<Rightarrow> d | Some v \<Rightarrow> v)) m"

text \<open>\<open>iter_mut\<close> over the entries.\<close>

definition om_map :: "('k \<Rightarrow> 'v \<Rightarrow> 'w) \<Rightarrow> ('k, 'v) omap \<Rightarrow> ('k, 'w) omap" where
  "om_map f m = map (\<lambda>(k, v). (k, f k v)) m"

definition om_wf :: "('k::linorder, 'v) omap \<Rightarrow> bool" where
  "om_wf m = sorted_wrt (<) (map fst m)"

lemma om_get_Nil [simp]: "om_get [] k = None"
  by (simp add: om_get_def)

lemma om_get_Cons [simp]: "om_get ((a, b) # m) k = (if k = a then Some b else om_get m k)"
  by (simp add: om_get_def)

lemma om_get_insert [simp, om_simps]:
  "om_get (om_insert k v m) = (om_get m)(k := Some v)"
  by (induction m) (auto simp: fun_eq_iff)

lemma om_get_remove [simp, om_simps]:
  "om_get (om_remove k m) = (om_get m)(k := None)"
  by (induction m) (auto simp: om_remove_def fun_eq_iff)

lemma om_get_entry [simp, om_simps]:
  "om_get (om_entry k d f m) =
     (om_get m)(k := Some (f (case om_get m k of None \<Rightarrow> d | Some v \<Rightarrow> v)))"
  by (simp add: om_entry_def)

lemma om_get_map [simp, om_simps]: "om_get (om_map f m) k = map_option (f k) (om_get m k)"
  by (induction m) (auto simp: om_map_def)

lemma om_keys_map [simp]: "om_keys (om_map f m) = om_keys m"
  by (simp add: om_keys_def om_map_def comp_def case_prod_beta)

lemma set_keys_om_insert [simp]: "fst ` set (om_insert k v m) = insert k (fst ` set m)"
proof (induction m)
  case (Cons p m)
  then show ?case by (cases p) auto
qed simp

lemma om_wf_Nil [simp]: "om_wf []"
  by (simp add: om_wf_def)

lemma om_wf_Cons [simp]:
  "om_wf ((a, b) # m) \<longleftrightarrow> (\<forall>k \<in> fst ` set m. a < k) \<and> om_wf m"
  by (simp add: om_wf_def)

lemma om_wf_insert [simp, intro]: "om_wf m \<Longrightarrow> om_wf (om_insert k v m)"
proof (induction m)
  case Nil
  then show ?case by simp
next
  case (Cons p m)
  obtain a b where p: "p = (a, b)" by (cases p)
  have lt: "\<forall>x \<in> fst ` set m. a < x" and wf: "om_wf m"
    using Cons.prems p by auto
  show ?case
  proof (cases "a < k")
    case True
    then show ?thesis using Cons.IH[OF wf] p lt by auto
  next
    case False
    then show ?thesis using p lt wf by force
  qed
qed

lemma om_wf_remove [simp, intro]: "om_wf m \<Longrightarrow> om_wf (om_remove k m)"
  by (induction m) (auto simp: om_remove_def)

lemma om_wf_entry [simp, intro]: "om_wf m \<Longrightarrow> om_wf (om_entry k d f m)"
  by (simp add: om_entry_def)

lemma om_wf_distinct: "om_wf m \<Longrightarrow> distinct (map fst m)"
  by (simp add: om_wf_def strict_sorted_iff)

lemma om_get_dom: "om_get m k = Some v \<Longrightarrow> k \<in> fst ` set m"
  by (induction m) (auto split: if_splits)

lemma om_count:
  "om_wf m \<Longrightarrow> card {k. \<exists>v. om_get m k = Some v \<and> P v} = length (filter P (om_values m))"
proof (induction m)
  case (Cons p m)
  obtain a b where p: "p = (a, b)" by (cases p)
  have a: "om_get m a = None"
    using Cons.prems p om_get_dom[of m a] by (cases "om_get m a") auto
  let ?S = "{k. \<exists>v. om_get m k = Some v \<and> P v}"
  have "{k. \<exists>v. om_get (p # m) k = Some v \<and> P v} = (if P b then insert a ?S else ?S)"
    using a p by auto
  moreover have "finite ?S"
    by (rule finite_subset[of _ "fst ` set m"]) (auto dest: om_get_dom)
  ultimately show ?case using Cons p a by (auto simp: om_values_def)
qed (simp add: om_values_def)

lemma om_get_keys: "om_get m k = Some v \<Longrightarrow> k \<in> set (om_keys m)"
  by (auto dest!: om_get_dom simp: om_keys_def)

lemma om_insert_ne [simp]: "om_insert k v m \<noteq> []"
  by (cases m) (auto split: if_splits)

lemma set_om_keys: "set (om_keys m) = fst ` set m"
  by (simp add: om_keys_def)

lemma om_get_None: "om_get m k = None \<longleftrightarrow> k \<notin> set (om_keys m)"
  by (simp add: om_get_def set_om_keys map_of_eq_None_iff)

lemma om_get_same_keys: "om_keys m = om_keys n \<Longrightarrow> om_get m k = None \<longleftrightarrow> om_get n k = None"
  by (simp add: om_get_None)

lemma om_wf_keys: "om_wf m \<longleftrightarrow> sorted_wrt (<) (om_keys m)"
  by (simp add: om_wf_def om_keys_def)

lemma om_wf_get: "om_wf m \<Longrightarrow> p \<in> set m \<Longrightarrow> om_get m (fst p) = Some (snd p)"
  by (simp add: om_get_def om_wf_distinct map_of_is_SomeI)

lemma om_insert_append:
  "\<forall>a\<in>fst ` set pre. a < k \<Longrightarrow> om_insert k v (pre @ (k, e) # rest) = pre @ (k, v) # rest"
  "\<forall>a\<in>fst ` set pre. a < k \<Longrightarrow> om_insert k v pre = pre @ [(k, v)]"
  by (induction pre) auto

lemma om_get_append: "\<forall>a\<in>fst ` set pre. a < (k :: 'k::linorder) \<Longrightarrow> om_get (pre @ m) k = om_get m k"
  by (induction pre) auto

lemma om_wf_append: "om_wf (pre @ m) \<Longrightarrow> om_wf m"
  by (simp add: om_wf_def sorted_wrt_append)

lemma om_wf_append_less: "om_wf (pre @ (k, v) # m) \<Longrightarrow> \<forall>a\<in>fst ` set pre. a < k"
  by (auto simp: om_wf_def sorted_wrt_append)

lemma om_map_of_keys: "om_wf b \<Longrightarrow> om_keys b = om_keys m \<Longrightarrow> b = map (\<lambda>p. (fst p, the (om_get b (fst p)))) m"
proof -
  assume wf: "om_wf b" and k: "om_keys b = om_keys m"
  have "b = map (\<lambda>p. (fst p, the (om_get b (fst p)))) b" using om_wf_get[OF wf] by (simp add: map_idI)
  also have "\<dots> = map (\<lambda>f. (f, the (om_get b f))) (om_keys b)" by (simp add: om_keys_def)
  finally show "b = map (\<lambda>p. (fst p, the (om_get b (fst p)))) m" unfolding k by (simp add: om_keys_def comp_def)
qed

lemma om_sum_values:
  assumes "om_wf m"
  shows "sum_list (om_values m) = (\<Sum>k\<in>set (om_keys m). the (om_get m k))"
proof -
  have "map (\<lambda>k. the (om_get m k)) (om_keys m) = om_values m"
    by (simp add: om_keys_def om_values_def om_wf_get[OF assms])
  then show ?thesis
    using sum.distinct_set_conv_list[of "om_keys m" "\<lambda>k. the (om_get m k)"] om_wf_distinct[OF assms] by (simp add: om_keys_def)
qed

end
