(* ===== verification/Rust_Str.thy ===== *)
theory Rust_Str
  imports Prelude
begin

text \<open>
  The parts of Rust's \<open>str\<close>, slice and integer API the crates use.  A \<open>String\<close> is its
  UTF-8 bytes (\<open>string\<close>, one \<open>char\<close> per byte), so \<open>len\<close> is \<open>length\<close> and \<open>Ord\<close> is the
  lexicographic order of the bytes; \<open>trim\<close> removes the encodings of the Unicode
  \<open>White_Space\<close> characters.
\<close>

definition byte_of :: "char \<Rightarrow> u8" where
  "byte_of c = of_char c"

definition char_of_byte :: "u8 \<Rightarrow> char" where
  "char_of_byte b = char_of (unat b)"

definition as_bytes :: "string \<Rightarrow> u8 list" where
  "as_bytes s = map byte_of s"

section \<open>Slices\<close>

function chunks :: "nat \<Rightarrow> 'a list \<Rightarrow> 'a list list" where
  "chunks n xs = (if n = 0 \<or> xs = [] then [] else take n xs # chunks n (drop n xs))"
  by pat_completeness auto
termination
  by (relation "measure (\<lambda>(n, xs). length xs)") auto

declare chunks.simps [simp del]

lemma chunks_Nil [simp]: "chunks n [] = []"
  by (simp add: chunks.simps)

lemma chunks_append:
  assumes "length xs = n" and "0 < n"
  shows "chunks n (xs @ ys) = xs # chunks n ys"
proof -
  have "xs \<noteq> []" using assms by auto
  then show ?thesis using assms by (simp add: chunks.simps[of n "xs @ ys"])
qed

lemma concat_chunks: "0 < n \<Longrightarrow> concat (chunks n xs) = xs"
proof (induction n xs rule: chunks.induct)
  case (1 n xs)
  then show ?case
    by (cases "xs = []") (auto simp: chunks.simps[of n xs])
qed

lemma chunks_lengths:
  "0 < n \<Longrightarrow> c \<in> set (chunks n xs) \<Longrightarrow> 0 < length c \<and> length c \<le> n"
proof (induction n xs rule: chunks.induct)
  case (1 n xs)
  then show ?case
    by (cases "xs = []") (auto simp: chunks.simps[of n xs] split: if_splits)
qed

section \<open>Big-endian integers\<close>

text \<open>\<open>to_be_bytes\<close> of an integer of \<open>n\<close> bytes and \<open>from_be_bytes\<close>, over the value.\<close>

fun be_bytes :: "nat \<Rightarrow> nat \<Rightarrow> u8 list" where
  "be_bytes 0 v = []"
| "be_bytes (Suc n) v = be_bytes n (v div 256) @ [word_of_nat (v mod 256)]"

definition of_be_bytes :: "u8 list \<Rightarrow> nat" where
  "of_be_bytes bs = foldl (\<lambda>v b. v * 256 + unat b) 0 bs"

lemma length_be_bytes [simp]: "length (be_bytes n v) = n"
  by (induction n arbitrary: v) auto

lemma of_be_bytes_snoc [simp]: "of_be_bytes (bs @ [b]) = of_be_bytes bs * 256 + unat b"
  by (simp add: of_be_bytes_def)

lemma of_be_bytes_Nil [simp]: "of_be_bytes [] = 0"
  by (simp add: of_be_bytes_def)

lemma unat_byte [simp]: "unat (word_of_nat (v mod 256) :: u8) = v mod 256"
  by (simp add: unat_of_nat)

lemma unat_u8_less: "unat (b :: u8) < 256"
  using unsigned_less[of b, where ?'a = nat] by simp

lemma of_be_bytes_be_bytes: "v < 256 ^ n \<Longrightarrow> of_be_bytes (be_bytes n v) = v"
proof (induction n arbitrary: v)
  case 0
  then show ?case by simp
next
  case (Suc n)
  have "v div 256 < 256 ^ n"
    using Suc.prems by (simp add: less_mult_imp_div_less mult.commute)
  then show ?case using Suc.IH[of "v div 256"] by simp
qed

lemma of_be_bytes_bound: "of_be_bytes bs < 256 ^ length bs"
proof (induction bs rule: rev_induct)
  case Nil
  then show ?case by simp
next
  case (snoc b bs)
  have "unat b < 256" by (rule unat_u8_less)
  then have "of_be_bytes bs * 256 + unat b < (of_be_bytes bs + 1) * 256" by simp
  also have "\<dots> \<le> 256 ^ length bs * 256"
    using snoc by (intro mult_le_mono1) simp
  finally show ?case by (simp add: mult.commute)
qed

lemma be_bytes_of_be_bytes: "be_bytes (length bs) (of_be_bytes bs) = bs"
proof (induction bs rule: rev_induct)
  case Nil
  then show ?case by simp
next
  case (snoc b bs)
  have "unat b < 256" by (rule unat_u8_less)
  then show ?case using snoc by simp
qed

text \<open>The header of a length-prefixed, checksummed frame, as both log formats read it.\<close>

lemma frame_header:
  assumes "length p < 9223372036854775808" "buf = pre @ (be_bytes 8 (length p) @ be_bytes 4 (unat (k :: u32)) @ p) @ rest"
  shows "of_be_bytes (take 8 (drop (length pre) buf)) = length p"
    "of_be_bytes (take 4 (drop (length pre + 8) buf)) = unat k"
    "take (length p) (drop (length pre + 12) buf) = p"
proof -
  have "unat k < 256 ^ 4" using unsigned_less[of k, where ?'a = nat] by simp
  then show "of_be_bytes (take 4 (drop (length pre + 8) buf)) = unat k"
    using assms(2) by (simp add: of_be_bytes_be_bytes)
  show "of_be_bytes (take 8 (drop (length pre) buf)) = length p"
    using assms by (simp add: of_be_bytes_be_bytes)
  show "take (length p) (drop (length pre + 12) buf) = p"
    using assms(2) by simp
qed

section \<open>UTF-8\<close>

definition utf8_cont :: "u8 \<Rightarrow> bool" where
  "utf8_cont b \<longleftrightarrow> 0x80 \<le> b \<and> b \<le> 0xBF"

text \<open>The well-formed byte sequences that \<open>str::from_utf8\<close> accepts.\<close>

fun is_utf8 :: "u8 list \<Rightarrow> bool" where
  "is_utf8 [] = True"
| "is_utf8 (a # r) =
     (if a < 0x80 then is_utf8 r
      else case r of
        [] \<Rightarrow> False
      | b # r1 \<Rightarrow>
          if 0xC2 \<le> a \<and> a \<le> 0xDF then utf8_cont b \<and> is_utf8 r1
          else case r1 of
            [] \<Rightarrow> False
          | c # r2 \<Rightarrow>
              if 0xE0 \<le> a \<and> a \<le> 0xEF
              then utf8_cont b \<and> (a = 0xE0 \<longrightarrow> 0xA0 \<le> b) \<and> (a = 0xED \<longrightarrow> b \<le> 0x9F) \<and>
                   utf8_cont c \<and> is_utf8 r2
              else case r2 of
                [] \<Rightarrow> False
              | d # r3 \<Rightarrow>
                  0xF0 \<le> a \<and> a \<le> 0xF4 \<and> utf8_cont b \<and> (a = 0xF0 \<longrightarrow> 0x90 \<le> b) \<and>
                  (a = 0xF4 \<longrightarrow> b \<le> 0x8F) \<and> utf8_cont c \<and> utf8_cont d \<and> is_utf8 r3)"

section \<open>Trimming\<close>

text \<open>\<open>ws_prefix s\<close> is the byte length of a white-space character at the front of \<open>s\<close>.\<close>

definition ws_prefix :: "u8 list \<Rightarrow> nat" where
  "ws_prefix s =
     (case s of
        [] \<Rightarrow> 0
      | a # r \<Rightarrow>
        if (9 \<le> a \<and> a \<le> 13) \<or> a = 32 then 1
        else (case r of
            [] \<Rightarrow> 0
          | b # r' \<Rightarrow>
            if a = 0xC2 \<and> (b = 0x85 \<or> b = 0xA0) then 2
            else (case r' of
                [] \<Rightarrow> 0
              | c # _ \<Rightarrow>
                if (a = 0xE1 \<and> b = 0x9A \<and> c = 0x80)
                 \<or> (a = 0xE2 \<and> b = 0x80 \<and> ((0x80 \<le> c \<and> c \<le> 0x8A) \<or> c = 0xA8 \<or> c = 0xA9 \<or> c = 0xAF))
                 \<or> (a = 0xE2 \<and> b = 0x81 \<and> c = 0x9F)
                 \<or> (a = 0xE3 \<and> b = 0x80 \<and> c = 0x80) then 3 else 0)))"

text \<open>The same test at the end of the string, on the reversed bytes.\<close>

definition ws_suffix :: "u8 list \<Rightarrow> nat" where
  "ws_suffix r =
     (if ws_prefix (rev (take 1 r)) = 1 then 1
      else if ws_prefix (rev (take 2 r)) = 2 then 2
      else if ws_prefix (rev (take 3 r)) = 3 then 3 else 0)"

function drop_ws :: "(u8 list \<Rightarrow> nat) \<Rightarrow> u8 list \<Rightarrow> u8 list" where
  "drop_ws ws s = (if ws s = 0 \<or> s = [] then s else drop_ws ws (drop (ws s) s))"
  by pat_completeness auto
termination
  by (relation "measure (\<lambda>(ws, s). length s)") auto

declare drop_ws.simps [simp del]

definition trim_bytes :: "u8 list \<Rightarrow> u8 list" where
  "trim_bytes s = rev (drop_ws ws_suffix (rev (drop_ws ws_prefix s)))"

definition trim :: "string \<Rightarrow> string" where
  "trim s = map char_of_byte (trim_bytes (as_bytes s))"

lemma drop_ws_id: "ws s = 0 \<Longrightarrow> drop_ws ws s = s"
  by (simp add: drop_ws.simps)

lemma byte_of_char_of_byte [simp]: "byte_of (char_of_byte b) = b"
proof -
  have "unat b < 256" by (rule unat_u8_less)
  then have "(word_of_nat (of_char (char_of (unat b)) :: nat) :: u8) = b"
    by simp
  then show ?thesis
    unfolding byte_of_def char_of_byte_def of_nat_of_char .
qed

end
