(* ===== verification/Raft_Log.thy ===== *)
theory Raft_Log
  imports Rust_Str
begin

unbundle bit_operations_syntax

text \<open>
  \<open>crates/auradb-raft/src/log.rs\<close>: log entries, hard state, the \<open>RaftStorage\<close> trait, the
  in-memory backend and the base64 codec of command payloads.

  \<open>Term\<close> and \<open>LogIndex\<close> wrap a \<open>u64\<close> that only ever grows by one; they are natural
  numbers here, so the model does not cover a cluster that has lived through \<open>2^64\<close>
  elections or log entries.  A trait implementation is the record of its methods
  (\<open>raft_storage\<close>), and the generic \<open>RaftNode<S: RaftStorage>\<close> takes that record as an
  argument.
\<close>

section \<open>Terms, indices, commands, entries\<close>

type_synonym node_id = u64
type_synonym trm = nat
type_synonym log_index = nat

definition term_next :: "trm \<Rightarrow> trm" where
  "term_next t = t + 1"

definition index_next :: "log_index \<Rightarrow> log_index" where
  "index_next i = i + 1"

text \<open>\<open>LogIndex::prev\<close> saturates at zero, as subtraction on \<open>nat\<close> does.\<close>

definition index_prev :: "log_index \<Rightarrow> log_index" where
  "index_prev i = i - 1"

datatype command_kind = Noop | Database | Schema | Metadata | Config

record command =
  cmd_version :: u16
  cmd_kind :: command_kind
  cmd_payload :: "u8 list"

definition COMMAND_VERSION :: u16 where
  "COMMAND_VERSION = 1"

definition command_new :: "command_kind \<Rightarrow> u8 list \<Rightarrow> command" where
  "command_new k p = \<lparr>cmd_version = COMMAND_VERSION, cmd_kind = k, cmd_payload = p\<rparr>"

definition command_noop :: command where
  "command_noop = command_new Noop []"

record log_entry =
  entry_term :: trm
  entry_index :: log_index
  entry_command :: command

record hard_state =
  current_term :: trm
  voted_for :: "node_id option"
  hs_commit_index :: log_index

definition hard_state_default :: hard_state where
  "hard_state_default = \<lparr>current_term = 0, voted_for = None, hs_commit_index = 0\<rparr>"

text \<open>\<open>RaftError\<close>; a formatted message is the data it is formatted from.\<close>

datatype append_fault =
    LogGap log_index log_index
  | TermRegression log_index trm trm

datatype refusal = BeyondLog | BeyondCommit | NotApplied | NoTerm

datatype corruption =
    FrameLengthOverflow | ChecksumMismatch nat | MalformedEntry nat
  | BoundaryDisagrees log_index log_index | BadSuffix append_fault
  | MalformedState | MalformedCompaction | FutureFormat nat

datatype raft_error =
    Io
  | Corruption corruption
  | InvalidAppend append_fault
  | Compacted log_index log_index
  | CompactionRefused refusal
  | NotLeader "node_id option"
  | Codec

section \<open>The storage trait\<close>

record 's raft_storage =
  append_op :: "'s \<Rightarrow> log_entry list \<Rightarrow> (raft_error, unit, 's) result_st"
  truncate_from_op :: "'s \<Rightarrow> log_index \<Rightarrow> (raft_error, unit, 's) result_st"
  term_at_op :: "'s \<Rightarrow> log_index \<Rightarrow> trm option"
  entry_at_op :: "'s \<Rightarrow> log_index \<Rightarrow> log_entry option"
  entries_from_op :: "'s \<Rightarrow> log_index \<Rightarrow> log_entry list"
  last_index_op :: "'s \<Rightarrow> log_index"
  last_term_op :: "'s \<Rightarrow> trm"
  save_hard_state_op :: "'s \<Rightarrow> hard_state \<Rightarrow> (raft_error, unit, 's) result_st"
  hard_state_op :: "'s \<Rightarrow> hard_state"

text \<open>\<open>validate_suffix\<close>: the loop over the entries with its two mutable variables.\<close>

fun validate_loop :: "log_entry list \<Rightarrow> log_index \<Rightarrow> trm \<Rightarrow> (raft_error, unit) result" where
  "validate_loop [] expect_index prev_term = Inr ()"
| "validate_loop (e # es) expect_index prev_term =
     (if entry_index e \<noteq> expect_index
      then Inl (InvalidAppend (LogGap expect_index (entry_index e)))
      else if entry_term e < prev_term
      then Inl (InvalidAppend (TermRegression (entry_index e) (entry_term e) prev_term))
      else validate_loop es (index_next expect_index) (entry_term e))"

definition validate_suffix ::
  "log_entry list \<Rightarrow> log_index \<Rightarrow> trm \<Rightarrow> (raft_error, unit) result" where
  "validate_suffix entries last_index last_term =
     validate_loop entries (index_next last_index) last_term"

section \<open>The in-memory backend\<close>

record mem_storage =
  mem_entries :: "log_entry list"
  mem_hard_state :: hard_state

definition mem_new :: mem_storage where
  "mem_new = \<lparr>mem_entries = [], mem_hard_state = hard_state_default\<rparr>"

definition mem_last_index :: "mem_storage \<Rightarrow> log_index" where
  "mem_last_index s = length (mem_entries s)"

definition mem_last_term :: "mem_storage \<Rightarrow> trm" where
  "mem_last_term s = (if mem_entries s = [] then 0 else entry_term (last (mem_entries s)))"

definition mem_append ::
  "mem_storage \<Rightarrow> log_entry list \<Rightarrow> (raft_error, unit, mem_storage) result_st" where
  "mem_append s entries =
     (case validate_suffix entries (mem_last_index s) (mem_last_term s) of
        Inl e \<Rightarrow> (Inl e, s)
      | Inr _ \<Rightarrow> (Inr (), s\<lparr>mem_entries := mem_entries s @ entries\<rparr>))"

definition mem_truncate_from ::
  "mem_storage \<Rightarrow> log_index \<Rightarrow> (raft_error, unit, mem_storage) result_st" where
  "mem_truncate_from s index =
     (let keep = index - 1 in
      if keep < length (mem_entries s)
      then (Inr (), s\<lparr>mem_entries := take keep (mem_entries s)\<rparr>)
      else (Inr (), s))"

text \<open>\<open>Vec::get\<close>: \<open>None\<close> out of range.\<close>

definition vec_get :: "'a list \<Rightarrow> nat \<Rightarrow> 'a option" where
  "vec_get xs i = (if i < length xs then Some (xs ! i) else None)"

definition mem_term_at :: "mem_storage \<Rightarrow> log_index \<Rightarrow> trm option" where
  "mem_term_at s index =
     (if index = 0 then Some 0 else map_option entry_term (vec_get (mem_entries s) (index - 1)))"

definition mem_entry_at :: "mem_storage \<Rightarrow> log_index \<Rightarrow> log_entry option" where
  "mem_entry_at s index = (if index = 0 then None else vec_get (mem_entries s) (index - 1))"

definition mem_entries_from :: "mem_storage \<Rightarrow> log_index \<Rightarrow> log_entry list" where
  "mem_entries_from s index =
     (if index = 0 then mem_entries s else drop (index - 1) (mem_entries s))"

definition mem_save_hard_state ::
  "mem_storage \<Rightarrow> hard_state \<Rightarrow> (raft_error, unit, mem_storage) result_st" where
  "mem_save_hard_state s hs = (Inr (), s\<lparr>mem_hard_state := hs\<rparr>)"

definition mem_ops :: "mem_storage raft_storage" where
  "mem_ops =
     \<lparr>append_op = mem_append, truncate_from_op = mem_truncate_from, term_at_op = mem_term_at,
      entry_at_op = mem_entry_at, entries_from_op = mem_entries_from,
      last_index_op = mem_last_index, last_term_op = mem_last_term,
      save_hard_state_op = mem_save_hard_state, hard_state_op = mem_hard_state\<rparr>"

section \<open>Base64 payload codec\<close>

definition ALPHABET :: string where
  "ALPHABET = ''ABCDEFGHIJKLMNOPQRSTUVWXYZabcdefghijklmnopqrstuvwxyz0123456789+/''"

definition b64_char :: "u32 \<Rightarrow> char" where
  "b64_char n = ALPHABET ! unat (n AND 63)"

text \<open>One iteration of \<open>encode\<close>'s loop, over a chunk of one to three bytes.\<close>

definition b64_encode_chunk :: "u8 list \<Rightarrow> string" where
  "b64_encode_chunk chunk =
     (let b0 = (case vec_get chunk 0 of Some b \<Rightarrow> b | None \<Rightarrow> 0);
          b1 = (case vec_get chunk 1 of Some b \<Rightarrow> b | None \<Rightarrow> 0);
          b2 = (case vec_get chunk 2 of Some b \<Rightarrow> b | None \<Rightarrow> 0);
          n = push_bit 16 (ucast b0 :: u32) OR push_bit 8 (ucast b1) OR ucast b2
      in [b64_char (drop_bit 18 n),
          b64_char (drop_bit 12 n),
          if 1 < length chunk then b64_char (drop_bit 6 n) else CHR ''='',
          if 2 < length chunk then b64_char n else CHR ''=''])"

definition b64_encode :: "u8 list \<Rightarrow> string" where
  "b64_encode bytes = concat (map b64_encode_chunk (chunks 3 bytes))"

datatype b64_error = InvalidByte u8 | BadLength

definition b64_val :: "u8 \<Rightarrow> (b64_error, u32) result" where
  "b64_val c =
     (if 65 \<le> c \<and> c \<le> 90 then Inr (ucast (c - 65))
      else if 97 \<le> c \<and> c \<le> 122 then Inr (ucast (c - 97 + 26))
      else if 48 \<le> c \<and> c \<le> 57 then Inr (ucast (c - 48 + 52))
      else if c = 43 then Inr 62
      else if c = 47 then Inr 63
      else Inl (InvalidByte c))"

text \<open>The inner loop of \<open>decode\<close>: \<open>i\<close> is the position in the chunk, \<open>n\<close> the accumulator.\<close>

fun b64_decode_bits :: "u8 list \<Rightarrow> nat \<Rightarrow> u32 \<Rightarrow> (b64_error, u32) result" where
  "b64_decode_bits [] i n = Inr n"
| "b64_decode_bits (c # cs) i n =
     (case (if c = 61 then Inr 0 else b64_val c) of
        Inl e \<Rightarrow> Inl e
      | Inr v \<Rightarrow> b64_decode_bits cs (i + 1) (n OR push_bit (18 - 6 * i) v))"

definition b64_decode_chunk :: "u8 list \<Rightarrow> (b64_error, u8 list) result" where
  "b64_decode_chunk chunk =
     (let pad = length (filter (\<lambda>c. c = 61) chunk) in
      case b64_decode_bits chunk 0 0 of
        Inl e \<Rightarrow> Inl e
      | Inr n \<Rightarrow> Inr (ucast (drop_bit 16 n)
                     # (if pad < 2 then [ucast (drop_bit 8 n)] else [])
                     @ (if pad < 1 then [ucast n] else [])))"

fun b64_decode_chunks :: "u8 list list \<Rightarrow> u8 list \<Rightarrow> (b64_error, u8 list) result" where
  "b64_decode_chunks [] out = Inr out"
| "b64_decode_chunks (c # cs) out =
     (case b64_decode_chunk c of
        Inl e \<Rightarrow> Inl e
      | Inr bs \<Rightarrow> b64_decode_chunks cs (out @ bs))"

definition b64_decode :: "string \<Rightarrow> (b64_error, u8 list) result" where
  "b64_decode s =
     (let t = trim_bytes (as_bytes s) in
      if length t mod 4 \<noteq> 0 then Inl BadLength
      else b64_decode_chunks (chunks 4 t) [])"

end
