(* ===== verification/Raft_Node.thy ===== *)
theory Raft_Node
  imports Raft_Log
begin

unbundle bit_operations_syntax

text \<open>
  \<open>crates/auradb-raft/src/node.rs\<close>: the tick-driven Raft node.  Every method of
  \<open>impl<S: RaftStorage> RaftNode<S>\<close> is one definition over the node record; the storage
  methods come from the trait record \<open>ops\<close>.  A method with \<open>&mut self\<close> returns the new
  node; one that returns \<open>Result\<close> returns it paired with the result.  Outgoing messages
  go to \<open>outbox\<close>.  The \<open>u32\<close> tick counters and the \<open>u64\<close> generator state and metrics
  are words with the wrap-around of a release build; \<open>election_timeout_min + r\<close> is such
  an addition.
\<close>

section \<open>Configuration, messages, state\<close>

datatype node_role = Follower | Candidate | Leader

record raft_config =
  cfg_id :: node_id
  cfg_peers :: "node_id list"
  election_timeout_min :: u32
  election_timeout_max :: u32
  heartbeat_interval :: u32

definition config_single_node :: "node_id \<Rightarrow> raft_config" where
  "config_single_node i =
     \<lparr>cfg_id = i, cfg_peers = [], election_timeout_min = 10, election_timeout_max = 20,
      heartbeat_interval = 3\<rparr>"

definition voters :: "raft_config \<Rightarrow> nat" where
  "voters c = length (cfg_peers c) + 1"

definition majority :: "raft_config \<Rightarrow> nat" where
  "majority c = voters c div 2 + 1"

datatype message =
    RequestVote (msg_term: trm) log_index trm
  | RequestVoteResp (msg_term: trm) bool
  | AppendEntries (msg_term: trm) log_index trm "log_entry list" log_index
  | AppendEntriesResp (msg_term: trm) bool log_index

record envelope =
  env_to :: node_id
  env_message :: message

record raft_metrics =
  leader_changes :: u64
  votes_granted :: u64
  append_entries_sent :: u64
  append_entries_received :: u64

definition metrics_default :: raft_metrics where
  "metrics_default =
     \<lparr>leader_changes = 0, votes_granted = 0, append_entries_sent = 0,
      append_entries_received = 0\<rparr>"

record 's raft_node =
  rn_config :: raft_config
  rn_storage :: 's
  role :: node_role
  leader_id :: "node_id option"
  commit_index :: log_index
  last_applied :: log_index
  election_elapsed :: u32
  heartbeat_elapsed :: u32
  randomized_election_timeout :: u32
  next_index :: "(node_id, log_index) omap"
  match_index :: "(node_id, log_index) omap"
  votes :: "(node_id, bool) omap"
  rng_state :: u64
  outbox :: "envelope list"
  metrics :: raft_metrics

section \<open>Accessors\<close>

definition node_term :: "'s raft_storage \<Rightarrow> 's raft_node \<Rightarrow> trm" where
  "node_term ops n = current_term (hard_state_op ops (rn_storage n))"

definition is_leader :: "'s raft_node \<Rightarrow> bool" where
  "is_leader n = (role n = Leader)"

definition last_log_index :: "'s raft_storage \<Rightarrow> 's raft_node \<Rightarrow> log_index" where
  "last_log_index ops n = last_index_op ops (rn_storage n)"

definition replication_lag :: "'s raft_node \<Rightarrow> nat" where
  "replication_lag n = commit_index n - last_applied n"

section \<open>Election timer\<close>

text \<open>SplitMix64.\<close>

definition next_rand :: "'s raft_node \<Rightarrow> u64 \<times> 's raft_node" where
  "next_rand n =
     (let st = rng_state n + 0x9e3779b97f4a7c15;
          z = (st XOR drop_bit 30 st) * 0xbf58476d1ce4e5b9;
          z = (z XOR drop_bit 27 z) * 0x94d049bb133111eb
      in (z XOR drop_bit 31 z, n\<lparr>rng_state := st\<rparr>))"

definition reset_election_timeout :: "'s raft_node \<Rightarrow> 's raft_node" where
  "reset_election_timeout n =
     (let n = n\<lparr>election_elapsed := 0\<rparr>;
          c = rn_config n;
          span = max (sat_add (sat_sub (election_timeout_max c) (election_timeout_min c)) 1) 1;
          (x, n) = next_rand n;
          r = (ucast (x mod (ucast span :: u64)) :: u32)
      in n\<lparr>randomized_election_timeout := election_timeout_min c + r\<rparr>)"

definition node_new :: "'s raft_storage \<Rightarrow> raft_config \<Rightarrow> 's \<Rightarrow> 's raft_node" where
  "node_new ops c st =
     (let hs = hard_state_op ops st;
          seed = cfg_id c XOR 0x9e3779b97f4a7c15
      in reset_election_timeout
           \<lparr>rn_config = c, rn_storage = st, role = Follower, leader_id = None,
            commit_index = hs_commit_index hs, last_applied = hs_commit_index hs,
            election_elapsed = 0, heartbeat_elapsed = 0, randomized_election_timeout = 0,
            next_index = [], match_index = [], votes = [], rng_state = seed, outbox = [],
            metrics = metrics_default\<rparr>)"

definition single_node :: "'s raft_storage \<Rightarrow> node_id \<Rightarrow> 's \<Rightarrow> 's raft_node" where
  "single_node ops i st = node_new ops (config_single_node i) st"

section \<open>Sending\<close>

definition send :: "node_id \<Rightarrow> message \<Rightarrow> 's raft_node \<Rightarrow> 's raft_node" where
  "send to m n = n\<lparr>outbox := outbox n @ [\<lparr>env_to = to, env_message = m\<rparr>]\<rparr>"

definition take_messages :: "'s raft_node \<Rightarrow> envelope list \<times> 's raft_node" where
  "take_messages n = (outbox n, n\<lparr>outbox := []\<rparr>)"

definition send_append_to :: "'s raft_storage \<Rightarrow> node_id \<Rightarrow> 's raft_node \<Rightarrow> 's raft_node" where
  "send_append_to ops peer n =
     (let next = (case om_get (next_index n) peer of
                    Some i \<Rightarrow> i | None \<Rightarrow> index_next (last_index_op ops (rn_storage n)));
          prev_log_index = index_prev next;
          prev_log_term = (case term_at_op ops (rn_storage n) prev_log_index of
                             Some t \<Rightarrow> t | None \<Rightarrow> 0);
          entries = entries_from_op ops (rn_storage n) next;
          n = n\<lparr>metrics := (metrics n)\<lparr>append_entries_sent := append_entries_sent (metrics n) + 1\<rparr>\<rparr>
      in send peer
           (AppendEntries (node_term ops n) prev_log_index prev_log_term entries (commit_index n)) n)"

definition broadcast_append :: "'s raft_storage \<Rightarrow> 's raft_node \<Rightarrow> 's raft_node" where
  "broadcast_append ops n = fold (send_append_to ops) (cfg_peers (rn_config n)) n"

section \<open>Commit advancement\<close>

definition persist_commit_index ::
  "'s raft_storage \<Rightarrow> 's raft_node \<Rightarrow> (raft_error, unit, 's raft_node) result_st" where
  "persist_commit_index ops n =
     (let hs = hard_state_op ops (rn_storage n) in
      if hs_commit_index hs \<noteq> commit_index n
      then (case save_hard_state_op ops (rn_storage n) (hs\<lparr>hs_commit_index := commit_index n\<rparr>) of
              (r, st) \<Rightarrow> (r, n\<lparr>rn_storage := st\<rparr>))
      else (Inr (), n))"

text \<open>The scan of \<open>maybe_advance_commit\<close>: \<open>k\<close> is the loop variable \<open>n\<close>, \<open>new_commit\<close> the
  best index so far.\<close>

function commit_scan ::
  "'s raft_storage \<Rightarrow> 's raft_node \<Rightarrow> log_index \<Rightarrow> log_index \<Rightarrow> log_index \<Rightarrow> log_index" where
  "commit_scan ops n last_ix k new_commit =
     (if k \<le> last_ix then
        (let replicated = length (filter (\<lambda>m. k \<le> m) (om_values (match_index n)));
             from_current_term = (term_at_op ops (rn_storage n) k = Some (node_term ops n))
         in commit_scan ops n last_ix (index_next k)
              (if majority (rn_config n) \<le> replicated \<and> from_current_term then k else new_commit))
      else new_commit)"
  by pat_completeness auto
termination
  by (relation "measure (\<lambda>(ops, n, last_ix, k, c). last_ix + 1 - k)") (auto simp: index_next_def)

declare commit_scan.simps [simp del]

definition maybe_advance_commit ::
  "'s raft_storage \<Rightarrow> 's raft_node \<Rightarrow> (raft_error, unit, 's raft_node) result_st" where
  "maybe_advance_commit ops n =
     (let last_ix = last_index_op ops (rn_storage n);
          new_commit = commit_scan ops n last_ix (index_next (commit_index n)) (commit_index n)
      in if commit_index n < new_commit
         then persist_commit_index ops (n\<lparr>commit_index := new_commit\<rparr>)
         else (Inr (), n))"

section \<open>Role transitions\<close>

definition become_follower ::
  "'s raft_storage \<Rightarrow> trm \<Rightarrow> node_id option \<Rightarrow> 's raft_node \<Rightarrow>
   (raft_error, unit, 's raft_node) result_st" where
  "become_follower ops t leader n =
     (let hs = hard_state_op ops (rn_storage n);
          (r, n) = (if current_term hs < t
                    then (case save_hard_state_op ops (rn_storage n)
                                 (hs\<lparr>current_term := t, voted_for := None\<rparr>) of
                            (r, st) \<Rightarrow> (r, n\<lparr>rn_storage := st\<rparr>))
                    else (Inr (), n))
      in case r of
           Inl e \<Rightarrow> (Inl e, n)
         | Inr _ \<Rightarrow>
             (Inr (), n\<lparr>role := Follower,
                        leader_id := (if leader \<noteq> None then leader else leader_id n),
                        votes := []\<rparr>))"

text \<open>The initialisation loop of \<open>become_leader\<close> over the peers.\<close>

definition init_progress :: "log_index \<Rightarrow> node_id \<Rightarrow> 's raft_node \<Rightarrow> 's raft_node" where
  "init_progress last_ix peer n =
     n\<lparr>next_index := om_insert peer (index_next last_ix) (next_index n),
       match_index := om_insert peer 0 (match_index n)\<rparr>"

definition become_leader ::
  "'s raft_storage \<Rightarrow> 's raft_node \<Rightarrow> (raft_error, unit, 's raft_node) result_st" where
  "become_leader ops n =
     (let n = n\<lparr>role := Leader, leader_id := Some (cfg_id (rn_config n)),
                metrics := (metrics n)\<lparr>leader_changes := leader_changes (metrics n) + 1\<rparr>,
                heartbeat_elapsed := 0\<rparr>;
          last_ix = last_index_op ops (rn_storage n);
          n = n\<lparr>next_index := [], match_index := []\<rparr>;
          n = fold (init_progress last_ix) (cfg_peers (rn_config n)) n;
          n = n\<lparr>match_index := om_insert (cfg_id (rn_config n)) last_ix (match_index n)\<rparr>;
          index = index_next last_ix;
          entry = \<lparr>entry_term = node_term ops n, entry_index = index, entry_command = command_noop\<rparr>
      in case append_op ops (rn_storage n) [entry] of
           (Inl e, st) \<Rightarrow> (Inl e, n\<lparr>rn_storage := st\<rparr>)
         | (Inr _, st) \<Rightarrow>
             (let n = n\<lparr>rn_storage := st,
                        match_index := om_insert (cfg_id (rn_config n)) index (match_index n)\<rparr>
              in case maybe_advance_commit ops n of
                   (Inl e, n) \<Rightarrow> (Inl e, n)
                 | (Inr _, n) \<Rightarrow> (Inr (), broadcast_append ops n)))"

text \<open>\<open>campaign\<close> discards the results of the hard-state write and of \<open>become_leader\<close>.\<close>

definition campaign :: "'s raft_storage \<Rightarrow> 's raft_node \<Rightarrow> 's raft_node" where
  "campaign ops n =
     (let hs = hard_state_op ops (rn_storage n);
          hs = hs\<lparr>current_term := term_next (current_term hs),
                  voted_for := Some (cfg_id (rn_config n))\<rparr>;
          n = n\<lparr>rn_storage := snd (save_hard_state_op ops (rn_storage n) hs)\<rparr>;
          n = n\<lparr>role := Candidate, leader_id := None,
                votes := om_insert (cfg_id (rn_config n)) True []\<rparr>;
          n = reset_election_timeout n
      in if majority (rn_config n) \<le> 1 then snd (become_leader ops n)
         else (let m = RequestVote (node_term ops n) (last_index_op ops (rn_storage n))
                         (last_term_op ops (rn_storage n))
               in fold (\<lambda>peer. send peer m) (cfg_peers (rn_config n)) n))"

section \<open>Clock\<close>

definition tick :: "'s raft_storage \<Rightarrow> 's raft_node \<Rightarrow> 's raft_node" where
  "tick ops n =
     (case role n of
        Leader \<Rightarrow>
          (let n = n\<lparr>heartbeat_elapsed := heartbeat_elapsed n + 1\<rparr> in
           if heartbeat_interval (rn_config n) \<le> heartbeat_elapsed n
           then broadcast_append ops (n\<lparr>heartbeat_elapsed := 0\<rparr>)
           else n)
      | _ \<Rightarrow>
          (let n = n\<lparr>election_elapsed := election_elapsed n + 1\<rparr> in
           if randomized_election_timeout n \<le> election_elapsed n then campaign ops n else n))"

section \<open>Applying and proposing\<close>

function committed_loop ::
  "'s raft_storage \<Rightarrow> 's \<Rightarrow> log_index \<Rightarrow> log_index \<Rightarrow> log_entry list \<Rightarrow> log_entry list" where
  "committed_loop ops st idx c out =
     (if idx \<le> c
      then committed_loop ops st (index_next idx) c
             (case entry_at_op ops st idx of Some e \<Rightarrow> out @ [e] | None \<Rightarrow> out)
      else out)"
  by pat_completeness auto
termination
  by (relation "measure (\<lambda>(ops, st, idx, c, out). c + 1 - idx)") (auto simp: index_next_def)

declare committed_loop.simps [simp del]

definition take_committed ::
  "'s raft_storage \<Rightarrow> 's raft_node \<Rightarrow> log_entry list \<times> 's raft_node" where
  "take_committed ops n =
     (committed_loop ops (rn_storage n) (index_next (last_applied n)) (commit_index n) [],
      n\<lparr>last_applied := commit_index n\<rparr>)"

definition propose ::
  "'s raft_storage \<Rightarrow> command \<Rightarrow> 's raft_node \<Rightarrow>
   (raft_error, log_index, 's raft_node) result_st" where
  "propose ops cmd n =
     (if role n \<noteq> Leader then (Inl (NotLeader (leader_id n)), n)
      else
        (let index = index_next (last_index_op ops (rn_storage n));
             entry = \<lparr>entry_term = node_term ops n, entry_index = index, entry_command = cmd\<rparr>
         in case append_op ops (rn_storage n) [entry] of
              (Inl e, st) \<Rightarrow> (Inl e, n\<lparr>rn_storage := st\<rparr>)
            | (Inr _, st) \<Rightarrow>
                (let n = n\<lparr>rn_storage := st,
                           match_index := om_insert (cfg_id (rn_config n)) index (match_index n)\<rparr>
                 in case maybe_advance_commit ops n of
                      (Inl e, n) \<Rightarrow> (Inl e, n)
                    | (Inr _, n) \<Rightarrow> (Inr index, broadcast_append ops n))))"

section \<open>Snapshot hooks\<close>

definition adopt_snapshot :: "log_index \<Rightarrow> 's raft_node \<Rightarrow> 's raft_node" where
  "adopt_snapshot lii n =
     (let n = (if commit_index n < lii then n\<lparr>commit_index := lii\<rparr> else n)
      in if last_applied n < lii then n\<lparr>last_applied := lii\<rparr> else n)"

definition on_snapshot_installed ::
  "'s raft_storage \<Rightarrow> node_id \<Rightarrow> log_index \<Rightarrow> 's raft_node \<Rightarrow> 's raft_node" where
  "on_snapshot_installed ops peer lii n =
     (if role n \<noteq> Leader then n
      else
        (let cur_match = (case om_get (match_index n) peer of Some i \<Rightarrow> i | None \<Rightarrow> 0);
             n = (if cur_match < lii then n\<lparr>match_index := om_insert peer lii (match_index n)\<rparr> else n);
             next = index_next lii;
             cur_next = (case om_get (next_index n) peer of Some i \<Rightarrow> i | None \<Rightarrow> 0);
             n = (if cur_next < next then n\<lparr>next_index := om_insert peer next (next_index n)\<rparr> else n)
         in send_append_to ops peer n))"

section \<open>Message handlers\<close>

definition handle_request_vote ::
  "'s raft_storage \<Rightarrow> node_id \<Rightarrow> trm \<Rightarrow> log_index \<Rightarrow> trm \<Rightarrow> 's raft_node \<Rightarrow>
   (raft_error, unit, 's raft_node) result_st" where
  "handle_request_vote ops from t lli llt n =
     (let hs = hard_state_op ops (rn_storage n);
          can_vote = (voted_for hs = None \<or> voted_for hs = Some from);
          log_ok = ((llt, lli) \<ge> (last_term_op ops (rn_storage n), last_index_op ops (rn_storage n)));
          (r, n) =
            (if t < current_term hs then (Inr False, n)
             else if can_vote \<and> log_ok then
               (case save_hard_state_op ops (rn_storage n) (hs\<lparr>voted_for := Some from\<rparr>) of
                  (Inl e, st) \<Rightarrow> (Inl e, n\<lparr>rn_storage := st\<rparr>)
                | (Inr _, st) \<Rightarrow>
                    (Inr True,
                     n\<lparr>rn_storage := st, election_elapsed := 0,
                       metrics := (metrics n)\<lparr>votes_granted := votes_granted (metrics n) + 1\<rparr>\<rparr>))
             else (Inr False, n))
      in case r of
           Inl e \<Rightarrow> (Inl e, n)
         | Inr granted \<Rightarrow> (Inr (), send from (RequestVoteResp (node_term ops n) granted) n))"

definition handle_vote_resp ::
  "'s raft_storage \<Rightarrow> node_id \<Rightarrow> trm \<Rightarrow> bool \<Rightarrow> 's raft_node \<Rightarrow>
   (raft_error, unit, 's raft_node) result_st" where
  "handle_vote_resp ops from t granted n =
     (if role n \<noteq> Candidate \<or> t \<noteq> node_term ops n then (Inr (), n)
      else
        (let n = n\<lparr>votes := om_insert from granted (votes n)\<rparr>;
             yes = length (filter (\<lambda>v. v) (om_values (votes n)))
         in if majority (rn_config n) \<le> yes then become_leader ops n else (Inr (), n)))"

text \<open>The loop of \<open>handle_append_entries\<close> over the received entries; returns the new match
  index.\<close>

fun append_loop ::
  "'s raft_storage \<Rightarrow> log_entry list \<Rightarrow> log_index \<Rightarrow> 's \<Rightarrow> (raft_error, log_index, 's) result_st" where
  "append_loop ops [] mi st = (Inr mi, st)"
| "append_loop ops (e # es) mi st =
     (case term_at_op ops st (entry_index e) of
        Some existing \<Rightarrow>
          if existing = entry_term e then append_loop ops es (entry_index e) st
          else (case truncate_from_op ops st (entry_index e) of
                  (Inl x, st) \<Rightarrow> (Inl x, st)
                | (Inr _, st) \<Rightarrow>
                    (case append_op ops st [e] of
                       (Inl x, st) \<Rightarrow> (Inl x, st)
                     | (Inr _, st) \<Rightarrow> append_loop ops es (entry_index e) st))
      | None \<Rightarrow>
          (case append_op ops st [e] of
             (Inl x, st) \<Rightarrow> (Inl x, st)
           | (Inr _, st) \<Rightarrow> append_loop ops es (entry_index e) st))"

definition min_index :: "log_index \<Rightarrow> log_index \<Rightarrow> log_index" where
  "min_index a b = (if a < b then a else b)"

definition handle_append_entries ::
  "'s raft_storage \<Rightarrow> node_id \<Rightarrow> trm \<Rightarrow> log_index \<Rightarrow> trm \<Rightarrow> log_entry list \<Rightarrow> log_index \<Rightarrow>
   's raft_node \<Rightarrow> (raft_error, unit, 's raft_node) result_st" where
  "handle_append_entries ops from t pli plt entries leader_commit n =
     (let n = n\<lparr>metrics := (metrics n)\<lparr>append_entries_received := append_entries_received (metrics n) + 1\<rparr>\<rparr>;
          current = node_term ops n
      in if t < current then (Inr (), send from (AppendEntriesResp current False 0) n)
         else case become_follower ops t (Some from) n of
           (Inl e, n) \<Rightarrow> (Inl e, n)
         | (Inr _, n) \<Rightarrow>
             (let n = n\<lparr>election_elapsed := 0\<rparr>;
                  prev_ok = (case term_at_op ops (rn_storage n) pli of Some x \<Rightarrow> x = plt | None \<Rightarrow> False)
              in if \<not> prev_ok
                 then (Inr (), send from (AppendEntriesResp (node_term ops n) False 0) n)
                 else case append_loop ops entries pli (rn_storage n) of
                   (Inl e, st) \<Rightarrow> (Inl e, n\<lparr>rn_storage := st\<rparr>)
                 | (Inr mi, st) \<Rightarrow>
                     (let n = n\<lparr>rn_storage := st\<rparr>;
                          (r, n) = (if commit_index n < leader_commit
                                    then persist_commit_index ops
                                           (n\<lparr>commit_index := min_index leader_commit (last_index_op ops st)\<rparr>)
                                    else (Inr (), n))
                      in case r of
                           Inl e \<Rightarrow> (Inl e, n)
                         | Inr _ \<Rightarrow> (Inr (), send from (AppendEntriesResp (node_term ops n) True mi) n))))"

definition handle_append_resp ::
  "'s raft_storage \<Rightarrow> node_id \<Rightarrow> trm \<Rightarrow> bool \<Rightarrow> log_index \<Rightarrow> 's raft_node \<Rightarrow>
   (raft_error, unit, 's raft_node) result_st" where
  "handle_append_resp ops from t success mi n =
     (if role n \<noteq> Leader \<or> t \<noteq> node_term ops n then (Inr (), n)
      else if success then
        maybe_advance_commit ops
          (n\<lparr>match_index := om_insert from mi (match_index n),
             next_index := om_insert from (index_next mi) (next_index n)\<rparr>)
      else
        (let next = (case om_get (next_index n) from of
                       Some i \<Rightarrow> i | None \<Rightarrow> index_next (last_index_op ops (rn_storage n)));
             backed = max (next - 1) 1
         in (Inr (), send_append_to ops from (n\<lparr>next_index := om_insert from backed (next_index n)\<rparr>))))"

definition step ::
  "'s raft_storage \<Rightarrow> node_id \<Rightarrow> message \<Rightarrow> 's raft_node \<Rightarrow>
   (raft_error, unit, 's raft_node) result_st" where
  "step ops from m n =
     (let (r, n) = (if node_term ops n < msg_term m
                    then become_follower ops (msg_term m) None n else (Inr (), n))
      in case r of
           Inl e \<Rightarrow> (Inl e, n)
         | Inr _ \<Rightarrow>
             (case m of
                RequestVote t lli llt \<Rightarrow> handle_request_vote ops from t lli llt n
              | RequestVoteResp t granted \<Rightarrow> handle_vote_resp ops from t granted n
              | AppendEntries t pli plt es lc \<Rightarrow> handle_append_entries ops from t pli plt es lc n
              | AppendEntriesResp t success mi \<Rightarrow> handle_append_resp ops from t success mi n))"

end
