(* ===== verification/Raft_Store.thy ===== *)
theory Raft_Store
  imports Raft_Node
begin

text \<open>
  The contract of the storage trait of \<open>log.rs\<close> and what the node of \<open>node.rs\<close> guarantees on
  every storage that keeps it, storage errors included.  \<open>base\<close> is the index and term of the
  compacted prefix and \<open>entries\<close> the retained suffix.  The contract says that reads answer
  from this log, that an append or truncation leaves the hard state alone, and that saving
  the hard state either installs it or leaves it unchanged.
\<close>

section \<open>Logs\<close>

text \<open>The two log invariants of the trait: indices without gaps, terms that never regress.\<close>

definition log_ok :: "log_index \<times> trm \<Rightarrow> log_entry list \<Rightarrow> bool" where
  "log_ok b es \<longleftrightarrow>
     (\<forall>k < length es. entry_index (es ! k) = fst b + k + 1) \<and> sorted (snd b # map entry_term es)"

definition log_last_term :: "log_index \<times> trm \<Rightarrow> log_entry list \<Rightarrow> trm" where
  "log_last_term b es = (if es = [] then snd b else entry_term (last es))"

lemma validate_loop_iff:
  "validate_loop es i t = Inr () \<longleftrightarrow>
     (\<forall>k < length es. entry_index (es ! k) = i + k) \<and> sorted (t # map entry_term es)"
proof (induction es arbitrary: i t)
  case (Cons e es)
  have "(\<forall>k < length (e # es). entry_index ((e # es) ! k) = i + k) \<longleftrightarrow>
      entry_index e = i \<and> (\<forall>k < length es. entry_index (es ! k) = index_next i + k)"
    by (auto simp: index_next_def All_less_Suc2)
  moreover have "sorted (t # map entry_term (e # es)) \<longleftrightarrow> t \<le> entry_term e \<and> sorted (entry_term e # map entry_term es)"
    by auto
  ultimately show ?case using Cons by (simp del: sorted_simps)
qed simp

lemma all_less_add: "(\<forall>k < m + n. P k) \<longleftrightarrow> (\<forall>k < m. P k) \<and> (\<forall>k < n. P (m + k))" for m n :: nat
proof (intro iffI conjI allI impI)
  fix k assume "(\<forall>k < m. P k) \<and> (\<forall>k < n. P (m + k))" "k < m + n"
  then show "P k" by (cases "k < m") (auto dest!: spec[of _ "k - m"])
qed auto

lemma log_ok_append:
  "log_ok b (es @ fs) \<longleftrightarrow> log_ok b es \<and> log_ok (fst b + length es, log_last_term b es) fs"
proof -
  have 1: "(\<forall>k < length (es @ fs). entry_index ((es @ fs) ! k) = fst b + k + 1) \<longleftrightarrow>
    (\<forall>k < length es. entry_index (es ! k) = fst b + k + 1) \<and>
    (\<forall>k < length fs. entry_index (fs ! k) = fst b + length es + k + 1)"
    unfolding length_append all_less_add by (simp add: nth_append add.assoc)
  have 2: "sorted (snd b # map entry_term (es @ fs)) \<longleftrightarrow>
    sorted (snd b # map entry_term es) \<and> sorted (log_last_term b es # map entry_term fs)"
    by (cases es rule: rev_cases) (auto simp: sorted_append log_last_term_def, meson order_trans)
  show ?thesis unfolding log_ok_def 1 2 by (auto simp: add.assoc)
qed

text \<open>\<open>validate_suffix\<close> accepts exactly the entries that extend a well-formed log to a
  well-formed log.\<close>

lemma validate_suffix_iff:
  assumes "log_ok b es"
  shows "validate_suffix fs (fst b + length es) (log_last_term b es) = Inr () \<longleftrightarrow> log_ok b (es @ fs)"
  using assms unfolding log_ok_append validate_suffix_def validate_loop_iff
  by (simp add: log_ok_def index_next_def)

section \<open>Hard states\<close>

text \<open>The order in which hard states may follow each other: the term never decreases, and
  within a term a vote, once cast, stays.\<close>

definition hs_le :: "hard_state \<Rightarrow> hard_state \<Rightarrow> bool" where
  "hs_le a b \<longleftrightarrow>
     current_term a < current_term b \<or>
     (current_term a = current_term b \<and> (voted_for a = None \<or> voted_for b = voted_for a))"

lemma hs_le_refl [simp]: "hs_le a a"
  by (simp add: hs_le_def)

lemma hs_le_trans: "hs_le a b \<Longrightarrow> hs_le b c \<Longrightarrow> hs_le a c"
  by (auto simp: hs_le_def)

section \<open>The contract\<close>

definition store_advances ::
  "'s raft_storage \<Rightarrow> ('s \<Rightarrow> bool) \<Rightarrow> ('s \<Rightarrow> log_index \<times> trm) \<Rightarrow> 's \<Rightarrow> 's \<Rightarrow> bool" where
  "store_advances ops good base s s' \<longleftrightarrow>
     (good s \<longrightarrow>
      good s' \<and> base s' = base s \<and> hs_le (hard_state_op ops s) (hard_state_op ops s'))"

lemma advances_refl [simp]: "store_advances ops good base s s"
  by (simp add: store_advances_def)

lemma advances_trans:
  "store_advances ops good base s s' \<Longrightarrow> store_advances ops good base s' s'' \<Longrightarrow>
   store_advances ops good base s s''"
  unfolding store_advances_def by (auto intro: hs_le_trans)

lemma advances_trans3:
  "store_advances ops good base s s1 \<Longrightarrow> store_advances ops good base s1 s2 \<Longrightarrow>
   store_advances ops good base s2 s' \<Longrightarrow> store_advances ops good base s s'"
  by (blast intro: advances_trans)

lemma send_storage [simp]:
  "rn_storage (send p m n) = rn_storage n" "rn_storage (send_append_to ops' p n) = rn_storage n"
  by (simp_all add: send_append_to_def send_def Let_def)

lemma broadcast_storage [simp]: "rn_storage (broadcast_append ops' n) = rn_storage n"
proof -
  have "rn_storage (fold (send_append_to ops') ps n) = rn_storage n" for ps
    by (induction ps arbitrary: n) auto
  then show ?thesis by (simp add: broadcast_append_def)
qed

lemma fold_send_storage [simp]: "rn_storage (fold (\<lambda>p. send p m) ps n) = rn_storage n"
  by (induction ps arbitrary: n) auto

lemma reset_storage [simp]: "rn_storage (reset_election_timeout n) = rn_storage n"
  by (simp add: reset_election_timeout_def next_rand_def Let_def)

lemma fold_init_storage [simp]: "rn_storage (fold (init_progress l) ps n) = rn_storage n"
  by (induction ps arbitrary: n) (auto simp: init_progress_def)

locale raft_store =
  fixes ops :: "'s raft_storage"
    and base :: "'s \<Rightarrow> log_index \<times> trm"
    and entries :: "'s \<Rightarrow> log_entry list"
    and good :: "'s \<Rightarrow> bool"
  assumes good_log: "good s \<Longrightarrow> log_ok (base s) (entries s)"
    and last_index: "good s \<Longrightarrow> last_index_op ops s = fst (base s) + length (entries s)"
    and last_term: "good s \<Longrightarrow> last_term_op ops s = log_last_term (base s) (entries s)"
    and entry_at: "good s \<Longrightarrow> entry_at_op ops s k =
      (if fst (base s) < k \<and> k \<le> fst (base s) + length (entries s)
       then Some (entries s ! (k - fst (base s) - 1)) else None)"
    and term_at: "good s \<Longrightarrow> fst (base s) < k \<Longrightarrow>
      term_at_op ops s k = map_option entry_term (entry_at_op ops s k)"
    and entries_from: "good s \<Longrightarrow> entries_from_op ops s k = drop (k - fst (base s) - 1) (entries s)"
    and append_law: "append_op ops s es = (r, s') \<Longrightarrow> good s \<Longrightarrow>
      good s' \<and> base s' = base s \<and> hard_state_op ops s' = hard_state_op ops s \<and>
      entries s' = (if r = Inr () then entries s @ es else entries s) \<and>
      (r = Inr () \<longrightarrow> validate_suffix es (last_index_op ops s) (last_term_op ops s) = Inr ())"
    and truncate_law: "truncate_from_op ops s k = (r, s') \<Longrightarrow> good s \<Longrightarrow>
      good s' \<and> base s' = base s \<and> hard_state_op ops s' = hard_state_op ops s \<and>
      (r = Inr () \<longrightarrow> entries s' = take (k - fst (base s) - 1) (entries s)) \<and>
      (\<exists>n. entries s' = take n (entries s))"
    and save_law: "save_hard_state_op ops s hs = (r, s') \<Longrightarrow> good s \<Longrightarrow>
      good s' \<and> base s' = base s \<and> entries s' = entries s \<and>
      hard_state_op ops s' = (if r = Inr () then hs else hard_state_op ops s)"
begin

lemma adv_persist:
  "persist_commit_index ops n = (r, n') \<Longrightarrow> store_advances ops good base (rn_storage n) (rn_storage n')"
  by (auto simp: persist_commit_index_def store_advances_def hs_le_def Let_def split: if_splits prod.splits
      dest!: save_law)

lemma adv_maybe:
  assumes "maybe_advance_commit ops n = (r, n')"
  shows "store_advances ops good base (rn_storage n) (rn_storage n')"
proof -
  consider c where "persist_commit_index ops (n\<lparr>commit_index := c\<rparr>) = (r, n')" | "n' = n"
    using assms unfolding maybe_advance_commit_def Let_def by (metis prod.inject)
  then show ?thesis
  proof cases
    case 1
    then show ?thesis using adv_persist[OF 1] by simp
  qed simp
qed

lemma adv_follower:
  "become_follower ops t l n = (r, n') \<Longrightarrow> store_advances ops good base (rn_storage n) (rn_storage n')"
  by (auto simp: become_follower_def Let_def store_advances_def hs_le_def split: if_splits prod.splits sum.splits
      dest!: save_law)

lemma adv_append: "append_op ops s es = (r, s') \<Longrightarrow> store_advances ops good base s s'"
  by (auto simp: store_advances_def dest!: append_law)

lemma adv_truncate: "truncate_from_op ops s k = (r, s') \<Longrightarrow> store_advances ops good base s s'"
  by (auto simp: store_advances_def dest!: truncate_law)

lemma adv_leader:
  "become_leader ops n = (r, n') \<Longrightarrow> store_advances ops good base (rn_storage n) (rn_storage n')"
  by (auto simp: become_leader_def Let_def split: sum.splits prod.splits
      dest!: adv_append adv_maybe elim: advances_trans)

lemma adv_campaign: "store_advances ops good base (rn_storage n) (rn_storage (campaign ops n))"
proof -
  let ?hs = "(hard_state_op ops (rn_storage n))\<lparr>current_term := term_next (current_term (hard_state_op ops (rn_storage n))),
     voted_for := Some (cfg_id (rn_config n))\<rparr>"
  obtain r st where st: "save_hard_state_op ops (rn_storage n) ?hs = (r, st)"
    by (cases "save_hard_state_op ops (rn_storage n) ?hs")
  have 1: "store_advances ops good base (rn_storage n) st"
    using save_law[OF st] by (auto simp: store_advances_def hs_le_def term_next_def)
  let ?m = "reset_election_timeout (n\<lparr>rn_storage := st, role := Candidate, leader_id := None,
     votes := om_insert (cfg_id (rn_config n)) True []\<rparr>)"
  obtain rl l where l: "become_leader ops ?m = (rl, l)" by (cases "become_leader ops ?m")
  have "store_advances ops good base st (rn_storage l)" using adv_leader[OF l] by simp
  then show ?thesis
    using 1 advances_trans[OF 1] st l by (simp add: campaign_def Let_def)
qed

lemma adv_tick: "store_advances ops good base (rn_storage n) (rn_storage (tick ops n))"
  using adv_campaign[of "n\<lparr>election_elapsed := election_elapsed n + 1\<rparr>"]
  by (auto simp: tick_def Let_def split: node_role.split)

lemma adv_propose:
  "propose ops cmd n = (r, n') \<Longrightarrow> store_advances ops good base (rn_storage n) (rn_storage n')"
  by (auto simp: propose_def Let_def split: sum.splits prod.splits if_splits
      dest!: adv_append adv_maybe elim: advances_trans)

lemma adv_request_vote:
  assumes "handle_request_vote ops from t lli llt n = (r, n')"
  shows "store_advances ops good base (rn_storage n) (rn_storage n')"
proof -
  let ?hs = "hard_state_op ops (rn_storage n)"
  have "rn_storage n' = rn_storage n \<or>
    ((voted_for ?hs = None \<or> voted_for ?hs = Some from) \<and>
     (\<exists>r. save_hard_state_op ops (rn_storage n) (?hs\<lparr>voted_for := Some from\<rparr>) = (r, rn_storage n')))"
    using assms by (auto simp: handle_request_vote_def Let_def split: if_splits prod.splits sum.splits)
  then show ?thesis using save_law by (fastforce simp: store_advances_def hs_le_def)
qed

lemma adv_vote_resp:
  assumes "handle_vote_resp ops from t g n = (r, n')"
  shows "store_advances ops good base (rn_storage n) (rn_storage n')"
proof -
  have "rn_storage n' = rn_storage n \<or> become_leader ops (n\<lparr>votes := om_insert from g (votes n)\<rparr>) = (r, n')"
    using assms by (auto simp: handle_vote_resp_def Let_def split: if_splits)
  then show ?thesis using adv_leader by fastforce
qed

lemma adv_append_loop: "append_loop ops es mi s = (r, s') \<Longrightarrow> store_advances ops good base s s'"
proof (induction es arbitrary: mi s)
  case (Cons e es)
  obtain rt st where t: "truncate_from_op ops s (entry_index e) = (rt, st)" by fastforce
  obtain ra sa where a: "append_op ops s [e] = (ra, sa)" by fastforce
  obtain rb sb where b: "append_op ops st [e] = (rb, sb)" by fastforce
  note adv = adv_truncate[OF t] adv_append[OF a] advances_trans[OF adv_truncate[OF t] adv_append[OF b]]
  show ?case
    using Cons.prems t a b adv Cons.IH advances_trans[OF adv(2)] advances_trans[OF adv(3)]
    by (auto split: option.splits if_splits sum.splits)
qed simp

lemma adv_append_entries:
  "handle_append_entries ops from t pli plt es lc n = (r, n') \<Longrightarrow>
   store_advances ops good base (rn_storage n) (rn_storage n')"
  by (auto simp: handle_append_entries_def Let_def split: sum.splits prod.splits if_splits
      dest!: adv_follower adv_append_loop adv_persist elim: advances_trans advances_trans3)

lemma adv_append_resp:
  "handle_append_resp ops from t ok mi n = (r, n') \<Longrightarrow>
   store_advances ops good base (rn_storage n) (rn_storage n')"
  by (auto simp: handle_append_resp_def Let_def split: if_splits dest!: adv_maybe)

lemma adv_step:
  assumes "step ops from m n = (r, n')"
  shows "store_advances ops good base (rn_storage n) (rn_storage n')"
proof -
  obtain r1 n1 where n1: "(if node_term ops n < msg_term m then become_follower ops (msg_term m) None n
      else (Inr (), n)) = (r1, n1)" by fastforce
  have 1: "store_advances ops good base (rn_storage n) (rn_storage n1)"
    using n1 by (auto split: if_splits dest!: adv_follower)
  show ?thesis
  proof (cases r1)
    case (Inl e)
    then show ?thesis using assms 1 unfolding step_def n1 by simp
  next
    case (Inr u)
    have "store_advances ops good base (rn_storage n1) (rn_storage n')"
      using assms Inr unfolding step_def n1
      by (cases m) (auto dest!: adv_request_vote adv_vote_resp adv_append_entries adv_append_resp)
    then show ?thesis by (rule advances_trans[OF 1])
  qed
qed

end

section \<open>The in-memory backend keeps the contract\<close>

lemma mem_ops_simps [simp]:
  "append_op mem_ops = mem_append" "truncate_from_op mem_ops = mem_truncate_from"
  "term_at_op mem_ops = mem_term_at" "entry_at_op mem_ops = mem_entry_at"
  "entries_from_op mem_ops = mem_entries_from" "last_index_op mem_ops = mem_last_index"
  "last_term_op mem_ops = mem_last_term" "save_hard_state_op mem_ops = mem_save_hard_state"
  "hard_state_op mem_ops = mem_hard_state"
  by (simp_all add: mem_ops_def)

lemma log_ok_take: "log_ok b es \<Longrightarrow> log_ok b (take n es)"
  using log_ok_append[of b "take n es" "drop n es"] by simp

lemma ex_take_all: "\<exists>n. xs = take n xs"
  by (rule exI[of _ "length xs"]) simp

interpretation mem: raft_store mem_ops "\<lambda>_. (0, 0)" mem_entries "\<lambda>s. log_ok (0, 0) (mem_entries s)"
proof
  fix s r s' and es :: "log_entry list"
  assume a: "append_op mem_ops s es = (r, s')" and ok: "log_ok (0, 0) (mem_entries s)"
  show "log_ok (0, 0) (mem_entries s') \<and> (0, 0) = (0 :: nat, 0 :: nat) \<and>
      hard_state_op mem_ops s' = hard_state_op mem_ops s \<and>
      mem_entries s' = (if r = Inr () then mem_entries s @ es else mem_entries s) \<and>
      (r = Inr () \<longrightarrow> validate_suffix es (last_index_op mem_ops s) (last_term_op mem_ops s) = Inr ())"
    using a ok validate_suffix_iff[OF ok, of es]
    by (auto simp: mem_append_def mem_last_index_def mem_last_term_def log_last_term_def split: sum.splits if_splits)
qed (auto simp: mem_last_index_def mem_last_term_def log_last_term_def mem_entry_at_def mem_term_at_def vec_get_def
      mem_entries_from_def mem_truncate_from_def mem_save_hard_state_def Let_def
      ex_take_all intro: log_ok_take split: if_splits)

end
