(* ===== verification/Raft_Spec.thy ===== *)
theory Raft_Spec
  imports Raft_Store
begin

text \<open>
  The consensus protocol the Raft crate implements, as an abstract transition system over
  the parts of the nodes that matter for agreement (term, vote, role, log, commit index)
  and the set of all messages ever sent.  A message stays in the set: delivering it any
  number of times, in any order, or never, models duplication, reordering and loss.
  History variables record what the proofs talk about: the log a candidate campaigned
  with, the vote a node cast and its log at that moment, and the log each term's leader
  has written.
\<close>

section \<open>States\<close>

type_synonym log = "log_entry list"

definition last_tm :: "log \<Rightarrow> trm" where
  "last_tm l = (if l = [] then 0 else entry_term (last l))"

text \<open>The vote check: the candidate's log is at least as up to date.\<close>

definition up_to_date :: "log \<Rightarrow> log \<Rightarrow> bool" where
  "up_to_date cl vl \<longleftrightarrow> (last_tm vl, length vl) \<le> (last_tm cl, length cl)"

definition term_of :: "log \<Rightarrow> nat \<Rightarrow> trm" where
  "term_of l i = (if i = 0 then 0 else entry_term (l ! (i - 1)))"

record astate =
  a_term :: "node_id \<Rightarrow> trm"
  a_vote :: "node_id \<Rightarrow> node_id option"
  a_role :: "node_id \<Rightarrow> node_role"
  a_log :: "node_id \<Rightarrow> log"
  a_commit :: "node_id \<Rightarrow> nat"
  a_msgs :: "(node_id \<times> node_id \<times> message) set"
  g_cand :: "trm \<times> node_id \<rightharpoonup> log"
  g_vote :: "node_id \<times> trm \<rightharpoonup> node_id \<times> log"
  g_lead :: "trm \<rightharpoonup> node_id \<times> log"

definition a_init :: "astate" where
  "a_init =
     \<lparr>a_term = (\<lambda>_. 0), a_vote = (\<lambda>_. None), a_role = (\<lambda>_. Follower), a_log = (\<lambda>_. []),
      a_commit = (\<lambda>_. 0), a_msgs = {}, g_cand = Map.empty, g_vote = Map.empty,
      g_lead = Map.empty\<rparr>"

text \<open>Storing the entries of an accepted message after position \<open>prev\<close>: nothing changes when
  they are already there, otherwise the conflicting suffix is replaced.\<close>

definition merge_log :: "log \<Rightarrow> nat \<Rightarrow> log \<Rightarrow> log" where
  "merge_log l prev es = (if take (length es) (drop prev l) = es then l else take prev l @ es)"

definition matches_at :: "log \<Rightarrow> nat \<Rightarrow> trm \<Rightarrow> bool" where
  "matches_at l prev pt \<longleftrightarrow> prev \<le> length l \<and> term_of l prev = pt"

text \<open>Node \<open>q\<close> has acknowledged the first \<open>m\<close> entries of the term-\<open>t\<close> leader's log.\<close>

definition acked :: "astate \<Rightarrow> node_id \<Rightarrow> trm \<Rightarrow> nat \<Rightarrow> bool" where
  "acked s q t m \<longleftrightarrow>
     (\<exists>l L. g_lead s t = Some (l, L) \<and> m \<le> length L \<and>
        (q = l \<or> (\<exists>m' \<ge> m. (q, l, AppendEntriesResp t True m') \<in> a_msgs s)))"

definition noop_entry :: "trm \<Rightarrow> nat \<Rightarrow> log_entry" where
  "noop_entry t i = \<lparr>entry_term = t, entry_index = i, entry_command = command_noop\<rparr>"

section \<open>Steps\<close>

text \<open>\<open>Qm\<close> is the family of quorums of the configuration.\<close>

inductive astep :: "(node_id set \<Rightarrow> bool) \<Rightarrow> astate \<Rightarrow> astate \<Rightarrow> bool" for Qm where
  Campaign:
  "astep Qm s
     (s\<lparr>a_term := (a_term s)(i := a_term s i + 1), a_vote := (a_vote s)(i := Some i),
        a_role := (a_role s)(i := Candidate),
        g_cand := (g_cand s)((a_term s i + 1, i) \<mapsto> a_log s i),
        g_vote := (g_vote s)((i, a_term s i + 1) \<mapsto> (i, a_log s i))\<rparr>)"
| Follow:
  "a_term s i \<le> t \<Longrightarrow>
   astep Qm s
     (s\<lparr>a_term := (a_term s)(i := t),
        a_vote := (a_vote s)(i := (if a_term s i < t then None else a_vote s i)),
        a_role := (a_role s)(i := Follower)\<rparr>)"
| SendRV:
  "a_role s i = Candidate \<Longrightarrow>
   astep Qm s
     (s\<lparr>a_msgs := insert (i, j, RequestVote (a_term s i) (length (a_log s i)) (last_tm (a_log s i)))
          (a_msgs s)\<rparr>)"
| Grant:
  "(c, i, RequestVote (a_term s i) lli llt) \<in> a_msgs s \<Longrightarrow>
   a_vote s i = None \<or> a_vote s i = Some c \<Longrightarrow>
   (last_tm (a_log s i), length (a_log s i)) \<le> (llt, lli) \<Longrightarrow>
   astep Qm s
     (s\<lparr>a_vote := (a_vote s)(i := Some c),
        a_msgs := insert (i, c, RequestVoteResp (a_term s i) True) (a_msgs s),
        g_vote := (if a_vote s i = None then (g_vote s)((i, a_term s i) \<mapsto> (c, a_log s i))
                   else g_vote s)\<rparr>)"
| Refuse:
  "m = RequestVoteResp t False \<or> m = AppendEntriesResp t False k \<Longrightarrow>
   astep Qm s (s\<lparr>a_msgs := insert (i, j, m) (a_msgs s)\<rparr>)"
| BecomeLeader:
  "a_role s i = Candidate \<Longrightarrow> Qm Q \<Longrightarrow>
   \<forall>q \<in> Q. q = i \<or> (q, i, RequestVoteResp (a_term s i) True) \<in> a_msgs s \<Longrightarrow>
   L = a_log s i @ [noop_entry (a_term s i) (length (a_log s i) + 1)] \<Longrightarrow>
   astep Qm s
     (s\<lparr>a_role := (a_role s)(i := Leader), a_log := (a_log s)(i := L),
        g_lead := (g_lead s)(a_term s i \<mapsto> (i, L))\<rparr>)"
| Propose:
  "a_role s i = Leader \<Longrightarrow> entry_term e = a_term s i \<Longrightarrow>
   entry_index e = length (a_log s i) + 1 \<Longrightarrow>
   astep Qm s
     (s\<lparr>a_log := (a_log s)(i := a_log s i @ [e]),
        g_lead := (g_lead s)(a_term s i \<mapsto> (i, a_log s i @ [e]))\<rparr>)"
| SendAE:
  "a_role s i = Leader \<Longrightarrow> prev \<le> length (a_log s i) \<Longrightarrow>
   astep Qm s
     (s\<lparr>a_msgs := insert (i, j, AppendEntries (a_term s i) prev (term_of (a_log s i) prev)
                            (drop prev (a_log s i)) (a_commit s i)) (a_msgs s)\<rparr>)"
| Accept:
  "(l, i, AppendEntries (a_term s i) prev pt es lc) \<in> a_msgs s \<Longrightarrow>
   a_role s i = Follower \<Longrightarrow> matches_at (a_log s i) prev pt \<Longrightarrow>
   astep Qm s
     (s\<lparr>a_log := (a_log s)(i := merge_log (a_log s i) prev es),
        a_msgs := insert (i, l, AppendEntriesResp (a_term s i) True (prev + length es)) (a_msgs s)\<rparr>)"
| LearnCommit:
  "(l, i, AppendEntries (a_term s i) prev pt es lc) \<in> a_msgs s \<Longrightarrow>
   matches_at (a_log s i) prev pt \<Longrightarrow> take (length es) (drop prev (a_log s i)) = es \<Longrightarrow>
   a_commit s i < lc \<Longrightarrow>
   astep Qm s (s\<lparr>a_commit := (a_commit s)(i := min lc (length (a_log s i)))\<rparr>)"
| LeaderCommit:
  "a_role s i = Leader \<Longrightarrow> a_commit s i < n \<Longrightarrow> n \<le> length (a_log s i) \<Longrightarrow>
   term_of (a_log s i) n = a_term s i \<Longrightarrow> Qm Q \<Longrightarrow> \<forall>q \<in> Q. acked s q (a_term s i) n \<Longrightarrow>
   astep Qm s (s\<lparr>a_commit := (a_commit s)(i := n)\<rparr>)"

inductive areach :: "(node_id set \<Rightarrow> bool) \<Rightarrow> astate \<Rightarrow> bool" for Qm where
  areach_init: "areach Qm a_init"
| areach_step: "areach Qm s \<Longrightarrow> astep Qm s s' \<Longrightarrow> areach Qm s'"

end
