(* ===== verification/Raft_Safety.thy ===== *)
theory Raft_Safety
  imports Raft_Spec
begin

text \<open>
  Safety of the abstract consensus protocol: the inductive invariant, one preservation
  lemma per conjunct, election safety, log matching, leader completeness and state-machine
  safety.  The quorum family is the parameter of the locale \<open>quorums\<close>, whose only law is that
  two quorums share a member.
\<close>


section \<open>The inductive invariant\<close>

definition conf :: "(trm \<rightharpoonup> node_id \<times> log) \<Rightarrow> log \<Rightarrow> bool" where
  "conf G l \<longleftrightarrow>
     (\<forall>k < length l. \<exists>p L. G (entry_term (l ! k)) = Some (p, L) \<and> k < length L \<and>
        take (Suc k) l = take (Suc k) L)"

definition committed :: "(node_id set \<Rightarrow> bool) \<Rightarrow> astate \<Rightarrow> trm \<Rightarrow> nat \<Rightarrow> bool" where
  "committed Qm s t m \<longleftrightarrow>
     (\<exists>l L Q. g_lead s t = Some (l, L) \<and> 0 < m \<and> m \<le> length L \<and> term_of L m = t \<and>
        Qm Q \<and> (\<forall>q \<in> Q. acked s q t m))"

definition cev :: "(node_id set \<Rightarrow> bool) \<Rightarrow> astate \<Rightarrow> trm \<Rightarrow> log \<Rightarrow> nat \<Rightarrow> bool" where
  "cev Qm s T lg c \<longleftrightarrow>
     c = 0 \<or>
     (\<exists>t m l L. t \<le> T \<and> committed Qm s t m \<and> g_lead s t = Some (l, L) \<and> c \<le> m \<and>
        c \<le> length lg \<and> take c lg = take c L)"

definition V1 :: "astate \<Rightarrow> bool" where
  "V1 s \<longleftrightarrow> (\<forall>i. a_vote s i = map_option fst (g_vote s (i, a_term s i)))"
definition V2 :: "astate \<Rightarrow> bool" where
  "V2 s \<longleftrightarrow> (\<forall>i t. a_term s i < t \<longrightarrow> g_vote s (i, t) = None)"
definition V3 :: "astate \<Rightarrow> bool" where
  "V3 s \<longleftrightarrow> (\<forall>i t c vl. g_vote s (i, t) = Some (c, vl) \<longrightarrow>
     (\<exists>cl. g_cand s (t, c) = Some cl \<and> up_to_date cl vl))"
definition V4 :: "astate \<Rightarrow> bool" where
  "V4 s \<longleftrightarrow> (\<forall>t c cl. g_cand s (t, c) = Some cl \<longrightarrow>
     t \<le> a_term s c \<and> g_vote s (c, t) = Some (c, cl) \<and> (\<forall>e \<in> set cl. entry_term e < t))"
definition V5 :: "astate \<Rightarrow> bool" where
  "V5 s \<longleftrightarrow> (\<forall>i. a_role s i = Candidate \<longrightarrow> g_cand s (a_term s i, i) = Some (a_log s i))"
definition M1 :: "astate \<Rightarrow> bool" where
  "M1 s \<longleftrightarrow> (\<forall>c j t lli llt. (c, j, RequestVote t lli llt) \<in> a_msgs s \<longrightarrow>
     (\<exists>cl. g_cand s (t, c) = Some cl \<and> lli = length cl \<and> llt = last_tm cl))"
definition M2 :: "astate \<Rightarrow> bool" where
  "M2 s \<longleftrightarrow> (\<forall>q c t. (q, c, RequestVoteResp t True) \<in> a_msgs s \<longrightarrow>
     (\<exists>vl. g_vote s (q, t) = Some (c, vl)))"
definition L1 :: "(node_id set \<Rightarrow> bool) \<Rightarrow> astate \<Rightarrow> bool" where
  "L1 Qm s \<longleftrightarrow> (\<forall>t l L. g_lead s t = Some (l, L) \<longrightarrow>
     t \<le> a_term s l \<and>
     (\<exists>cl Q r. g_cand s (t, l) = Some cl \<and> Qm Q \<and> (\<forall>q \<in> Q. \<exists>vl. g_vote s (q, t) = Some (l, vl)) \<and>
        L = cl @ r \<and> r \<noteq> [] \<and> (\<forall>e \<in> set r. entry_term e = t)))"
definition L2 :: "astate \<Rightarrow> bool" where
  "L2 s \<longleftrightarrow> (\<forall>i. a_role s i = Leader \<longrightarrow> g_lead s (a_term s i) = Some (i, a_log s i))"
definition L3 :: "astate \<Rightarrow> bool" where
  "L3 s \<longleftrightarrow> (\<forall>t l L. g_lead s t = Some (l, L) \<longrightarrow> a_term s l = t \<longrightarrow> a_role s l \<noteq> Candidate)"
definition C1 :: "astate \<Rightarrow> bool" where
  "C1 s \<longleftrightarrow> (\<forall>i. conf (g_lead s) (a_log s i))"
definition C2 :: "astate \<Rightarrow> bool" where
  "C2 s \<longleftrightarrow> (\<forall>t l L. g_lead s t = Some (l, L) \<longrightarrow> conf (g_lead s) L)"
definition C3 :: "astate \<Rightarrow> bool" where
  "C3 s \<longleftrightarrow> (\<forall>t c cl. g_cand s (t, c) = Some cl \<longrightarrow> conf (g_lead s) cl)"
definition C4 :: "astate \<Rightarrow> bool" where
  "C4 s \<longleftrightarrow> (\<forall>i t c vl. g_vote s (i, t) = Some (c, vl) \<longrightarrow> conf (g_lead s) vl)"
definition S1 :: "astate \<Rightarrow> bool" where
  "S1 s \<longleftrightarrow> (\<forall>i. \<forall>e \<in> set (a_log s i). entry_term e \<le> a_term s i)"
definition S2 :: "astate \<Rightarrow> bool" where
  "S2 s \<longleftrightarrow> (\<forall>t l L. g_lead s t = Some (l, L) \<longrightarrow>
     sorted (map entry_term L) \<and> (\<forall>k < length L. entry_index (L ! k) = k + 1))"
definition M3 :: "(node_id set \<Rightarrow> bool) \<Rightarrow> astate \<Rightarrow> bool" where
  "M3 Qm s \<longleftrightarrow> (\<forall>l j t prev pt es lc. (l, j, AppendEntries t prev pt es lc) \<in> a_msgs s \<longrightarrow>
     (\<exists>L. g_lead s t = Some (l, L) \<and> prev + length es \<le> length L \<and>
        es = take (length es) (drop prev L) \<and> pt = term_of L prev \<and>
        lc \<le> prev + length es \<and> (es \<noteq> [] \<longrightarrow> entry_term (last es) = t) \<and> cev Qm s t L lc))"
definition M4 :: "astate \<Rightarrow> bool" where
  "M4 s \<longleftrightarrow> (\<forall>q l t m. (q, l, AppendEntriesResp t True m) \<in> a_msgs s \<longrightarrow>
     t \<le> a_term s q \<and> (\<exists>L. g_lead s t = Some (l, L) \<and> m \<le> length L))"
definition A1 :: "astate \<Rightarrow> bool" where
  "A1 s \<longleftrightarrow> (\<forall>q t m l L. acked s q t m \<longrightarrow> g_lead s t = Some (l, L) \<longrightarrow>
     take m (a_log s q) = take m L \<or> t < last_tm (a_log s q))"
definition A2 :: "astate \<Rightarrow> bool" where
  "A2 s \<longleftrightarrow> (\<forall>q t m l L t' c vl. acked s q t m \<longrightarrow> g_lead s t = Some (l, L) \<longrightarrow> t < t' \<longrightarrow>
     g_vote s (q, t') = Some (c, vl) \<longrightarrow> take m vl = take m L \<or> t < last_tm vl)"
definition K1 :: "(node_id set \<Rightarrow> bool) \<Rightarrow> astate \<Rightarrow> bool" where
  "K1 Qm s \<longleftrightarrow> (\<forall>i. cev Qm s (a_term s i) (a_log s i) (a_commit s i))"

definition raft_inv :: "(node_id set \<Rightarrow> bool) \<Rightarrow> astate \<Rightarrow> bool" where
  "raft_inv Qm s \<longleftrightarrow>
     V1 s \<and> V2 s \<and> V3 s \<and> V4 s \<and> V5 s \<and> M1 s \<and> M2 s \<and> L1 Qm s \<and> L2 s \<and> L3 s \<and>
     C1 s \<and> C2 s \<and> C3 s \<and> C4 s \<and> S1 s \<and> S2 s \<and> M3 Qm s \<and> M4 s \<and> A1 s \<and> A2 s \<and> K1 Qm s"

lemma raft_invD:
  assumes "raft_inv Qm s"
  shows "V1 s" "V2 s" "V3 s" "V4 s" "V5 s" "M1 s" "M2 s" "L1 Qm s" "L2 s" "L3 s"
    "C1 s" "C2 s" "C3 s" "C4 s" "S1 s" "S2 s" "M3 Qm s" "M4 s" "A1 s" "A2 s" "K1 Qm s"
  using assms unfolding raft_inv_def by auto

lemmas V1D = V1_def[THEN iffD1, rule_format]
lemmas V2D = V2_def[THEN iffD1, rule_format]
lemmas V3D = V3_def[THEN iffD1, rule_format]
lemmas V4D = V4_def[THEN iffD1, rule_format]
lemmas V5D = V5_def[THEN iffD1, rule_format]
lemmas M1D = M1_def[THEN iffD1, rule_format]
lemmas M2D = M2_def[THEN iffD1, rule_format]
lemmas L1D = L1_def[THEN iffD1, rule_format]
lemmas L2D = L2_def[THEN iffD1, rule_format]
lemmas L3D = L3_def[THEN iffD1, rule_format]
lemmas C1D = C1_def[THEN iffD1, rule_format]
lemmas C2D = C2_def[THEN iffD1, rule_format]
lemmas C3D = C3_def[THEN iffD1, rule_format]
lemmas C4D = C4_def[THEN iffD1, rule_format]
lemmas S1D = S1_def[THEN iffD1, rule_format]
lemmas S2D = S2_def[THEN iffD1, rule_format]
lemmas M3D = M3_def[THEN iffD1, rule_format]
lemmas M4D = M4_def[THEN iffD1, rule_format]
lemmas A1D = A1_def[THEN iffD1, rule_format]
lemmas A2D = A2_def[THEN iffD1, rule_format]
lemmas K1D = K1_def[THEN iffD1, rule_format]

lemma raft_inv_init: "raft_inv Qm a_init"
  by (simp add: raft_inv_def a_init_def V1_def V2_def V3_def V4_def V5_def M1_def M2_def L1_def L2_def
      L3_def C1_def C2_def C3_def C4_def S1_def S2_def M3_def M4_def A1_def A2_def K1_def conf_def
      cev_def acked_def)


lemma V1_step: "astep Qm s s' \<Longrightarrow> V1 s \<Longrightarrow> V2 s \<Longrightarrow> V1 s'"
  by (erule astep.cases) (auto simp: V1_def V2_def)

lemma V2_step: "astep Qm s s' \<Longrightarrow> V2 s \<Longrightarrow> V2 s'"
  by (erule astep.cases) (auto simp: V2_def)

lemma V5_step: "astep Qm s s' \<Longrightarrow> V5 s \<Longrightarrow> V5 s'"
  by (erule astep.cases) (auto simp: V5_def)

lemma M2_step: "astep Qm s s' \<Longrightarrow> V1 s \<Longrightarrow> V2 s \<Longrightarrow> M2 s \<Longrightarrow> M2 s'"
  by (erule astep.cases) (fastforce simp: M2_def V1_def V2_def)+

lemma V4_step: "astep Qm s s' \<Longrightarrow> V4 s \<Longrightarrow> V1 s \<Longrightarrow> V2 s \<Longrightarrow> S1 s \<Longrightarrow> V4 s'"
  by (erule astep.cases) (fastforce simp: V4_def V1_def V2_def S1_def less_Suc_eq_le)+

lemma M1_step: "astep Qm s s' \<Longrightarrow> M1 s \<Longrightarrow> V4 s \<Longrightarrow> V5 s \<Longrightarrow> M1 s'"
  by (erule astep.cases) (fastforce simp: M1_def V4_def V5_def)+

lemma V3_step: "astep Qm s s' \<Longrightarrow> V3 s \<Longrightarrow> M1 s \<Longrightarrow> V4 s \<Longrightarrow> V3 s'"
  by (erule astep.cases) (fastforce simp: V3_def M1_def V4_def up_to_date_def)+


section \<open>Log matching\<close>

lemma conf_Nil [simp]: "conf G []"
  by (simp add: conf_def)

lemma conf_take: "conf G l \<Longrightarrow> conf G (take n l)"
  by (auto simp: conf_def min_def)

lemma log_matching:
  assumes "conf G X" "conf G Y" "k < length X" "k < length Y" "entry_term (X ! k) = entry_term (Y ! k)"
  shows "take (Suc k) X = take (Suc k) Y"
  using assms unfolding conf_def by (metis option.inject prod.inject)

lemma conf_last:
  assumes "conf G X" "X \<noteq> []"
  obtains p L where "G (last_tm X) = Some (p, L)" "length X \<le> length L" "X = take (length X) L"
proof -
  have k: "length X - 1 < length X" "Suc (length X - 1) = length X" using assms(2) by auto
  have "last_tm X = entry_term (X ! (length X - 1))"
    using assms(2) by (simp add: last_tm_def last_conv_nth)
  then show ?thesis
    using assms(1) k that unfolding conf_def by (metis Suc_leI take_all_iff order_refl)
qed

lemma matches_prefix:
  assumes "conf G X" "conf G Y" "matches_at X prev pt" "pt = term_of Y prev" "prev \<le> length Y"
  shows "take prev X = take prev Y"
proof (cases prev)
  case 0
  then show ?thesis by simp
next
  case (Suc k)
  then show ?thesis
    using log_matching[of G X Y k] assms by (auto simp: matches_at_def term_of_def)
qed

definition lead_ext :: "(trm \<rightharpoonup> node_id \<times> log) \<Rightarrow> (trm \<rightharpoonup> node_id \<times> log) \<Rightarrow> bool" where
  "lead_ext G G' \<longleftrightarrow> (\<forall>t l L. G t = Some (l, L) \<longrightarrow> (\<exists>r. G' t = Some (l, L @ r)))"

lemma lead_extD: "lead_ext G G' \<Longrightarrow> G t = Some (l, L) \<Longrightarrow> \<exists>r. G' t = Some (l, L @ r)"
  by (simp add: lead_ext_def)

lemma lead_ext_refl [simp]: "lead_ext G G"
  by (auto simp: lead_ext_def)

lemma lead_ext_upd:
  "G t = None \<or> (\<exists>L0 r. G t = Some (i, L0) \<and> L = L0 @ r) \<Longrightarrow> lead_ext G (G(t \<mapsto> (i, L)))"
  by (auto simp: lead_ext_def)

lemma conf_mono:
  assumes "lead_ext G G'" "conf G l"
  shows "conf G' l"
  unfolding conf_def
proof (intro allI impI)
  fix k assume k: "k < length l"
  then obtain p L where 1: "G (entry_term (l ! k)) = Some (p, L)" "k < length L"
    "take (Suc k) l = take (Suc k) L"
    using assms(2) by (auto simp: conf_def)
  then obtain r where "G' (entry_term (l ! k)) = Some (p, L @ r)"
    using lead_extD[OF assms(1)] by blast
  then show "\<exists>p L. G' (entry_term (l ! k)) = Some (p, L) \<and> k < length L \<and> take (Suc k) l = take (Suc k) L"
    using 1 by auto
qed

lemma conf_snoc:
  assumes "conf G l" "G (entry_term e) = Some (p, l @ [e])"
  shows "conf G (l @ [e])"
  unfolding conf_def
proof (intro allI impI)
  fix k assume "k < length (l @ [e])"
  then consider "k < length l" | "k = length l" by fastforce
  then show "\<exists>p L. G (entry_term ((l @ [e]) ! k)) = Some (p, L) \<and> k < length L \<and>
      take (Suc k) (l @ [e]) = take (Suc k) L"
  proof cases
    case 1
    then show ?thesis using assms(1) by (auto simp: conf_def nth_append)
  next
    case 2
    then show ?thesis using assms(2) by simp
  qed
qed

lemma merge_log_eq:
  assumes "take prev X = take prev L" "prev \<le> length X" "prev + length es \<le> length L"
    "es = take (length es) (drop prev L)"
  shows "merge_log X prev es = X \<and> take (prev + length es) X = take (prev + length es) L \<or>
         merge_log X prev es = take (prev + length es) L \<and>
           take (prev + length es) X \<noteq> take (prev + length es) L"
proof -
  have "take (prev + length es) L = take prev L @ es"
    using assms(4) by (simp add: take_add)
  moreover have "take (prev + length es) X = take prev X @ take (length es) (drop prev X)"
    by (simp add: take_add)
  ultimately show ?thesis using assms(1) by (auto simp: merge_log_def)
qed

definition ext :: "astate \<Rightarrow> astate \<Rightarrow> bool" where
  "ext s s' \<longleftrightarrow> lead_ext (g_lead s) (g_lead s') \<and> g_cand s \<subseteq>\<^sub>m g_cand s' \<and> g_vote s \<subseteq>\<^sub>m g_vote s' \<and>
     a_msgs s \<subseteq> a_msgs s' \<and> (\<forall>i. a_term s i \<le> a_term s' i)"

lemma extD:
  assumes "ext s s'"
  shows "lead_ext (g_lead s) (g_lead s')" "g_cand s \<subseteq>\<^sub>m g_cand s'" "g_vote s \<subseteq>\<^sub>m g_vote s'"
    "a_msgs s \<subseteq> a_msgs s'" "a_term s i \<le> a_term s' i"
  using assms by (auto simp: ext_def)

lemma ext_candD: "ext s s' \<Longrightarrow> g_cand s k = Some v \<Longrightarrow> g_cand s' k = Some v"
  by (metis domI ext_def map_le_def)

lemma ext_voteD: "ext s s' \<Longrightarrow> g_vote s k = Some v \<Longrightarrow> g_vote s' k = Some v"
  by (metis domI ext_def map_le_def)

lemma acked_mono:
  assumes "ext s s'" "acked s q t m"
  shows "acked s' q t m"
proof -
  obtain l L where 1: "g_lead s t = Some (l, L)" "m \<le> length L"
    "q = l \<or> (\<exists>m' \<ge> m. (q, l, AppendEntriesResp t True m') \<in> a_msgs s)"
    using assms(2) by (auto simp: acked_def)
  obtain r where r: "g_lead s' t = Some (l, L @ r)"
    using lead_extD[OF extD(1)[OF assms(1)] 1(1)] by blast
  have "q = l \<or> (\<exists>m' \<ge> m. (q, l, AppendEntriesResp t True m') \<in> a_msgs s')"
    using 1(3) extD(4)[OF assms(1)] by blast
  then show ?thesis unfolding acked_def using r 1(2) by simp
qed

lemma committed_mono: 
  assumes "ext s s'" "committed Qm s t m"
  shows "committed Qm s' t m"
proof -
  obtain l L Q where 1: "g_lead s t = Some (l, L)" "0 < m" "m \<le> length L" "term_of L m = t" "Qm Q"
    "\<forall>q \<in> Q. acked s q t m"
    using assms(2) by (auto simp: committed_def)
  obtain r where "g_lead s' t = Some (l, L @ r)"
    using lead_extD[OF extD(1)[OF assms(1)] 1(1)] by blast
  moreover have "term_of (L @ r) m = t" using 1 by (auto simp: term_of_def nth_append)
  ultimately show ?thesis
    unfolding committed_def using 1(2,3,5,6) acked_mono[OF assms(1)]
    by (intro exI[of _ l] exI[of _ "L @ r"] exI[of _ Q]) simp
qed

lemma cev_mono:
  assumes "ext s s'" "cev Qm s T lg c" "T \<le> T'" "c \<le> length lg'" "take c lg' = take c lg"
  shows "cev Qm s' T' lg' c"
proof (cases "c = 0")
  case False
  obtain t m l L where 1: "t \<le> T" "committed Qm s t m" "g_lead s t = Some (l, L)" "c \<le> m"
    "c \<le> length lg" "take c lg = take c L"
    using assms(2) False by (auto simp: cev_def)
  obtain r where r: "g_lead s' t = Some (l, L @ r)"
    using lead_extD[OF extD(1)[OF assms(1)] 1(3)] by blast
  have "c \<le> length L" using arg_cong[OF 1(6), of length] 1(5) by simp
  then have "take c lg' = take c (L @ r)" using 1(6) assms(5) by simp
  then show ?thesis
    unfolding cev_def using 1(1,4) r committed_mono[OF assms(1) 1(2)] assms(3,4)
    by (intro disjI2 exI[of _ t] exI[of _ m] exI[of _ l] exI[of _ "L @ r"]) simp
qed (simp add: cev_def)

locale quorums =
  fixes Qm :: "node_id set \<Rightarrow> bool"
  assumes quorum_inter: "Qm Q \<Longrightarrow> Qm Q' \<Longrightarrow> \<exists>q. q \<in> Q \<and> q \<in> Q'"
begin

lemma ballots:
  assumes inv: "V4 s" "V5 s" "M2 s" and "a_role s i = Candidate"
    and votes: "\<forall>q \<in> Q. q = i \<or> (q, i, RequestVoteResp (a_term s i) True) \<in> a_msgs s"
  shows "\<forall>q \<in> Q. \<exists>vl. g_vote s (q, a_term s i) = Some (i, vl)"
proof
  fix q assume "q \<in> Q"
  moreover have "g_vote s (i, a_term s i) = Some (i, a_log s i)"
    using V4D[OF inv(1) V5D[OF inv(2) assms(4)]] by simp
  ultimately show "\<exists>vl. g_vote s (q, a_term s i) = Some (i, vl)"
    using votes M2D[OF inv(3), of q i "a_term s i"] by auto
qed

lemma fresh_leader:
  assumes inv: "V4 s" "V5 s" "M2 s" "L1 Qm s" "L3 s"
    and "a_role s i = Candidate" "Qm Q"
    and votes: "\<forall>q \<in> Q. q = i \<or> (q, i, RequestVoteResp (a_term s i) True) \<in> a_msgs s"
  shows "g_lead s (a_term s i) = None"
proof (rule ccontr)
  assume "g_lead s (a_term s i) \<noteq> None"
  then obtain l L where l: "g_lead s (a_term s i) = Some (l, L)" by auto
  then obtain Q' where Q': "Qm Q'" "\<forall>q \<in> Q'. \<exists>vl. g_vote s (q, a_term s i) = Some (l, vl)"
    using L1D[OF inv(4) l] by blast
  obtain q where q: "q \<in> Q" "q \<in> Q'" using quorum_inter assms(7) Q'(1) by blast
  have "\<exists>vl. g_vote s (q, a_term s i) = Some (i, vl)"
    using ballots[OF inv(1-3) assms(6) votes] q(1) by blast
  then have "l = i" using Q'(2) q(2) by fastforce
  then show False using L3D[OF inv(5) l] assms(6) by simp
qed

lemma ext_step:
  assumes "astep Qm s s'" "V1 s" "V2 s" "V4 s" "V5 s" "M2 s" "L1 Qm s" "L2 s" "L3 s"
  shows "ext s s'"
  using assms(1)
proof cases
  case (Campaign i)
  have "g_cand s (a_term s i + 1, i) = None"
    using V4D[OF assms(4), of "a_term s i + 1" i] by (cases "g_cand s (a_term s i + 1, i)") auto
  moreover have "g_vote s (i, a_term s i + 1) = None" using V2D[OF assms(3)] by simp
  ultimately show ?thesis using Campaign by (auto simp: ext_def map_le_def)
next
  case (BecomeLeader i Q L)
  then have "g_lead s (a_term s i) = None"
    using fresh_leader[OF assms(4-7,9)] by blast
  then show ?thesis using BecomeLeader by (auto simp: ext_def intro: lead_ext_upd)
next
  case (Propose i e)
  then have "g_lead s (a_term s i) = Some (i, a_log s i)" using L2D[OF assms(8)] by blast
  then show ?thesis using Propose by (auto simp: ext_def intro!: lead_ext_upd)
next
  case (Grant c i lli llt)
  then show ?thesis using V1D[OF assms(2), of i] by (auto simp: ext_def map_le_def)
qed (auto simp: ext_def)

lemma L2_step:
  assumes "astep Qm s s'" "V4 s" "V5 s" "M2 s" "L1 Qm s" "L2 s" "L3 s"
  shows "L2 s'"
  using assms(1)
proof cases
  case (BecomeLeader i Q L)
  then have "g_lead s (a_term s i) = None"
    using fresh_leader[OF assms(2-5,7)] by blast
  then show ?thesis using BecomeLeader assms(6) by (auto simp: L2_def)
next
  case (Propose i e)
  then have "g_lead s (a_term s i) = Some (i, a_log s i)" using L2D[OF assms(6)] by blast
  then have "j = i" if "a_role s j = Leader" "a_term s j = a_term s i" for j
    using L2D[OF assms(6) that(1)] that(2) by simp
  then show ?thesis using Propose L2D[OF assms(6)] by (auto simp: L2_def)
qed (use assms(6) in \<open>auto simp: L2_def\<close>)

lemma L3_step:
  assumes "astep Qm s s'" "L1 Qm s" "L2 s" "L3 s"
  shows "L3 s'"
  using assms(1)
proof cases
  case (Campaign i)
  then show ?thesis using L1D[OF assms(2)] L3D[OF assms(4)] by (fastforce simp: L3_def)
next
  case (Follow i t)
  then show ?thesis using L3D[OF assms(4)] by (auto simp: L3_def)
next
  case (BecomeLeader i Q L)
  then show ?thesis using L3D[OF assms(4)] by (auto simp: L3_def)
next
  case (Propose i e)
  then show ?thesis using L3D[OF assms(4)] by (auto simp: L3_def)
qed (use L3D[OF assms(4)] in \<open>auto simp: L3_def\<close>)

lemma L1_keep:
  assumes "ext s s'" "L1 Qm s" "g_lead s t = Some (l, L0)" "L = L0 @ r0" "\<forall>e \<in> set r0. entry_term e = t"
  shows "t \<le> a_term s' l \<and>
     (\<exists>cl Q r. g_cand s' (t, l) = Some cl \<and> Qm Q \<and> (\<forall>q \<in> Q. \<exists>vl. g_vote s' (q, t) = Some (l, vl)) \<and>
        L = cl @ r \<and> r \<noteq> [] \<and> (\<forall>e \<in> set r. entry_term e = t))"
proof -
  obtain cl Q r where 1: "t \<le> a_term s l" "g_cand s (t, l) = Some cl" "Qm Q"
    "\<forall>q \<in> Q. \<exists>vl. g_vote s (q, t) = Some (l, vl)" "L0 = cl @ r" "r \<noteq> []" "\<forall>e \<in> set r. entry_term e = t"
    using L1D[OF assms(2,3)] by blast
  have "t \<le> a_term s' l" using 1(1) extD(5)[OF assms(1), of l] by simp
  moreover have "L = cl @ (r @ r0)" "\<forall>e \<in> set (r @ r0). entry_term e = t"
    using 1 assms(4,5) by auto
  ultimately show ?thesis
    using 1 ext_candD[OF assms(1) 1(2)] ext_voteD[OF assms(1)] by blast
qed

lemma L1_step:
  assumes "astep Qm s s'" "V4 s" "V5 s" "M2 s" "L1 Qm s" "L2 s" "ext s s'"
  shows "L1 Qm s'"
  unfolding L1_def
proof (intro allI impI)
  fix t l L
  assume new: "g_lead s' t = Some (l, L)"
  show "t \<le> a_term s' l \<and>
     (\<exists>cl Q r. g_cand s' (t, l) = Some cl \<and> Qm Q \<and> (\<forall>q \<in> Q. \<exists>vl. g_vote s' (q, t) = Some (l, vl)) \<and>
        L = cl @ r \<and> r \<noteq> [] \<and> (\<forall>e \<in> set r. entry_term e = t))"
  proof (cases "g_lead s t = Some (l, L)")
    case True
    then show ?thesis using L1_keep[OF assms(7,5), where ?r0.0 = "[]"] by simp
  next
    case False
    show ?thesis using assms(1)
    proof cases
      case (BecomeLeader i Q L')
      then have e: "t = a_term s i" "l = i" "L = L'" using new False by (auto split: if_splits)
      have c: "g_cand s (a_term s i, i) = Some (a_log s i)" using V5D[OF assms(3)] BecomeLeader by blast
      have "\<forall>q \<in> Q. \<exists>vl. g_vote s (q, a_term s i) = Some (i, vl)"
        using ballots[OF assms(2-4)] BecomeLeader by blast
      then show ?thesis using BecomeLeader c unfolding e by (auto simp: noop_entry_def)
    next
      case (Propose i e)
      then have e: "t = a_term s i" "l = i" "L = a_log s i @ [e]" using new False by (auto split: if_splits)
      have "g_lead s t = Some (l, a_log s i)" using L2D[OF assms(6)] Propose e by simp
      then show ?thesis using L1_keep[OF assms(7,5) _ e(3)] Propose e by simp
    qed (use new False in auto)
  qed
qed

lemma lead_change:
  assumes "astep Qm s s'" "L2 s" "g_lead s' t = Some (l, L)"
  obtains "g_lead s t = Some (l, L)"
  | e where "entry_term e = t" "entry_index e = length (a_log s l) + 1" "L = a_log s l @ [e]" "t = a_term s l"
      "a_log s' l = L"
  using assms(1)
proof cases
  case (BecomeLeader i Q L')
  then show ?thesis
    using assms(3) that(1) that(2)[of "noop_entry (a_term s i) (length (a_log s i) + 1)"]
    by (auto simp: noop_entry_def split: if_splits)
next
  case (Propose i e)
  then show ?thesis using assms(3) that by (auto split: if_splits)
qed (use assms(3) that in auto)

lemma C2_step:
  assumes "astep Qm s s'" "L2 s" "C1 s" "C2 s" "ext s s'"
  shows "C2 s'"
  unfolding C2_def
proof (intro allI impI)
  fix t l L assume new: "g_lead s' t = Some (l, L)"
  note mono = conf_mono[OF extD(1)[OF assms(5)]]
  from assms(1,2) new show "conf (g_lead s') L"
  proof (rule lead_change)
    assume "g_lead s t = Some (l, L)"
    then show ?thesis using C2D[OF assms(4)] mono by blast
  next
    fix e assume "entry_term e = t" "L = a_log s l @ [e]"
    then show ?thesis using conf_snoc[OF mono[OF C1D[OF assms(3)]]] new by blast
  qed
qed

lemma accepted_log:
  assumes "(l, i, AppendEntries t prev pt es lc) \<in> a_msgs s" "matches_at (a_log s i) prev pt"
    "C1 s" "C2 s" "M3 Qm s"
  obtains L where "g_lead s t = Some (l, L)" "prev + length es \<le> length L"
    "take prev (a_log s i) = take prev L" "take prev L @ es = take (prev + length es) L"
    "merge_log (a_log s i) prev es = a_log s i \<and>
       take (prev + length es) (a_log s i) = take (prev + length es) L \<or>
     merge_log (a_log s i) prev es = take (prev + length es) L \<and>
       take (prev + length es) (a_log s i) \<noteq> take (prev + length es) L"
proof -
  obtain L where L: "g_lead s t = Some (l, L)" "prev + length es \<le> length L"
    "es = take (length es) (drop prev L)" "pt = term_of L prev"
    using M3D[OF assms(5,1)] by blast
  have "take prev (a_log s i) = take prev L"
    using matches_prefix[OF C1D[OF assms(3)] C2D[OF assms(4) L(1)] assms(2) L(4)] L(2) by simp
  moreover have "take prev L @ es = take (prev + length es) L"
    using L(3) by (simp add: take_add)
  ultimately show ?thesis
    using that[OF L(1,2)] merge_log_eq[of prev "a_log s i" L es] L(2,3) assms(2) by (simp add: matches_at_def)
qed

lemma C1_step:
  assumes "astep Qm s s'" "C1 s" "C2 s" "M3 Qm s" "ext s s'"
  shows "C1 s'"
  unfolding C1_def
proof
  fix j
  note mono = conf_mono[OF extD(1)[OF assms(5)]]
  show "conf (g_lead s') (a_log s' j)"
    using assms(1)
  proof cases
    case (BecomeLeader i Q L)
    then show ?thesis using mono[OF C1D[OF assms(2)]] by (auto simp: noop_entry_def intro!: conf_snoc)
  next
    case (Propose i e)
    then show ?thesis using mono[OF C1D[OF assms(2)]] by (auto intro!: conf_snoc)
  next
    case (Accept l i prev pt es lc)
    from Accept(2,4) assms(2,3,4) obtain L where L: "g_lead s (a_term s i) = Some (l, L)"
      "merge_log (a_log s i) prev es = a_log s i \<or> merge_log (a_log s i) prev es = take (prev + length es) L"
      by (rule accepted_log) blast
    then have "conf (g_lead s) (merge_log (a_log s i) prev es)"
      using C1D[OF assms(2)] conf_take[OF C2D[OF assms(3) L(1)]] by auto
    then show ?thesis using Accept C1D[OF assms(2)] by auto
  qed (use mono[OF C1D[OF assms(2)]] in auto)
qed

lemma C3_step:
  assumes "astep Qm s s'" "C1 s" "C3 s" "ext s s'"
  shows "C3 s'"
  using assms(1)
proof cases
  case (Campaign i)
  then show ?thesis using C1D[OF assms(2)] C3D[OF assms(3)] by (auto simp: C3_def)
qed (use conf_mono[OF extD(1)[OF assms(4)]] C3D[OF assms(3)] in \<open>auto simp: C3_def\<close>)

lemma C4_step:
  assumes "astep Qm s s'" "C1 s" "C4 s" "ext s s'"
  shows "C4 s'"
  using assms(1)
proof cases
  case (Campaign i)
  then show ?thesis using C1D[OF assms(2)] C4D[OF assms(3)] by (auto simp: C4_def)
next
  case (Grant c i lli llt)
  then show ?thesis using C1D[OF assms(2)] C4D[OF assms(3)] by (auto simp: C4_def split: if_splits)
qed (use conf_mono[OF extD(1)[OF assms(4)]] C4D[OF assms(3)] in \<open>auto simp: C4_def\<close>)

end

section \<open>Leader completeness and the invariant's preservation\<close>

lemma take_prefix_eq: "take m xs = take m ys \<Longrightarrow> n \<le> m \<Longrightarrow> take n xs = take n ys"
  by (drule arg_cong[of _ _ "take n"]) (simp add: min_absorb1)

lemma take_eq_length: "take n xs = take n ys \<Longrightarrow> n \<le> length ys \<Longrightarrow> n \<le> length xs"
  by (drule arg_cong[of _ _ length]) (simp add: min_def split: if_splits)

context quorums
begin

lemma lead_terms:
  assumes "g_lead s t = Some (l, L)" "V4 s" "L1 Qm s" "e \<in> set L"
  shows "entry_term e \<le> t"
proof -
  obtain cl r where "g_cand s (t, l) = Some cl" "L = cl @ r" "\<forall>e \<in> set r. entry_term e = t"
    using L1D[OF assms(3,1)] by blast
  then show ?thesis using V4D[OF assms(2)] assms(4) by fastforce
qed

lemma S1_step:
  assumes "astep Qm s s'" "S1 s" "V4 s" "L1 Qm s" "C1 s" "C2 s" "M3 Qm s"
  shows "S1 s'"
  using assms(1)
proof cases
  case (Campaign i)
  then show ?thesis using S1D[OF assms(2)] by (fastforce simp: S1_def)
next
  case (Follow i t)
  then show ?thesis using S1D[OF assms(2)] by (fastforce simp: S1_def)
next
  case (Accept l i prev pt es lc)
  from Accept(2,4) assms(5-7) obtain L where L: "g_lead s (a_term s i) = Some (l, L)"
    "merge_log (a_log s i) prev es = a_log s i \<or> merge_log (a_log s i) prev es = take (prev + length es) L"
    by (rule accepted_log) blast
  then have "\<forall>e \<in> set (merge_log (a_log s i) prev es). entry_term e \<le> a_term s i"
    using S1D[OF assms(2)] lead_terms[OF L(1) assms(3,4)] set_take_subset[of "prev + length es" L] by auto
  then show ?thesis using Accept S1D[OF assms(2)] by (auto simp: S1_def)
qed (use S1D[OF assms(2)] in \<open>auto simp: S1_def noop_entry_def\<close>)

lemma sorted_indexed:
  assumes "conf (g_lead s) lg" "S2 s"
  shows "sorted (map entry_term lg) \<and> (\<forall>k < length lg. entry_index (lg ! k) = k + 1)"
proof (cases "lg = []")
  case False
  obtain p L where L: "g_lead s (last_tm lg) = Some (p, L)" "length lg \<le> length L" "lg = take (length lg) L"
    using conf_last[OF assms(1) False] by blast
  have "sorted (map entry_term (take (length lg) L))"
    using S2D[OF assms(2) L(1)] by (simp add: take_map[symmetric] sorted_wrt_take)
  moreover have "\<forall>k < length lg. entry_index (take (length lg) L ! k) = k + 1"
    using S2D[OF assms(2) L(1)] L(2) by simp
  ultimately show ?thesis using L(3) by simp
qed simp

lemma S2_step:
  assumes "astep Qm s s'" "L2 s" "C1 s" "S1 s" "S2 s"
  shows "S2 s'"
  unfolding S2_def
proof (intro allI impI)
  fix t l L assume new: "g_lead s' t = Some (l, L)"
  from assms(1,2) new show "sorted (map entry_term L) \<and> (\<forall>k < length L. entry_index (L ! k) = k + 1)"
  proof (rule lead_change)
    assume "g_lead s t = Some (l, L)"
    then show ?thesis using S2D[OF assms(5)] by blast
  next
    fix e assume "entry_term e = t" "entry_index e = length (a_log s l) + 1" "L = a_log s l @ [e]" "t = a_term s l"
    then show ?thesis
      using sorted_indexed[OF C1D[OF assms(3)] assms(5), of l] S1D[OF assms(4)]
      by (auto simp: sorted_append nth_append less_Suc_eq)
  qed
qed

lemma cev_length: "cev Qm s T lg c \<Longrightarrow> c \<le> length lg"
  by (auto simp: cev_def)

lemma M3_mono:
  assumes "ext s s'" "M3 Qm s" "(l, j, AppendEntries t prev pt es lc) \<in> a_msgs s"
  shows "\<exists>L. g_lead s' t = Some (l, L) \<and> prev + length es \<le> length L \<and>
        es = take (length es) (drop prev L) \<and> pt = term_of L prev \<and>
        lc \<le> prev + length es \<and> (es \<noteq> [] \<longrightarrow> entry_term (last es) = t) \<and> cev Qm s' t L lc"
proof -
  obtain L where L: "g_lead s t = Some (l, L)" "prev + length es \<le> length L"
        "es = take (length es) (drop prev L)" "pt = term_of L prev"
        "lc \<le> prev + length es" "es \<noteq> [] \<longrightarrow> entry_term (last es) = t" "cev Qm s t L lc"
    using M3D[OF assms(2,3)] by blast
  obtain r where r: "g_lead s' t = Some (l, L @ r)"
    using lead_extD[OF extD(1)[OF assms(1)] L(1)] by blast
  have "es = take (length es) (drop prev (L @ r))" using L(2,3) by simp
  moreover have "pt = term_of (L @ r) prev" using L(2,4) by (auto simp: term_of_def nth_append)
  moreover have "cev Qm s' t (L @ r) lc"
    by (rule cev_mono[OF assms(1) L(7)]) (use L in simp_all)
  ultimately show ?thesis using r L(2,5,6) by auto
qed

lemma M3_step:
  assumes "astep Qm s s'" "L1 Qm s" "L2 s" "M3 Qm s" "K1 Qm s" "ext s s'"
  shows "M3 Qm s'"
  unfolding M3_def
proof (intro allI impI)
  fix l j t prev pt es lc
  assume new: "(l, j, AppendEntries t prev pt es lc) \<in> a_msgs s'"
  show "\<exists>L. g_lead s' t = Some (l, L) \<and> prev + length es \<le> length L \<and>
        es = take (length es) (drop prev L) \<and> pt = term_of L prev \<and>
        lc \<le> prev + length es \<and> (es \<noteq> [] \<longrightarrow> entry_term (last es) = t) \<and> cev Qm s' t L lc"
  proof (cases "(l, j, AppendEntries t prev pt es lc) \<in> a_msgs s")
    case True
    then show ?thesis by (rule M3_mono[OF assms(6,4)])
  next
    case False
    show ?thesis using assms(1)
    proof cases
      case (SendAE i prev' j')
      then have e: "l = i" "t = a_term s i" "prev = prev'" "pt = term_of (a_log s i) prev"
        "es = drop prev (a_log s i)" "lc = a_commit s i"
        using new False by auto
      have L: "g_lead s t = Some (l, a_log s i)" using L2D[OF assms(3)] SendAE e by simp
      obtain cl r where r: "a_log s i = cl @ r" "r \<noteq> []" "\<forall>e \<in> set r. entry_term e = t"
        using L1D[OF assms(2) L] by blast
      have "cev Qm s' t (a_log s i) lc"
        unfolding e(6)
        by (rule cev_mono[OF assms(6) K1D[OF assms(5), of i]])
          (use e cev_length[OF K1D[OF assms(5), of i]] in simp_all)
      moreover have "es \<noteq> [] \<longrightarrow> entry_term (last es) = t"
        using r e(5) by (auto simp: last_drop)
      ultimately show ?thesis
        using SendAE L e cev_length[OF K1D[OF assms(5), of i]] by auto
    qed (use new False in auto)
  qed
qed

lemma M4_step:
  assumes "astep Qm s s'" "C1 s" "C2 s" "M3 Qm s" "M4 s" "ext s s'"
  shows "M4 s'"
  unfolding M4_def
proof (intro allI impI)
  fix q l t m
  assume new: "(q, l, AppendEntriesResp t True m) \<in> a_msgs s'"
  have "t \<le> a_term s q \<and> (\<exists>L. g_lead s t = Some (l, L) \<and> m \<le> length L)"
  proof (cases "(q, l, AppendEntriesResp t True m) \<in> a_msgs s")
    case True
    then show ?thesis by (rule M4D[OF assms(5)])
  next
    case False
    show ?thesis using assms(1)
    proof cases
      case (Accept l' i prev pt es lc)
      then show ?thesis using M3D[OF assms(4) Accept(2)] new False by auto
    qed (use new False in auto)
  qed
  then show "t \<le> a_term s' q \<and> (\<exists>L. g_lead s' t = Some (l, L) \<and> m \<le> length L)"
    using lead_extD[OF extD(1)[OF assms(6)]] extD(5)[OF assms(6), of q] by (fastforce dest: le_trans)
qed

lemma acked_term: "acked s q t m \<Longrightarrow> L1 Qm s \<Longrightarrow> M4 s \<Longrightarrow> t \<le> a_term s q"
  unfolding acked_def using L1D M4D by blast

lemma acked_new:
  assumes "astep Qm s s'" "V4 s" "V5 s" "M2 s" "L1 Qm s" "L2 s" "L3 s" "C1 s" "C2 s" "M3 Qm s" "M4 s"
    and ack: "acked s' q t m" "g_lead s' t = Some (l, L)"
  shows "acked s q t m \<or> (t = a_term s q \<and> take m (a_log s' q) = take m L)"
  using assms(1)
proof cases
  case (BecomeLeader i Q L0)
  then have "g_lead s (a_term s i) = None" using fresh_leader[OF assms(2-5,7)] by blast
  then show ?thesis
    using BecomeLeader ack M4D[OF assms(11)] by (fastforce simp: acked_def split: if_splits)
next
  case (Propose i e)
  then have "g_lead s (a_term s i) = Some (i, a_log s i)" using L2D[OF assms(6)] by blast
  then show ?thesis
    using Propose ack M4D[OF assms(11)] by (fastforce simp: acked_def split: if_splits)
next
  case (Accept l' i prev pt es lc)
  from Accept(2,4) assms(8-10) obtain L' where L: "g_lead s (a_term s i) = Some (l', L')"
    "take (prev + length es) (merge_log (a_log s i) prev es) = take (prev + length es) L'"
    by (rule accepted_log) fastforce
  have "take m (merge_log (a_log s i) prev es) = take m L'" if "m \<le> prev + length es"
    using arg_cong[OF L(2), of "take m"] that by (simp add: min_absorb1)
  then show ?thesis using Accept ack L(1) by (auto simp: acked_def)
qed (use ack in \<open>auto simp: acked_def\<close>)

lemma acked_lead:
  assumes "acked s q t m" "ext s s'" "g_lead s' t = Some (l, L)"
  obtains L0 where "g_lead s t = Some (l, L0)" "take m L = take m L0" "m \<le> length L0"
proof -
  obtain l0 L0 where 1: "g_lead s t = Some (l0, L0)" "m \<le> length L0"
    using assms(1) by (auto simp: acked_def)
  then show ?thesis using that lead_extD[OF extD(1)[OF assms(2)] 1(1)] assms(3) by auto
qed

lemma vote_change:
  assumes "astep Qm s s'" "g_vote s' (q, t) = Some (c, vl)" "g_vote s (q, t) \<noteq> Some (c, vl)"
  shows "vl = a_log s q \<and> g_lead s' = g_lead s \<and> (\<forall>q t m. acked s' q t m = acked s q t m)"
  using assms by (cases) (auto simp: acked_def split: if_splits)

lemma A2_step:
  assumes "astep Qm s s'" "V2 s" "A1 s" "A2 s" "ext s s'"
    and new: "\<And>q t m l L. acked s' q t m \<Longrightarrow> g_lead s' t = Some (l, L) \<Longrightarrow>
       acked s q t m \<or> (t = a_term s q \<and> take m (a_log s' q) = take m L)"
  shows "A2 s'"
  unfolding A2_def
proof (intro allI impI)
  fix q t m l L t' c vl
  assume ack: "acked s' q t m" "g_lead s' t = Some (l, L)" and v: "t < t'" "g_vote s' (q, t') = Some (c, vl)"
  show "take m vl = take m L \<or> t < last_tm vl"
  proof (cases "g_vote s (q, t') = Some (c, vl)")
    case True
    then have "acked s q t m" using new[OF ack] V2D[OF assms(2), of q t'] v(1) by auto
    then obtain L0 where "g_lead s t = Some (l, L0)" "take m L = take m L0"
      using acked_lead[OF _ assms(5) ack(2)] by blast
    then show ?thesis using A2D[OF assms(4) \<open>acked s q t m\<close> _ v(1) True] by simp
  next
    case False
    then show ?thesis using vote_change[OF assms(1) v(2)] ack A1D[OF assms(3)] by auto
  qed
qed

lemma log_change:
  assumes "astep Qm s s'" "a_log s' q \<noteq> a_log s q" "V4 s" "V5 s" "M2 s" "L1 Qm s" "L2 s" "L3 s"
    and "C1 s" "C2 s" "M3 Qm s"
  obtains (append) e where "a_log s' q = a_log s q @ [e]" "entry_term e = a_term s q"
      "\<And>l L. g_lead s (a_term s q) = Some (l, L) \<Longrightarrow> L = a_log s q"
  | (accept) l L n where "g_lead s (a_term s q) = Some (l, L)" "g_lead s' = g_lead s" "n \<le> length L"
      "take n (a_log s q) \<noteq> take n L" "a_log s' q = take n L" "last_tm (take n L) = a_term s q"
  using assms(1)
proof cases
  case (BecomeLeader i Q L)
  then have q: "q = i" using assms(2) by (auto split: if_splits)
  then have "g_lead s (a_term s q) = None" using fresh_leader[OF assms(3-6,8) BecomeLeader(2-4)] by simp
  then show ?thesis
    by (intro append[of "noop_entry (a_term s i) (length (a_log s i) + 1)"])
      (use BecomeLeader q in \<open>simp_all add: noop_entry_def\<close>)
next
  case (Propose i e)
  then have q: "q = i" using assms(2) by (auto split: if_splits)
  then show ?thesis
    by (intro append[of e]) (use Propose L2D[OF assms(7), of i] in simp_all)
next
  case (Accept l i prev pt es lc)
  then have q: "q = i" using assms(2) by (auto split: if_splits)
  from Accept(2,4) assms(9-11) show ?thesis
  proof (rule accepted_log)
    fix L assume L: "g_lead s (a_term s i) = Some (l, L)" "prev + length es \<le> length L"
      "take prev (a_log s i) = take prev L" "take prev L @ es = take (prev + length es) L"
      "merge_log (a_log s i) prev es = a_log s i \<and>
         take (prev + length es) (a_log s i) = take (prev + length es) L \<or>
       merge_log (a_log s i) prev es = take (prev + length es) L \<and>
         take (prev + length es) (a_log s i) \<noteq> take (prev + length es) L"
    then have m: "merge_log (a_log s i) prev es = take (prev + length es) L"
      "take (prev + length es) (a_log s i) \<noteq> take (prev + length es) L"
      using assms(2) Accept q by auto
    then have "es \<noteq> []" using L(3) by auto
    then have "last_tm (take (prev + length es) L) = a_term s i"
      using M3D[OF assms(11) Accept(2)] L(4)[symmetric] by (auto simp: last_tm_def)
    then show ?thesis using accept[of l L "prev + length es"] L m Accept q by simp
  qed
qed (use assms(2) in auto)

lemma last_tm_le: "S1 s \<Longrightarrow> last_tm (a_log s q) \<le> a_term s q"
  by (auto simp: last_tm_def intro: S1D)

lemma A1_step:
  assumes "astep Qm s s'" "V4 s" "V5 s" "M2 s" "L1 Qm s" "L2 s" "L3 s" "C1 s" "C2 s" "S1 s" "M3 Qm s" "M4 s"
    and "A1 s" "ext s s'"
  shows "A1 s'"
  unfolding A1_def
proof (intro allI impI)
  fix q t m l L
  assume ack: "acked s' q t m" "g_lead s' t = Some (l, L)"
  consider "acked s q t m" | "take m (a_log s' q) = take m L"
    using acked_new[OF assms(1-9,11,12) ack] by blast
  then show "take m (a_log s' q) = take m L \<or> t < last_tm (a_log s' q)"
  proof cases
    case 1
    obtain L0 where L0: "g_lead s t = Some (l, L0)" "take m L = take m L0" "m \<le> length L0"
      using acked_lead[OF 1 assms(14) ack(2)] .
    note old = A1D[OF assms(13) 1 L0(1)]
    have le: "t \<le> a_term s q" by (rule acked_term[OF 1 assms(5,12)])
    show ?thesis
    proof (cases "a_log s' q = a_log s q")
      case False
      from assms(1) False assms(2-9,11) show ?thesis
      proof (cases rule: log_change)
        case (append e)
        show ?thesis
        proof (cases "t = a_term s q")
          case True
          then have "L0 = a_log s q" using append(3) L0(1) by simp
          then show ?thesis using append(1) L0(2,3) by simp
        next
          case False
          then show ?thesis using append le by (simp add: last_tm_def)
        qed
      next
        case (accept l' L' n)
        show ?thesis
        proof (cases "t = a_term s q")
          case True
          then have "take m (a_log s q) = take m L'" using old last_tm_le[OF assms(10), of q] accept(1) L0 by auto
          then have "m \<le> n" using accept(4) take_prefix_eq[of m _ L' n] by fastforce
          then show ?thesis using accept True L0 by (simp add: min_absorb1)
        next
          case False
          then show ?thesis using accept le by simp
        qed
      qed
    qed (use old L0 in auto)
  qed simp
qed

lemma vote_covers:
  assumes "conf (g_lead s) vl" "S2 s" "take m vl = take m L" "0 < m" "m \<le> length L"
  shows "m \<le> length vl" "term_of L m \<le> last_tm vl"
proof -
  show len: "m \<le> length vl" using arg_cong[OF assms(3), of length] assms(5) by simp
  have "L ! (m - 1) = vl ! (m - 1)"
    using nth_take[of "m - 1" m] assms(3,4) by (metis diff_less zero_less_one)
  moreover have "entry_term (vl ! (m - 1)) \<le> entry_term (vl ! (length vl - 1))"
    using sorted_indexed[OF assms(1,2)] len assms(4)
      sorted_nth_mono[of "map entry_term vl" "m - 1" "length vl - 1"] by auto
  ultimately show "term_of L m \<le> last_tm vl"
    using assms(4) len by (auto simp: last_tm_def term_of_def last_conv_nth)
qed

lemma same_term_covers:
  assumes "conf (g_lead s) cl" "cl \<noteq> []" "g_lead s (last_tm cl) = Some (l, L)" "m \<le> length cl"
  shows "take m cl = take m L"
proof -
  have "cl = take (length cl) L" using conf_last[OF assms(1,2)] assms(3) by auto
  then show ?thesis using assms(4) by (metis min.absorb1 take_take)
qed

lemma later_term_covers:
  assumes "conf (g_lead s) cl" "V4 s" "L1 Qm s" "g_lead s t = Some (l, L)" "t < last_tm cl"
    and "g_lead s (last_tm cl) = Some (p, Lc)" "take m Lc = take m L"
  shows "m \<le> length cl \<and> take m cl = take m L"
proof -
  have ne: "cl \<noteq> []" using assms(5) by (auto simp: last_tm_def)
  have cl: "cl = take (length cl) Lc" using conf_last[OF assms(1) ne] assms(6) by auto
  have "m \<le> length cl"
  proof (rule ccontr)
    assume "\<not> m \<le> length cl"
    then have "cl = take (length cl) L" using take_prefix_eq[OF assms(7), of "length cl"] cl by simp
    then have "last cl \<in> set L" using ne by (metis in_set_takeD last_in_set)
    then show False using lead_terms[OF assms(4,2,3), of "last cl"] assms(5) ne by (simp add: last_tm_def)
  qed
  then show ?thesis using same_term_covers[OF assms(1) ne assms(6)] assms(7) by simp
qed

lemma completeness_step:
  assumes inv: "V3 s" "V4 s" "L1 Qm s" "C3 s" "C4 s" "S2 s" "A2 s"
    and c: "committed Qm s t m" "g_lead s t = Some (l, L)" "t < t'" "g_lead s t' = Some (l', L')"
    and IH: "\<And>t2 l2 L2. t < t2 \<Longrightarrow> t2 < t' \<Longrightarrow> g_lead s t2 = Some (l2, L2) \<Longrightarrow> take m L2 = take m L"
  shows "take m L' = take m L"
proof -
  obtain Q where Q: "Qm Q" "\<forall>q \<in> Q. acked s q t m" and m: "0 < m" "m \<le> length L" "term_of L m = t"
    using c(1,2) by (auto simp: committed_def)
  obtain cl Q' r where L': "g_cand s (t', l') = Some cl" "Qm Q'"
      "\<forall>q \<in> Q'. \<exists>vl. g_vote s (q, t') = Some (l', vl)" "L' = cl @ r"
    using L1D[OF inv(3) c(4)] by blast
  obtain q vl where q: "acked s q t m" "g_vote s (q, t') = Some (l', vl)"
    using quorum_inter[OF Q(1) L'(2)] Q(2) L'(3) by blast
  have up: "up_to_date cl vl" using V3D[OF inv(1) q(2)] L'(1) by auto
  have cl: "conf (g_lead s) cl" "\<forall>e \<in> set cl. entry_term e < t'"
    using C3D[OF inv(4) L'(1)] V4D[OF inv(2) L'(1)] by auto
  have "m \<le> length cl \<and> take m cl = take m L"
  proof (cases "last_tm cl \<le> t")
    case True
    then have "take m vl = take m L"
      using A2D[OF inv(7) q(1) c(2,3) q(2)] up by (auto simp: up_to_date_def)
    then have vl: "m \<le> length vl" "t \<le> last_tm vl"
      using vote_covers[OF C4D[OF inv(5) q(2)] inv(6) _ m(1,2)] m(3) by auto
    then have eq: "last_tm cl = t" "m \<le> length cl" using True up by (auto simp: up_to_date_def)
    then show ?thesis using same_term_covers[OF cl(1) _ _ eq(2)] c(2) m(1) by fastforce
  next
    case False
    then have ne: "cl \<noteq> []" by (auto simp: last_tm_def)
    obtain p Lc where Lc: "g_lead s (last_tm cl) = Some (p, Lc)" using conf_last[OF cl(1) ne] by blast
    have "last_tm cl < t'" using cl(2) ne by (simp add: last_tm_def)
    then show ?thesis using later_term_covers[OF cl(1) inv(2,3) c(2) _ Lc] IH[OF _ _ Lc] False by simp
  qed
  then show ?thesis using L'(4) by simp
qed

lemma completeness:
  assumes inv: "V3 s" "V4 s" "L1 Qm s" "C3 s" "C4 s" "S2 s" "A2 s"
    and c: "committed Qm s t m" "g_lead s t = Some (l, L)" 
  shows "t \<le> t' \<Longrightarrow> g_lead s t' = Some (l', L') \<Longrightarrow> take m L' = take m L"
proof (induction t' arbitrary: l' L' rule: less_induct)
  case (less t')
  then show ?case
    using completeness_step[OF inv c _ less.prems(2)] c(2) by (cases "t = t'") auto
qed

lemma cev_lead:
  assumes inv: "V3 s" "V4 s" "L1 Qm s" "C3 s" "C4 s" "S2 s" "A2 s"
    and "cev Qm s T lg c" "g_lead s T' = Some (l, L)" "T \<le> T'"
  shows "take c lg = take c L"
proof (cases "c = 0")
  case False
  then obtain t m l0 L0 where 1: "t \<le> T" "committed Qm s t m" "g_lead s t = Some (l0, L0)" "c \<le> m"
    "take c lg = take c L0"
    using assms(8) by (auto simp: cev_def)
  have "take m L = take m L0"
    using completeness[OF inv 1(2,3) _ assms(9)] 1(1) assms(10) by simp
  then show ?thesis using take_prefix_eq[OF _ 1(4)] 1(5) by metis
qed simp

lemma kept_prefix:
  assumes "raft_inv Qm s" "astep Qm s s'"
  shows "a_commit s i \<le> length (a_log s' i) \<and> take (a_commit s i) (a_log s' i) = take (a_commit s i) (a_log s i)"
proof (cases "a_log s' i = a_log s i")
  case False
  note I = raft_invD[OF assms(1)]
  from assms(2) False I(4,5,7-12,17) show ?thesis
  proof (cases rule: log_change)
    case (append e)
    then show ?thesis using cev_length[OF K1D[OF I(21), of i]] by simp
  next
    case (accept l L n)
    have eq: "take (a_commit s i) (a_log s i) = take (a_commit s i) L"
      by (rule cev_lead[OF I(3,4,8,13,14,16,20) K1D[OF I(21)] accept(1)]) simp
    then have "a_commit s i \<le> n" using take_prefix_eq[OF eq, of n] accept(4) by fastforce
    then show ?thesis using eq accept(3,5) by (simp add: min_absorb1)
  qed
qed (use cev_length[OF K1D[OF raft_invD(21)[OF assms(1)], of i]] in simp)

lemma K1_step:
  assumes inv: "raft_inv Qm s" and "astep Qm s s'" "ext s s'"
  shows "K1 Qm s'"
  unfolding K1_def
proof
  fix i
  note I = raft_invD[OF inv]
  show "cev Qm s' (a_term s' i) (a_log s' i) (a_commit s' i)"
  proof (cases "a_commit s' i = a_commit s i")
    case True
    then show ?thesis
      using cev_mono[OF assms(3) K1D[OF I(21), of i] extD(5)[OF assms(3)]] kept_prefix[OF inv assms(2), of i] by simp
  next
    case False
    show ?thesis using assms(2)
    proof cases
      case (LearnCommit l j prev pt es lc)
      then have i: "i = j" using False by (auto split: if_splits)
      obtain L where L: "g_lead s (a_term s j) = Some (l, L)" "es = take (length es) (drop prev L)"
        "pt = term_of L prev" "prev + length es \<le> length L" "lc \<le> prev + length es" "cev Qm s (a_term s j) L lc"
        using M3D[OF I(17) LearnCommit(2)] by blast
      have "take prev (a_log s j) = take prev L"
        using matches_prefix[OF C1D[OF I(11)] C2D[OF I(12) L(1)] LearnCommit(3) L(3)] L(4) by simp
      then have eq: "take (prev + length es) (a_log s j) = take (prev + length es) L"
        using LearnCommit(4) L(2) by (simp add: take_add)
      then have "lc \<le> length (a_log s j)" using take_eq_length[OF eq L(4)] L(5) by simp
      then show ?thesis
        using cev_mono[OF assms(3) L(6), of "a_term s j" "a_log s j"] take_prefix_eq[OF eq L(5)] LearnCommit i
        by simp
    next
      case (LeaderCommit j n Q)
      then have i: "i = j" using False by (auto split: if_splits)
      have L: "g_lead s (a_term s j) = Some (j, a_log s j)" using L2D[OF I(9)] LeaderCommit by simp
      then have "committed Qm s (a_term s j) n"
        unfolding committed_def using LeaderCommit by (intro exI[of _ j] exI[of _ "a_log s j"] exI[of _ Q]) simp
      then have "cev Qm s (a_term s j) (a_log s j) n"
        unfolding cev_def using L LeaderCommit by blast
      then show ?thesis
        using cev_mono[OF assms(3), of Qm "a_term s j" "a_log s j" n "a_term s j" "a_log s j"] LeaderCommit i by simp
    qed (use False in auto)
  qed
qed

lemma raft_inv_step:
  assumes "raft_inv Qm s" "astep Qm s s'"
  shows "raft_inv Qm s'"
proof -
  note I = raft_invD[OF assms(1)]
  have e: "ext s s'" by (rule ext_step[OF assms(2) I(1,2,4,5,7,8,9,10)])
  have A2: "A2 s'"
    by (rule A2_step[OF assms(2) I(2,19,20) e]) (rule acked_new[OF assms(2) I(4,5,7-12,17,18)])
  show ?thesis
    unfolding raft_inv_def
    by (intro conjI V1_step[OF assms(2) I(1,2)] V2_step[OF assms(2) I(2)] V3_step[OF assms(2) I(3,6,4)]
        V4_step[OF assms(2) I(4,1,2,15)] V5_step[OF assms(2) I(5)] M1_step[OF assms(2) I(6,4,5)]
        M2_step[OF assms(2) I(1,2,7)] L1_step[OF assms(2) I(4,5,7-9) e] L2_step[OF assms(2) I(4,5,7-10)]
        L3_step[OF assms(2) I(8-10)] C1_step[OF assms(2) I(11,12,17) e] C2_step[OF assms(2) I(9,11,12) e]
        C3_step[OF assms(2) I(11,13) e] C4_step[OF assms(2) I(11,14) e] S1_step[OF assms(2) I(15,4,8,11,12,17)]
        S2_step[OF assms(2) I(9,11,15,16)] M3_step[OF assms(2) I(8,9,17,21) e]
        M4_step[OF assms(2) I(11,12,17,18) e] A1_step[OF assms(2) I(4,5,7-12,15,17-19) e]
        A2 K1_step[OF assms e])
qed

lemma commit_mono:
  assumes "astep Qm s s'" "K1 Qm s"
  shows "a_commit s i \<le> a_commit s' i"
  using assms(1)
proof cases
  case (LearnCommit l j prev pt es lc)
  then show ?thesis using cev_length[OF K1D[OF assms(2), of i]] by auto
qed auto

lemma areach_inv: "areach Qm s \<Longrightarrow> raft_inv Qm s"
  by (induction rule: areach.induct) (auto intro: raft_inv_init raft_inv_step)

lemma commit_stable:
  assumes "(astep Qm)\<^sup>*\<^sup>* s s'" "areach Qm s"
  shows "areach Qm s' \<and> a_commit s i \<le> a_commit s' i \<and>
    take (a_commit s i) (a_log s' i) = take (a_commit s i) (a_log s i)"
  using assms
proof (induction rule: rtranclp_induct)
  case (step u v)
  then have u: "areach Qm u" "a_commit s i \<le> a_commit u i"
    "take (a_commit s i) (a_log u i) = take (a_commit s i) (a_log s i)" by auto
  note inv = areach_inv[OF u(1)]
  have "take (a_commit s i) (a_log v i) = take (a_commit s i) (a_log u i)"
    using take_prefix_eq[OF _ u(2)] kept_prefix[OF inv step(2), of i] by blast
  then show ?case
    using u areach_step[OF u(1) step(2)] commit_mono[OF step(2) raft_invD(21)[OF inv], of i] by simp
qed simp

lemma one_leader:
  assumes "areach Qm s" "a_role s i = Leader" "a_role s j = Leader" "a_term s i = a_term s j"
  shows "i = j"
proof -
  note L2 = L2D[OF raft_invD(9)[OF areach_inv[OF assms(1)]]]
  from L2[OF assms(2)] L2[OF assms(3)] have "Some (i, a_log s i) = Some (j, a_log s j)"
    unfolding assms(4) by (rule trans[OF sym])
  then show ?thesis by blast
qed

lemma logs_match:
  assumes "areach Qm s" "k < length (a_log s i)" "k < length (a_log s j)"
    "entry_term (a_log s i ! k) = entry_term (a_log s j ! k)"
  shows "take (Suc k) (a_log s i) = take (Suc k) (a_log s j)"
  using log_matching[OF C1D C1D] raft_invD(11)[OF areach_inv[OF assms(1)]] assms(2-4) by blast

lemma leader_complete:
  assumes "areach Qm s" "a_role s l = Leader" "a_term s i \<le> a_term s l" "c \<le> a_commit s i"
  shows "c \<le> length (a_log s l) \<and> take c (a_log s l) = take c (a_log s i)"
proof -
  note I = raft_invD[OF areach_inv[OF assms(1)]]
  have c: "a_commit s i \<le> length (a_log s i)" by (rule cev_length[OF K1D[OF I(21)]])
  have eq: "take (a_commit s i) (a_log s i) = take (a_commit s i) (a_log s l)"
    by (rule cev_lead[OF I(3,4,8,13,14,16,20) K1D[OF I(21), of i] L2D[OF I(9) assms(2)] assms(3)])
  have "a_commit s i \<le> length (a_log s l)"
    by (rule take_eq_length[OF eq[symmetric] c])
  then show ?thesis using take_prefix_eq[OF eq assms(4)] assms(4) by simp
qed

lemma evidence:
  assumes "K1 Qm s" "c \<noteq> 0" "c \<le> a_commit s i"
  obtains t m l L where "committed Qm s t m" "g_lead s t = Some (l, L)" "c \<le> m"
    "take c (a_log s i) = take c L"
proof -
  obtain t m l L where 1: "committed Qm s t m" "g_lead s t = Some (l, L)" "a_commit s i \<le> m"
    "take (a_commit s i) (a_log s i) = take (a_commit s i) L"
    using K1D[OF assms(1), of i] assms(2,3) by (auto simp: cev_def)
  then show ?thesis using that[OF 1(1,2)] take_prefix_eq[OF 1(4) assms(3)] assms(3) by simp
qed

lemma commits_agree:
  assumes "areach Qm s" "c \<le> a_commit s i" "c \<le> a_commit s j"
  shows "take c (a_log s i) = take c (a_log s j)"
proof (cases "c = 0")
  case False
  note I = raft_invD[OF areach_inv[OF assms(1)]]
  note complete = completeness[OF I(3,4,8,13,14,16,20)]
  obtain t m l L where 1: "committed Qm s t m" "g_lead s t = Some (l, L)" "c \<le> m"
    "take c (a_log s i) = take c L"
    using evidence[OF I(21) False assms(2)] .
  obtain t' m' l' L' where 2: "committed Qm s t' m'" "g_lead s t' = Some (l', L')" "c \<le> m'"
    "take c (a_log s j) = take c L'"
    using evidence[OF I(21) False assms(3)] .
  have "take c L = take c L'"
  proof (cases "t \<le> t'")
    case True
    then show ?thesis using take_prefix_eq[OF complete[OF 1(1,2) True 2(2)] 1(3)] by simp
  next
    case False
    then show ?thesis using take_prefix_eq[OF complete[OF 2(1,2) _ 1(2)] 2(3)] by simp
  qed
  then show ?thesis using 1(4) 2(4) by simp
qed simp

end

section \<open>Majorities\<close>

definition is_majority :: "node_id list \<Rightarrow> node_id set \<Rightarrow> bool" where
  "is_majority ids Q \<longleftrightarrow> Q \<subseteq> set ids \<and> length ids div 2 + 1 \<le> card Q"

interpretation maj: quorums "is_majority ids" for ids
proof
  fix Q Q'
  assume Q: "is_majority ids Q" "is_majority ids Q'"
  then have fin: "finite Q" "finite Q'" by (auto simp: is_majority_def intro: finite_subset)
  have "card (Q \<union> Q') \<le> card (set ids)"
    using Q by (intro card_mono) (auto simp: is_majority_def)
  also have "\<dots> \<le> length ids" by (rule card_length)
  finally have le: "card (Q \<union> Q') \<le> length ids" .
  have "length ids < card Q + card Q'" 
    using Q div_mult_mod_eq[of "length ids" 2] unfolding is_majority_def by linarith
  then have "0 < card (Q \<inter> Q')" using card_Un_Int[OF fin] le by linarith
  then show "\<exists>q. q \<in> Q \<and> q \<in> Q'" by (metis Int_iff card_gt_0_iff ex_in_conv)
qed

end
