(* ===== verification/Raft_Refine.thy ===== *)
theory Raft_Refine
  imports Raft_Safety
begin

text \<open>
  The node of \<open>node.rs\<close> over in-memory storage implements the abstract protocol: the
  relation \<open>node_rel\<close> between a node record and the abstract state, and for every method
  the sequence of abstract steps it performs.  Each lemma also shows that the method
  succeeds, so no error path of the storage is taken.
\<close>


section \<open>The in-memory log\<close>

lemma mem_last_term_tm: "mem_last_term st = last_tm (mem_entries st)"
  by (simp add: mem_last_term_def last_tm_def)

lemma mem_term_at_eq:
  "mem_term_at st k = (if k \<le> length (mem_entries st) then Some (term_of (mem_entries st) k) else None)"
  by (auto simp: mem_term_at_def vec_get_def term_of_def)

lemma mem_append_one:
  assumes "entry_index e = length (mem_entries st) + 1" "last_tm (mem_entries st) \<le> entry_term e"
  shows "mem_append st [e] = (Inr (), st\<lparr>mem_entries := mem_entries st @ [e]\<rparr>)"
  using assms by (simp add: mem_append_def validate_suffix_def mem_last_index_def mem_last_term_tm index_next_def)

lemma last_tm_take:
  assumes "sorted (map entry_term L)" "n < length L"
  shows "last_tm (take n L) \<le> entry_term (L ! n)"
  using assms sorted_nth_mono[of "map entry_term L" "n - 1" n]
  by (cases n) (auto simp: last_tm_def last_conv_nth)

lemma append_loop_merge:
  assumes "sorted (map entry_term L)" "\<forall>k < length L. entry_index (L ! k) = k + 1"
    and "prev + length es \<le> length L" "es = take (length es) (drop prev L)"
    and "take prev (mem_entries st) = take prev L" "prev \<le> length (mem_entries st)"
    and "\<forall>k < length (mem_entries st). k < length L \<longrightarrow>
           entry_term (mem_entries st ! k) = entry_term (L ! k) \<longrightarrow> mem_entries st ! k = L ! k"
  shows "append_loop mem_ops es prev st =
           (Inr (prev + length es), st\<lparr>mem_entries := merge_log (mem_entries st) prev es\<rparr>)"
  using assms(3-7)
proof (induction es arbitrary: prev st)
  case Nil
  then show ?case by (simp add: merge_log_def)
next
  case (Cons e es)
  let ?l = "mem_entries st"
  have p: "prev < length L" using Cons.prems(1) by simp
  have e: "e = L ! prev" and es: "es = take (length es) (drop (Suc prev) L)"
    using Cons.prems(2) p by (auto simp: Cons_nth_drop_Suc[symmetric])
  have ix: "entry_index e = prev + 1" using assms(2) p e by simp
  let ?l' = "take prev ?l @ [e]"
  have l': "?l' = take (Suc prev) L" using Cons.prems(3) p e by (simp add: take_Suc_conv_app_nth)
  have tm: "last_tm (take prev ?l) \<le> entry_term e"
    using last_tm_take[OF assms(1) p] Cons.prems(3) e by simp
  show ?case
  proof (cases "prev < length ?l \<and> entry_term (?l ! prev) = entry_term e")
    case True
    then have eq: "?l ! prev = e" using Cons.prems(5) p e by auto
    have "append_loop mem_ops es (Suc prev) st =
      (Inr (Suc prev + length es), st\<lparr>mem_entries := merge_log ?l (Suc prev) es\<rparr>)"
      by (rule Cons.IH) (use Cons.prems p e es eq True in \<open>auto simp: take_Suc_conv_app_nth\<close>)
    moreover have "merge_log ?l prev (e # es) = merge_log ?l (Suc prev) es"
      using eq True by (auto simp: merge_log_def Cons_nth_drop_Suc[symmetric] take_Suc_conv_app_nth)
    ultimately show ?thesis
      using True ix by (simp add: mem_term_at_eq term_of_def)
  next
    case False
    let ?st = "st\<lparr>mem_entries := ?l'\<rparr>"
    have "append_loop mem_ops es (Suc prev) ?st =
      (Inr (Suc prev + length es), st\<lparr>mem_entries := merge_log ?l' (Suc prev) es\<rparr>)"
      using Cons.IH[of "Suc prev" ?st] Cons.prems(1,4) es l' by (simp add: min_def)
    moreover have "merge_log ?l' (Suc prev) es = ?l' @ es" using Cons.prems(4) by (auto simp: merge_log_def)
    moreover have "merge_log ?l prev (e # es) = ?l' @ es"
      using False Cons.prems(4) by (cases "prev < length ?l") (auto simp: merge_log_def Cons_nth_drop_Suc[symmetric])
    moreover have "mem_append (st\<lparr>mem_entries := take prev ?l\<rparr>) [e] = (Inr (), ?st)"
      by (subst mem_append_one) (use ix tm Cons.prems(4) in auto)
    ultimately show ?thesis
      using False ix Cons.prems(4) by (auto simp: mem_term_at_eq term_of_def mem_truncate_from_def)
  qed
qed


section \<open>The relation between a node and the abstract state\<close>

definition member_config :: "node_id list \<Rightarrow> node_id \<Rightarrow> raft_config \<Rightarrow> bool" where
  "member_config ids i c \<longleftrightarrow>
     distinct ids \<and> i \<in> set ids \<and> cfg_id c = i \<and> cfg_peers c = filter (\<lambda>p. p \<noteq> i) ids"

definition votes_ok :: "node_id list \<Rightarrow> node_id \<Rightarrow> astate \<Rightarrow> (node_id, bool) omap \<Rightarrow> bool" where
  "votes_ok ids i a vs \<longleftrightarrow>
     om_wf vs \<and> fst ` set vs \<subseteq> set ids \<and>
     (\<forall>q. om_get vs q = Some True \<longrightarrow> q = i \<or> (q, i, RequestVoteResp (a_term a i) True) \<in> a_msgs a)"

definition match_ok :: "node_id list \<Rightarrow> node_id \<Rightarrow> astate \<Rightarrow> (node_id, log_index) omap \<Rightarrow> bool" where
  "match_ok ids i a ms \<longleftrightarrow>
     om_wf ms \<and> fst ` set ms \<subseteq> set ids \<and>
     (\<forall>q m. om_get ms q = Some m \<longrightarrow> m = 0 \<or> acked a q (a_term a i) m)"

definition next_ok :: "nat \<Rightarrow> (node_id, log_index) omap \<Rightarrow> bool" where
  "next_ok n ns \<longleftrightarrow> (\<forall>q k. om_get ns q = Some k \<longrightarrow> 1 \<le> k \<and> k \<le> n + 1)"

definition out_ok :: "node_id list \<Rightarrow> node_id \<Rightarrow> astate \<Rightarrow> envelope list \<Rightarrow> bool" where
  "out_ok ids i a es \<longleftrightarrow>
     (\<forall>e \<in> set es. env_to e \<in> set ids \<and> (i, env_to e, env_message e) \<in> a_msgs a)"

definition node_rel :: "node_id list \<Rightarrow> node_id \<Rightarrow> astate \<Rightarrow> mem_storage raft_node \<Rightarrow> bool" where
  "node_rel ids i a n \<longleftrightarrow>
     areach (is_majority ids) a \<and> member_config ids i (rn_config n) \<and>
     a_term a i = current_term (mem_hard_state (rn_storage n)) \<and>
     a_vote a i = voted_for (mem_hard_state (rn_storage n)) \<and>
     a_role a i = role n \<and> a_log a i = mem_entries (rn_storage n) \<and>
     a_commit a i = commit_index n \<and>
     hs_commit_index (mem_hard_state (rn_storage n)) = commit_index n \<and>
     out_ok ids i a (outbox n) \<and>
     (role n = Candidate \<longrightarrow> votes_ok ids i a (votes n)) \<and>
     (role n = Leader \<longrightarrow> match_ok ids i a (match_index n) \<and>
        next_ok (length (mem_entries (rn_storage n))) (next_index n))"

definition same_at :: "astate \<Rightarrow> astate \<Rightarrow> node_id \<Rightarrow> bool" where
  "same_at a a' j \<longleftrightarrow>
     a_term a' j = a_term a j \<and> a_vote a' j = a_vote a j \<and> a_role a' j = a_role a j \<and>
     a_log a' j = a_log a j \<and> a_commit a' j = a_commit a j"

definition runs :: "node_id list \<Rightarrow> node_id \<Rightarrow> astate \<Rightarrow> astate \<Rightarrow> bool" where
  "runs ids i a a' \<longleftrightarrow> (astep (is_majority ids))\<^sup>*\<^sup>* a a' \<and> (\<forall>j. j \<noteq> i \<longrightarrow> same_at a a' j)"

definition sim_to :: "node_id list \<Rightarrow> node_id \<Rightarrow> astate \<Rightarrow> mem_storage raft_node \<Rightarrow> bool" where
  "sim_to ids i a n \<longleftrightarrow> (\<exists>a'. runs ids i a a' \<and> node_rel ids i a' n)"

lemma runs_refl [simp]: "runs ids i a a"
  by (simp add: runs_def same_at_def)

lemma runs_trans: "runs ids i a a' \<Longrightarrow> runs ids i a' a'' \<Longrightarrow> runs ids i a a''"
  unfolding runs_def same_at_def by (auto intro: rtranclp_trans)

lemma runs_step:
  "astep (is_majority ids) a a' \<Longrightarrow> \<forall>j. j \<noteq> i \<longrightarrow> same_at a a' j \<Longrightarrow> runs ids i a a'"
  by (simp add: runs_def)

lemma sim_to_refl: "node_rel ids i a n \<Longrightarrow> sim_to ids i a n"
  unfolding sim_to_def by (blast intro: runs_refl)

lemma sim_to_step:
  "astep (is_majority ids) a a' \<Longrightarrow> \<forall>j. j \<noteq> i \<longrightarrow> same_at a a' j \<Longrightarrow> sim_to ids i a' n \<Longrightarrow> sim_to ids i a n"
  unfolding sim_to_def by (blast intro: runs_trans runs_step)

lemma ext_refl [simp]: "ext a a"
  by (simp add: ext_def)

lemma lead_ext_trans: "lead_ext G G' \<Longrightarrow> lead_ext G' G'' \<Longrightarrow> lead_ext G G''"
  unfolding lead_ext_def by (metis append.assoc)

lemma ext_trans: "ext a a' \<Longrightarrow> ext a' a'' \<Longrightarrow> ext a a''"
  unfolding ext_def by (meson lead_ext_trans map_le_trans order_trans)

lemma areach_ext:
  assumes "(astep (is_majority ids))\<^sup>*\<^sup>* a a'" "areach (is_majority ids) a"
  shows "areach (is_majority ids) a' \<and> ext a a'"
  using assms
proof (induction rule: rtranclp_induct)
  case (step b c)
  then have b: "areach (is_majority ids) b" "ext a b" by auto
  note I = raft_invD[OF maj.areach_inv[OF b(1)]]
  have "ext b c" by (rule maj.ext_step[OF step(2) I(1,2,4,5,7-10)])
  then show ?case using b step(2) by (blast intro: ext_trans areach.areach_step)
qed simp

lemma runs_ext: "runs ids i a a' \<Longrightarrow> areach (is_majority ids) a \<Longrightarrow> areach (is_majority ids) a' \<and> ext a a'"
  unfolding runs_def using areach_ext by blast

lemma votes_ok_mono:
  "votes_ok ids i a vs \<Longrightarrow> a_msgs a \<subseteq> a_msgs a' \<Longrightarrow> a_term a' i = a_term a i \<Longrightarrow> votes_ok ids i a' vs"
  unfolding votes_ok_def by auto

lemma match_ok_mono:
  "match_ok ids i a ms \<Longrightarrow> ext a a' \<Longrightarrow> a_term a' i = a_term a i \<Longrightarrow> match_ok ids i a' ms"
  unfolding match_ok_def by (metis acked_mono)

lemma out_ok_mono: "out_ok ids i a es \<Longrightarrow> a_msgs a \<subseteq> a_msgs a' \<Longrightarrow> out_ok ids i a' es"
  unfolding out_ok_def by auto

lemma next_ok_mono: "next_ok n ns \<Longrightarrow> n \<le> n' \<Longrightarrow> next_ok n' ns"
  unfolding next_ok_def by fastforce

lemma node_rel_frame:
  assumes "node_rel ids j a n" "runs ids i a a'" "j \<noteq> i"
  shows "node_rel ids j a' n"
proof -
  have a: "areach (is_majority ids) a" using assms(1) by (simp add: node_rel_def)
  have e: "areach (is_majority ids) a'" "ext a a'" using runs_ext[OF assms(2) a] by auto
  have "same_at a a' j" using assms(2,3) by (simp add: runs_def)
  then show ?thesis
    using assms(1) e(1) votes_ok_mono[OF _ extD(4)[OF e(2)]] match_ok_mono[OF _ e(2)]
      out_ok_mono[OF _ extD(4)[OF e(2)]]
    by (auto simp: node_rel_def same_at_def)
qed


lemma node_rel_same:
  assumes "node_rel ids i a n" "astep (is_majority ids) a a'" "same_at a a' i"
  shows "node_rel ids i a' n"
proof -
  have a: "areach (is_majority ids) a" using assms(1) by (simp add: node_rel_def)
  have e: "areach (is_majority ids) a'" "ext a a'" using areach_ext[OF r_into_rtranclp[of "astep (is_majority ids)", OF assms(2)] a] by auto
  show ?thesis
    using assms(1,3) e(1) votes_ok_mono[OF _ extD(4)[OF e(2)]] match_ok_mono[OF _ e(2)]
      out_ok_mono[OF _ extD(4)[OF e(2)]]
    by (auto simp: node_rel_def same_at_def)
qed

lemma node_rel_irrelevant [simp]:
  "node_rel ids i a (n\<lparr>metrics := x1\<rparr>) = node_rel ids i a n"
  "node_rel ids i a (n\<lparr>election_elapsed := x2\<rparr>) = node_rel ids i a n"
  "node_rel ids i a (n\<lparr>heartbeat_elapsed := x2\<rparr>) = node_rel ids i a n"
  "node_rel ids i a (n\<lparr>randomized_election_timeout := x2\<rparr>) = node_rel ids i a n"
  "node_rel ids i a (n\<lparr>leader_id := x3\<rparr>) = node_rel ids i a n"
  "node_rel ids i a (n\<lparr>last_applied := x4\<rparr>) = node_rel ids i a n"
  "node_rel ids i a (n\<lparr>rng_state := x5\<rparr>) = node_rel ids i a n"
  by (simp_all add: node_rel_def)

lemma rel_reset [simp]: "node_rel ids i a (reset_election_timeout n) = node_rel ids i a n"
  by (simp add: reset_election_timeout_def next_rand_def Let_def)

lemma reset_simps [simp]:
  "rn_config (reset_election_timeout n) = rn_config n"
  "role (reset_election_timeout n) = role n" "votes (reset_election_timeout n) = votes n"
  "outbox (reset_election_timeout n) = outbox n" "commit_index (reset_election_timeout n) = commit_index n"
  by (simp_all add: reset_election_timeout_def next_rand_def Let_def)

lemma rel_send:
  "node_rel ids i a n \<Longrightarrow> (i, to, m) \<in> a_msgs a \<Longrightarrow> to \<in> set ids \<Longrightarrow> node_rel ids i a (send to m n)"
  by (simp add: node_rel_def send_def out_ok_def)

lemma sim_send:
  assumes "node_rel ids i a n" "astep (is_majority ids) a (a\<lparr>a_msgs := insert (i, to, m) (a_msgs a)\<rparr>)"
    "to \<in> set ids"
  shows "sim_to ids i a (send to m n)"
proof (rule sim_to_step[OF assms(2)])
  let ?a = "a\<lparr>a_msgs := insert (i, to, m) (a_msgs a)\<rparr>"
  have "node_rel ids i ?a n" by (rule node_rel_same[OF assms(1,2)]) (simp add: same_at_def)
  then show "sim_to ids i ?a (send to m n)"
    by (intro sim_to_refl rel_send) (use assms(3) in simp_all)
qed (simp add: same_at_def)

lemma sim_send_append:
  assumes "node_rel ids i a n" "role n = Leader" "peer \<in> set ids"
  shows "sim_to ids i a (send_append_to mem_ops peer n)"
proof -
  obtain k where k: "(case om_get (next_index n) peer of
      Some i \<Rightarrow> i | None \<Rightarrow> index_next (last_index_op mem_ops (rn_storage n))) = k" by blast
  have le: "1 \<le> k" "k - 1 \<le> length (a_log a i)"
    using assms(1,2) k
    by (auto simp: node_rel_def next_ok_def index_next_def mem_last_index_def le_diff_conv split: option.splits)
  let ?m = "AppendEntries (a_term a i) (k - 1) (term_of (a_log a i) (k - 1)) (drop (k - 1) (a_log a i)) (a_commit a i)"
  let ?n = "n\<lparr>metrics := (metrics n)\<lparr>append_entries_sent := append_entries_sent (metrics n) + 1\<rparr>\<rparr>"
  have "send_append_to mem_ops peer n = send peer ?m ?n"
    using assms(1) le unfolding send_append_to_def Let_def k
    by (simp add: node_rel_def node_term_def index_prev_def mem_term_at_eq mem_entries_from_def)
  moreover have "sim_to ids i a (send peer ?m ?n)"
    by (rule sim_send[OF _ astep.SendAE]) (use assms le in \<open>auto simp: node_rel_def\<close>)
  ultimately show ?thesis by simp
qed

lemma send_simps [simp]:
  "rn_config (send p m n) = rn_config n" "role (send p m n) = role n"
  "rn_config (send_append_to ops p n) = rn_config n" "role (send_append_to ops p n) = role n"
  by (simp_all add: send_append_to_def send_def Let_def)

lemma sim_to_bind:
  assumes "sim_to ids i a n" "\<And>a'. runs ids i a a' \<Longrightarrow> node_rel ids i a' n \<Longrightarrow> sim_to ids i a' n'"
  shows "sim_to ids i a n'"
  using assms unfolding sim_to_def by (blast intro: runs_trans)

lemma sim_fold_append:
  "sim_to ids i a n \<Longrightarrow> role n = Leader \<Longrightarrow> set ps \<subseteq> set ids \<Longrightarrow>
   sim_to ids i a (fold (send_append_to mem_ops) ps n)"
proof (induction ps arbitrary: n)
  case (Cons p ps)
  have "sim_to ids i a (send_append_to mem_ops p n)"
    using Cons.prems by (auto intro: sim_to_bind sim_send_append)
  then show ?case using Cons by simp
qed simp

lemma sim_broadcast:
  assumes "sim_to ids i a n" "role n = Leader"
  shows "sim_to ids i a (broadcast_append mem_ops n)"
proof -
  have "cfg_peers (rn_config n) = filter (\<lambda>p. p \<noteq> i) ids"
    using assms(1) by (auto simp: sim_to_def node_rel_def member_config_def)
  then show ?thesis
    unfolding broadcast_append_def by (intro sim_fold_append assms) auto
qed

lemma rel_majority:
  assumes "member_config ids i c"
  shows "majority c = length ids div 2 + 1"
proof -
  have "length (filter (\<lambda>p. p \<noteq> i) ids) + 1 = length ids"
    using assms sum_length_filter_compl[of "\<lambda>p. p \<noteq> i" ids] distinct_length_filter[of ids "\<lambda>p. p = i"]
    by (auto simp: member_config_def)
  then show ?thesis using assms by (simp add: majority_def voters_def member_config_def)
qed


lemma commit_scan_cases:
  "commit_scan ops n last_ix k c = c \<or>
   (k \<le> commit_scan ops n last_ix k c \<and> commit_scan ops n last_ix k c \<le> last_ix \<and>
    majority (rn_config n) \<le>
      length (filter (\<lambda>m. commit_scan ops n last_ix k c \<le> m) (om_values (match_index n))) \<and>
    term_at_op ops (rn_storage n) (commit_scan ops n last_ix k c) = Some (node_term ops n))"
proof (induction ops n last_ix k c rule: commit_scan.induct)
  case (1 ops n last_ix k c)
  let ?c = "if majority (rn_config n) \<le> length (filter (\<lambda>m. k \<le> m) (om_values (match_index n))) \<and>
      term_at_op ops (rn_storage n) k = Some (node_term ops n) then k else c"
  show ?case
  proof (cases "k \<le> last_ix")
    case True
    have r: "commit_scan ops n last_ix k c = commit_scan ops n last_ix (index_next k) ?c"
      using True by (subst commit_scan.simps) (simp add: Let_def)
    have "k \<le> index_next k" by (simp add: index_next_def)
    then show ?thesis
      using "1.IH"[OF True refl refl] True unfolding r by (cases "?c = c") (auto split: if_splits)
  next
    case False
    then show ?thesis by (subst (1) commit_scan.simps) simp
  qed
qed

definition set_commit :: "log_index \<Rightarrow> mem_storage raft_node \<Rightarrow> mem_storage raft_node" where
  "set_commit c n =
     n\<lparr>commit_index := c,
       rn_storage := (rn_storage n)\<lparr>mem_hard_state := (mem_hard_state (rn_storage n))\<lparr>hs_commit_index := c\<rparr>\<rparr>\<rparr>"

lemma set_commit_simps [simp]:
  "role (set_commit c n) = role n" "rn_config (set_commit c n) = rn_config n"
  "mem_entries (rn_storage (set_commit c n)) = mem_entries (rn_storage n)"
  by (simp_all add: set_commit_def)

lemma persist_commit:
  "persist_commit_index mem_ops (n\<lparr>commit_index := c\<rparr>) = (Inr (), set_commit c n)"
  by (cases n) (auto simp: persist_commit_index_def set_commit_def mem_save_hard_state_def Let_def)

lemma acked_le:
  assumes "acked a q t m" "k \<le> m"
  shows "acked a q t k"
proof -
  obtain l L where "g_lead a t = Some (l, L)" "m \<le> length L"
    "q = l \<or> (\<exists>m' \<ge> m. (q, l, AppendEntriesResp t True m') \<in> a_msgs a)"
    using assms(1) by (auto simp: acked_def)
  then show ?thesis
    unfolding acked_def using assms(2) by (intro exI[of _ l] exI[of _ L]) (auto intro: le_trans)
qed

lemma acked_local [simp]:
  "acked (a\<lparr>a_commit := f1\<rparr>) q t m = acked a q t m" "acked (a\<lparr>a_term := f2\<rparr>) q t m = acked a q t m"
  "acked (a\<lparr>a_vote := f3\<rparr>) q t m = acked a q t m" "acked (a\<lparr>a_role := f4\<rparr>) q t m = acked a q t m"
  "acked (a\<lparr>a_log := f5\<rparr>) q t m = acked a q t m" "acked (a\<lparr>g_cand := f6\<rparr>) q t m = acked a q t m"
  "acked (a\<lparr>g_vote := f7\<rparr>) q t m = acked a q t m"
  by (simp_all add: acked_def)

lemma ok_commit [simp]:
  "votes_ok ids i (a\<lparr>a_commit := f\<rparr>) vs = votes_ok ids i a vs"
  "match_ok ids i (a\<lparr>a_commit := f\<rparr>) ms = match_ok ids i a ms"
  "out_ok ids i (a\<lparr>a_commit := f\<rparr>) es = out_ok ids i a es"
  by (simp_all add: votes_ok_def match_ok_def out_ok_def)

lemma rel_set_commit:
  assumes "node_rel ids i a n" "astep (is_majority ids) a (a\<lparr>a_commit := (a_commit a)(i := c)\<rparr>)"
  shows "sim_to ids i a (set_commit c n)"
proof (rule sim_to_step[OF assms(2)])
  let ?a = "a\<lparr>a_commit := (a_commit a)(i := c)\<rparr>"
  have "areach (is_majority ids) ?a"
    using assms areach.areach_step by (auto simp: node_rel_def)
  then have "node_rel ids i ?a (set_commit c n)"
    using assms(1) by (simp add: node_rel_def set_commit_def)
  then show "sim_to ids i ?a (set_commit c n)" by (rule sim_to_refl)
qed (simp add: same_at_def)

lemma sim_advance:
  assumes "node_rel ids i a n" "role n = Leader"
  obtains n' where "maybe_advance_commit mem_ops n = (Inr (), n')" "sim_to ids i a n'" "role n' = Leader"
proof -
  let ?c = "commit_scan mem_ops n (mem_last_index (rn_storage n)) (index_next (commit_index n)) (commit_index n)"
  show ?thesis
  proof (cases "commit_index n < ?c")
    case True
    let ?Q = "{q. \<exists>m. om_get (match_index n) q = Some m \<and> ?c \<le> m}"
    have c: "?c \<le> length (a_log a i)" "term_of (a_log a i) ?c = a_term a i"
      "majority (rn_config n) \<le> length (filter (\<lambda>m. ?c \<le> m) (om_values (match_index n)))"
      using commit_scan_cases[of mem_ops n "mem_last_index (rn_storage n)" "index_next (commit_index n)" "commit_index n"]
        True assms(1)
      by (auto simp: node_rel_def mem_last_index_def mem_term_at_eq node_term_def split: if_splits)
    have wf: "match_ok ids i a (match_index n)" using assms by (simp add: node_rel_def)
    have "is_majority ids ?Q"
      using c(3) om_count[of "match_index n" "\<lambda>m. ?c \<le> m"] wf assms(1) rel_majority[of ids i "rn_config n"]
      by (auto simp: is_majority_def match_ok_def node_rel_def dest!: om_get_dom)
    moreover have "\<forall>q \<in> ?Q. acked a q (a_term a i) ?c"
      using wf True acked_le unfolding match_ok_def by fastforce
    ultimately have "astep (is_majority ids) a (a\<lparr>a_commit := (a_commit a)(i := ?c)\<rparr>)"
      using True c assms by (intro astep.LeaderCommit[where Q = ?Q]) (auto simp: node_rel_def)
    then have "sim_to ids i a (set_commit ?c n)" by (rule rel_set_commit[OF assms(1)])
    then show ?thesis
      using that[of "set_commit ?c n"] True assms(2) by (simp add: maybe_advance_commit_def Let_def persist_commit)
  next
    case False
    then show ?thesis
      using that[of n] assms sim_to_refl by (simp add: maybe_advance_commit_def Let_def)
  qed
qed


lemma sim_advance_broadcast:
  assumes "node_rel ids i a n" "role n = Leader"
  shows "\<exists>n'. (case maybe_advance_commit mem_ops n of
             (Inl e, n) \<Rightarrow> (Inl e, n) | (Inr _, n) \<Rightarrow> (Inr x, broadcast_append mem_ops n)) = (Inr x, n') \<and>
           sim_to ids i a n'"
proof -
  obtain n' where "maybe_advance_commit mem_ops n = (Inr (), n')" "sim_to ids i a n'" "role n' = Leader"
    using sim_advance[OF assms] .
  then show ?thesis using sim_broadcast by auto
qed

section \<open>Role transitions\<close>

lemma sim_follow:
  assumes "node_rel ids i a n" "node_term mem_ops n \<le> t"
  obtains n' where "become_follower mem_ops t l n = (Inr (), n')" "sim_to ids i a n'" "role n' = Follower"
    "node_term mem_ops n' = t"
proof -
  let ?st = "rn_storage n"
  let ?hs = "mem_hard_state ?st"
  let ?n = "n\<lparr>rn_storage := (if current_term ?hs < t
        then ?st\<lparr>mem_hard_state := ?hs\<lparr>current_term := t, voted_for := None\<rparr>\<rparr> else ?st),
      role := Follower, leader_id := (if l \<noteq> None then l else leader_id n), votes := []\<rparr>"
  let ?a = "a\<lparr>a_term := (a_term a)(i := t),
        a_vote := (a_vote a)(i := (if a_term a i < t then None else a_vote a i)),
        a_role := (a_role a)(i := Follower)\<rparr>"
  have s: "astep (is_majority ids) a ?a"
    by (rule astep.Follow) (use assms in \<open>auto simp: node_rel_def node_term_def\<close>)
  then have "areach (is_majority ids) ?a" using assms(1) areach.areach_step by (auto simp: node_rel_def)
  then have "node_rel ids i ?a ?n"
    using assms by (auto simp: node_rel_def node_term_def out_ok_def)
  then have "sim_to ids i a ?n"
    by (intro sim_to_step[OF s]) (auto simp: same_at_def intro: sim_to_refl)
  moreover have "become_follower mem_ops t l n = (Inr (), ?n)"
    by (auto simp: become_follower_def Let_def mem_save_hard_state_def)
  moreover have "node_term mem_ops ?n = t" using assms(2) by (auto simp: node_term_def)
  ultimately show ?thesis using that[of ?n] by simp
qed

lemma fold_init_progress:
  "fold (init_progress l) ps n =
     n\<lparr>next_index := fold (\<lambda>p. om_insert p (index_next l)) ps (next_index n),
       match_index := fold (\<lambda>p. om_insert p 0) ps (match_index n)\<rparr>"
  by (induction ps arbitrary: n) (simp_all add: init_progress_def)

lemma om_get_fold:
  "om_get (fold (\<lambda>p. om_insert p v) ps m) q = (if q \<in> set ps then Some v else om_get m q)"
  by (induction ps arbitrary: m) auto

lemma om_wf_fold: "om_wf m \<Longrightarrow> om_wf (fold (\<lambda>p. om_insert p v) ps m)"
  by (induction ps arbitrary: m) auto

lemma keys_fold: "fst ` set (fold (\<lambda>p. om_insert p v) ps m) = set ps \<union> fst ` set m"
  by (induction ps arbitrary: m) auto

lemma sim_become_leader:
  assumes "node_rel ids i a n" "role n = Candidate" "is_majority ids Q"
    "\<forall>q \<in> Q. q = i \<or> (q, i, RequestVoteResp (a_term a i) True) \<in> a_msgs a"
  obtains n' where "become_leader mem_ops n = (Inr (), n')" "sim_to ids i a n'"
proof -
  let ?st = "rn_storage n"
  let ?len = "length (mem_entries ?st)"
  let ?ps = "filter (\<lambda>p. p \<noteq> i) ids"
  let ?e = "noop_entry (a_term a i) (?len + 1)"
  let ?L = "a_log a i @ [?e]"
  let ?a = "a\<lparr>a_role := (a_role a)(i := Leader), a_log := (a_log a)(i := ?L),
        g_lead := (g_lead a)(a_term a i \<mapsto> (i, ?L))\<rparr>"
  let ?n = "n\<lparr>role := Leader, leader_id := Some i,
      metrics := (metrics n)\<lparr>leader_changes := leader_changes (metrics n) + 1\<rparr>, heartbeat_elapsed := 0,
      next_index := fold (\<lambda>p. om_insert p (?len + 1)) ?ps [],
      rn_storage := ?st\<lparr>mem_entries := mem_entries ?st @ [?e]\<rparr>,
      match_index := om_insert i (?len + 1) (om_insert i ?len (fold (\<lambda>p. om_insert p 0) ?ps []))\<rparr>"
  have i: "a_log a i = mem_entries ?st" "a_term a i = current_term (mem_hard_state ?st)" "i \<in> set ids"
    "cfg_id (rn_config n) = i" "cfg_peers (rn_config n) = ?ps" "areach (is_majority ids) a"
    using assms(1) by (auto simp: node_rel_def member_config_def)
  have s: "astep (is_majority ids) a ?a"
    by (rule astep.BecomeLeader[where Q = Q]) (use assms i in \<open>auto simp: node_rel_def\<close>)
  have m: "match_ok ids i ?a (match_index ?n)"
    using i(3) by (auto simp: match_ok_def om_wf_fold om_get_fold keys_fold acked_def i(1))
  have "next_ok (?len + 1) (next_index ?n)"
    by (auto simp: next_ok_def om_get_fold)
  then have "node_rel ids i ?a ?n"
    using assms(1) i m areach.areach_step[OF i(6) s] by (simp add: node_rel_def out_ok_def)
  moreover have "last_tm (mem_entries ?st) \<le> a_term a i"
    using maj.last_tm_le[OF raft_invD(15)[OF maj.areach_inv[OF i(6)]], of i] i(1) by simp
  then have "become_leader mem_ops n = (case maybe_advance_commit mem_ops ?n of
      (Inl e, n) \<Rightarrow> (Inl e, n) | (Inr _, n) \<Rightarrow> (Inr (), broadcast_append mem_ops n))"
    using i by (simp add: become_leader_def Let_def fold_init_progress mem_append_one mem_last_index_def
        index_next_def node_term_def noop_entry_def)
  ultimately obtain n' where n': "become_leader mem_ops n = (Inr (), n')" "sim_to ids i ?a n'"
    using sim_advance_broadcast[of ids i ?a ?n "()"] by auto
  then show ?thesis
    using that[of n'] sim_to_step[OF s _ n'(2)] by (simp add: same_at_def)
qed


lemma sim_fold_vote:
  "sim_to ids i a n \<Longrightarrow> role n = Candidate \<Longrightarrow> set ps \<subseteq> set ids \<Longrightarrow>
   m = RequestVote (node_term mem_ops n) (mem_last_index (rn_storage n)) (mem_last_term (rn_storage n)) \<Longrightarrow>
   sim_to ids i a (fold (\<lambda>p. send p m) ps n)"
proof (induction ps arbitrary: n)
  case (Cons p ps)
  have "sim_to ids i a (send p m n)"
  proof (rule sim_to_bind[OF Cons.prems(1)])
    fix a' assume rel: "node_rel ids i a' n"
    then have "m = RequestVote (a_term a' i) (length (a_log a' i)) (last_tm (a_log a' i))"
      using Cons.prems(4) by (simp add: node_rel_def node_term_def mem_last_index_def mem_last_term_tm)
    then have "astep (is_majority ids) a' (a'\<lparr>a_msgs := insert (i, p, m) (a_msgs a')\<rparr>)"
      using astep.SendRV[of a' i "is_majority ids" p] rel Cons.prems(2) by (simp add: node_rel_def)
    then show "sim_to ids i a' (send p m n)" using sim_send[OF rel] Cons.prems(3) by simp
  qed
  then show ?case using Cons.IH[of "send p m n"] Cons.prems by (simp add: node_term_def)
qed simp

lemma sim_campaign:
  assumes "node_rel ids i a n"
  shows "sim_to ids i a (campaign mem_ops n)"
proof -
  let ?st = "rn_storage n"
  let ?hs = "(mem_hard_state ?st)\<lparr>current_term := current_term (mem_hard_state ?st) + 1, voted_for := Some i\<rparr>"
  let ?n = "reset_election_timeout (n\<lparr>rn_storage := ?st\<lparr>mem_hard_state := ?hs\<rparr>, role := Candidate,
     leader_id := None, votes := [(i, True)]\<rparr>)"
  let ?a = "a\<lparr>a_term := (a_term a)(i := a_term a i + 1), a_vote := (a_vote a)(i := Some i),
        a_role := (a_role a)(i := Candidate),
        g_cand := (g_cand a)((a_term a i + 1, i) \<mapsto> a_log a i),
        g_vote := (g_vote a)((i, a_term a i + 1) \<mapsto> (i, a_log a i))\<rparr>"
  have i: "member_config ids i (rn_config n)" "i \<in> set ids" "cfg_id (rn_config n) = i"
    using assms by (auto simp: node_rel_def member_config_def)
  have s: "astep (is_majority ids) a ?a" by (rule astep.Campaign)
  then have "areach (is_majority ids) ?a" using assms areach.areach_step by (auto simp: node_rel_def)
  then have rel: "node_rel ids i ?a ?n"
    using assms i(2) by (simp add: node_rel_def out_ok_def votes_ok_def)
  have "sim_to ids i ?a (campaign mem_ops n)"
  proof (cases "majority (rn_config n) \<le> 1")
    case True
    have maj1: "is_majority ids {i}" using True rel_majority[OF i(1)] i(2) by (simp add: is_majority_def)
    obtain n' where "become_leader mem_ops ?n = (Inr (), n')" "sim_to ids i ?a n'"
      by (rule sim_become_leader[OF rel _ maj1]) simp_all
    then show ?thesis
      using True i(3) by (simp add: campaign_def Let_def mem_save_hard_state_def term_next_def)
  next
    case False
    have "sim_to ids i ?a (fold (\<lambda>p. send p (RequestVote (node_term mem_ops ?n)
        (mem_last_index (rn_storage ?n)) (mem_last_term (rn_storage ?n)))) (cfg_peers (rn_config n)) ?n)"
      by (rule sim_fold_vote) (use sim_to_refl[OF rel] i(1) in \<open>auto simp: member_config_def\<close>)
    then show ?thesis
      using False i(3) by (simp add: campaign_def Let_def mem_save_hard_state_def term_next_def)
  qed
  then show ?thesis by (intro sim_to_step[OF s]) (simp_all add: same_at_def)
qed

lemma sim_tick:
  assumes "node_rel ids i a n"
  shows "sim_to ids i a (tick mem_ops n)"
proof -
  have "sim_to ids i a (broadcast_append mem_ops (n\<lparr>heartbeat_elapsed := 0\<rparr>))" if "role n = Leader"
    by (rule sim_broadcast) (use assms that sim_to_refl in auto)
  moreover have "sim_to ids i a (campaign mem_ops (n\<lparr>election_elapsed := x\<rparr>))" for x
    by (rule sim_campaign) (use assms in simp)
  ultimately show ?thesis
    using assms by (auto simp: tick_def Let_def intro: sim_to_refl split: node_role.split)
qed

lemma sim_propose:
  assumes "node_rel ids i a n"
  obtains r n' where "propose mem_ops cmd n = (r, n')" "sim_to ids i a n'"
    "r = (if role n = Leader then Inr (length (mem_entries (rn_storage n)) + 1) else Inl (NotLeader (leader_id n)))"
proof (cases "role n = Leader")
  case True
  let ?st = "rn_storage n"
  let ?len = "length (mem_entries ?st)"
  let ?e = "\<lparr>entry_term = a_term a i, entry_index = ?len + 1, entry_command = cmd\<rparr>"
  let ?a = "a\<lparr>a_log := (a_log a)(i := a_log a i @ [?e]),
        g_lead := (g_lead a)(a_term a i \<mapsto> (i, a_log a i @ [?e]))\<rparr>"
  let ?n = "n\<lparr>rn_storage := ?st\<lparr>mem_entries := mem_entries ?st @ [?e]\<rparr>,
     match_index := om_insert i (?len + 1) (match_index n)\<rparr>"
  have i: "a_log a i = mem_entries ?st" "a_term a i = current_term (mem_hard_state ?st)" "i \<in> set ids"
    "cfg_id (rn_config n) = i" "areach (is_majority ids) a" "match_ok ids i a (match_index n)"
    "next_ok ?len (next_index n)"
    using assms(1) True by (auto simp: node_rel_def member_config_def)
  have s: "astep (is_majority ids) a ?a"
    by (rule astep.Propose) (use assms True in \<open>auto simp: node_rel_def\<close>)
  have reach: "areach (is_majority ids) ?a" and e: "ext a ?a"
    using areach_ext[OF r_into_rtranclp[of "astep (is_majority ids)", OF s] i(5)] by auto
  have "match_ok ids i ?a (match_index n)" by (rule match_ok_mono[OF i(6) e]) simp
  then have "match_ok ids i ?a (om_insert i (?len + 1) (match_index n))"
    using i(1,3) by (auto simp: match_ok_def acked_def)
  then have rel: "node_rel ids i ?a ?n"
    using assms reach i True next_ok_mono[OF i(7), of "?len + 1"] by (simp add: node_rel_def out_ok_def)
  have "last_tm (mem_entries ?st) \<le> a_term a i"
    using maj.last_tm_le[OF raft_invD(15)[OF maj.areach_inv[OF i(5)]], of i] i(1) by simp
  then have eq: "propose mem_ops cmd n = (case maybe_advance_commit mem_ops ?n of
      (Inl e, n) \<Rightarrow> (Inl e, n) | (Inr _, n) \<Rightarrow> (Inr (Suc ?len), broadcast_append mem_ops n))"
    using i True by (simp add: propose_def Let_def mem_append_one mem_last_index_def index_next_def node_term_def)
  have "\<exists>n'. propose mem_ops cmd n = (Inr (Suc ?len), n') \<and> sim_to ids i ?a n'"
    unfolding eq by (rule sim_advance_broadcast[OF rel]) (use True in simp)
  then obtain n' where n': "propose mem_ops cmd n = (Inr (Suc ?len), n')" "sim_to ids i ?a n'" by blast
  show ?thesis
    by (rule that[OF n'(1)]) (use True sim_to_step[OF s _ n'(2)] in \<open>simp_all add: same_at_def\<close>)
next
  case False
  then show ?thesis using that[of _ n] assms by (simp add: propose_def sim_to_refl)
qed


section \<open>Message handlers\<close>

lemma sim_request_vote:
  assumes "node_rel ids i a n" "(from, i, RequestVote t lli llt) \<in> a_msgs a" "from \<in> set ids"
    "t \<le> node_term mem_ops n"
  obtains n' where "handle_request_vote mem_ops from t lli llt n = (Inr (), n')" "sim_to ids i a n'"
proof -
  let ?st = "rn_storage n"
  let ?hs = "mem_hard_state ?st"
  let ?ok = "(voted_for ?hs = None \<or> voted_for ?hs = Some from) \<and>
    (last_tm (mem_entries ?st), length (mem_entries ?st)) \<le> (llt, lli)"
  show ?thesis
  proof (cases "t = current_term ?hs \<and> ?ok")
    case True
    let ?n = "n\<lparr>rn_storage := ?st\<lparr>mem_hard_state := ?hs\<lparr>voted_for := Some from\<rparr>\<rparr>, election_elapsed := 0,
      metrics := (metrics n)\<lparr>votes_granted := votes_granted (metrics n) + 1\<rparr>\<rparr>"
    let ?m = "RequestVoteResp (a_term a i) True"
    let ?a = "a\<lparr>a_vote := (a_vote a)(i := Some from), a_msgs := insert (i, from, ?m) (a_msgs a),
        g_vote := (if a_vote a i = None then (g_vote a)((i, a_term a i) \<mapsto> (from, a_log a i)) else g_vote a)\<rparr>"
    have i: "areach (is_majority ids) a" "a_term a i = t" using assms(1) True by (auto simp: node_rel_def)
    have s: "astep (is_majority ids) a ?a"
      by (rule astep.Grant[where lli = lli and llt = llt]) (use assms True in \<open>auto simp: node_rel_def\<close>)
    have reach: "areach (is_majority ids) ?a" and e: "ext a ?a"
      using areach_ext[OF r_into_rtranclp[of "astep (is_majority ids)", OF s] i(1)] by auto
    have "node_rel ids i ?a ?n"
      using assms(1) reach votes_ok_mono[OF _ extD(4)[OF e]] match_ok_mono[OF _ e] out_ok_mono[OF _ extD(4)[OF e]]
      by (auto simp: node_rel_def)
    then have "sim_to ids i ?a (send from ?m ?n)"
      by (intro sim_to_refl rel_send) (use assms(3) in simp_all)
    then have "sim_to ids i a (send from ?m ?n)" by (intro sim_to_step[OF s]) (auto simp: same_at_def)
    moreover have "handle_request_vote mem_ops from t lli llt n = (Inr (), send from ?m ?n)"
      using True i(2) by (auto simp: handle_request_vote_def Let_def mem_last_index_def mem_last_term_tm
          mem_save_hard_state_def node_term_def)
    ultimately show ?thesis using that by blast
  next
    case False
    let ?m = "RequestVoteResp (a_term a i) False"
    have "handle_request_vote mem_ops from t lli llt n = (Inr (), send from ?m n)"
      using False assms(1,4) by (auto simp: handle_request_vote_def Let_def mem_last_index_def mem_last_term_tm
          node_term_def node_rel_def)
    moreover have "sim_to ids i a (send from ?m n)"
      by (rule sim_send[OF assms(1) _ assms(3)]) (rule astep.Refuse, simp)
    ultimately show ?thesis using that by blast
  qed
qed

lemma sim_vote_resp:
  assumes "node_rel ids i a n" "(from, i, RequestVoteResp t g) \<in> a_msgs a" "from \<in> set ids"
  obtains n' where "handle_vote_resp mem_ops from t g n = (Inr (), n')" "sim_to ids i a n'"
proof (cases "role n = Candidate \<and> t = node_term mem_ops n")
  case True
  let ?n = "n\<lparr>votes := om_insert from g (votes n)\<rparr>"
  let ?Q = "{q. om_get (votes ?n) q = Some True}"
  have Q: "?Q = {q. \<exists>v. om_get (votes ?n) q = Some v \<and> v}" by auto
  have t: "t = a_term a i" "member_config ids i (rn_config n)"
    using True assms(1) by (auto simp: node_rel_def node_term_def)
  have ok: "votes_ok ids i a (votes ?n)"
    using True assms t(1) by (auto simp: node_rel_def votes_ok_def)
  then have rel: "node_rel ids i a ?n"
    using True assms(1) by (simp add: node_rel_def)
  show ?thesis
  proof (cases "majority (rn_config n) \<le> length (filter (\<lambda>v. v) (om_values (votes ?n)))")
    case m: True
    have "is_majority ids ?Q"
      using m om_count[of "votes ?n" "\<lambda>v. v", folded Q] ok rel_majority[OF t(2)]
      by (auto simp: is_majority_def votes_ok_def dest!: om_get_dom)
    moreover have "\<forall>q \<in> ?Q. q = i \<or> (q, i, RequestVoteResp (a_term a i) True) \<in> a_msgs a"
      using ok unfolding votes_ok_def by blast
    ultimately obtain n' where "become_leader mem_ops ?n = (Inr (), n')" "sim_to ids i a n'"
      using sim_become_leader[OF rel _ , of ?Q] True by auto
    then show ?thesis using that[of n'] True m by (simp add: handle_vote_resp_def Let_def)
  next
    case False
    then show ?thesis
      using that[of ?n] True sim_to_refl[OF rel] by (simp add: handle_vote_resp_def Let_def)
  qed
next
  case False
  then show ?thesis using that[of n] sim_to_refl[OF assms(1)] by (auto simp: handle_vote_resp_def)
qed


lemma sim_set_log:
  assumes "node_rel ids i a n" "role n = Follower"
    and s: "astep (is_majority ids) a (a\<lparr>a_log := (a_log a)(i := lg), a_msgs := insert x (a_msgs a)\<rparr>)"
  shows "node_rel ids i (a\<lparr>a_log := (a_log a)(i := lg), a_msgs := insert x (a_msgs a)\<rparr>)
    (n\<lparr>rn_storage := (rn_storage n)\<lparr>mem_entries := lg\<rparr>\<rparr>)"
proof -
  have "areach (is_majority ids) a" using assms(1) by (simp add: node_rel_def)
  then have "areach (is_majority ids) (a\<lparr>a_log := (a_log a)(i := lg), a_msgs := insert x (a_msgs a)\<rparr>)"
    using s areach.areach_step by blast
  then show ?thesis using assms(1,2) by (auto simp: node_rel_def out_ok_def)
qed

lemma append_loop_rel:
  assumes "node_rel ids i a n" "(from, i, AppendEntries t pli plt es lc) \<in> a_msgs a"
    "matches_at (a_log a i) pli plt"
  shows "append_loop mem_ops es pli (rn_storage n) =
    (Inr (pli + length es), (rn_storage n)\<lparr>mem_entries := merge_log (a_log a i) pli es\<rparr>) \<and>
    take (length es) (drop pli (merge_log (a_log a i) pli es)) = es \<and>
    matches_at (merge_log (a_log a i) pli es) pli plt"
proof -
  have r: "areach (is_majority ids) a" "a_log a i = mem_entries (rn_storage n)"
    using assms(1) by (auto simp: node_rel_def)
  note I = raft_invD[OF maj.areach_inv[OF r(1)]]
  obtain L where L: "g_lead a t = Some (from, L)" "pli + length es \<le> length L"
    "es = take (length es) (drop pli L)" "plt = term_of L pli"
    using M3D[OF I(17) assms(2)] by blast
  note conf = C1D[OF I(11), of i] C2D[OF I(12) L(1)]
  have pre: "take pli (a_log a i) = take pli L"
    using matches_prefix[OF conf assms(3) L(4)] L(2) by simp
  have le: "pli \<le> length (a_log a i)" using assms(3) by (simp add: matches_at_def)
  have "a_log a i ! k = L ! k" if "k < length (a_log a i)" "k < length L"
    "entry_term (a_log a i ! k) = entry_term (L ! k)" for k
    using log_matching[OF conf that] nth_take[of k "Suc k"] by (metis lessI)
  then have "append_loop mem_ops es pli (rn_storage n) =
    (Inr (pli + length es), (rn_storage n)\<lparr>mem_entries := merge_log (a_log a i) pli es\<rparr>)"
    using append_loop_merge[of L pli es "rn_storage n"] S2D[OF I(16) L(1)] L pre le r(2) by simp
  moreover have "take (length es) (drop pli (merge_log (a_log a i) pli es)) = es"
    using le by (auto simp: merge_log_def)
  moreover have "matches_at (merge_log (a_log a i) pli es) pli plt"
    using assms(3) le by (auto simp: merge_log_def matches_at_def term_of_def nth_append)
  ultimately show ?thesis by blast
qed

lemma sim_append_accept:
  assumes "node_rel ids i a n" "role n = Follower" "from \<in> set ids"
    "(from, i, AppendEntries (node_term mem_ops n) pli plt es lc) \<in> a_msgs a"
    "matches_at (mem_entries (rn_storage n)) pli plt"
  obtains st where "append_loop mem_ops es pli (rn_storage n) = (Inr (pli + length es), st)"
    "mem_hard_state st = mem_hard_state (rn_storage n)"
    "sim_to ids i a (send from (AppendEntriesResp (node_term mem_ops n) True (pli + length es))
       (if commit_index n < lc then set_commit (min lc (length (mem_entries st))) (n\<lparr>rn_storage := st\<rparr>)
        else n\<lparr>rn_storage := st\<rparr>))"
proof -
  let ?lg = "merge_log (a_log a i) pli es"
  let ?st = "(rn_storage n)\<lparr>mem_entries := ?lg\<rparr>"
  let ?n = "n\<lparr>rn_storage := ?st\<rparr>"
  let ?m = "AppendEntriesResp (a_term a i) True (pli + length es)"
  let ?a = "a\<lparr>a_log := (a_log a)(i := ?lg), a_msgs := insert (i, from, ?m) (a_msgs a)\<rparr>"
  have t: "node_term mem_ops n = a_term a i" "a_log a i = mem_entries (rn_storage n)" "commit_index n = a_commit a i"
    using assms(1) by (auto simp: node_rel_def node_term_def)
  have lp: "append_loop mem_ops es pli (rn_storage n) = (Inr (pli + length es), ?st)"
    "take (length es) (drop pli ?lg) = es" "matches_at ?lg pli plt"
    using append_loop_rel[OF assms(1,4)] assms(5) t by auto
  have s: "astep (is_majority ids) a ?a"
    by (rule astep.Accept) (use assms t in \<open>auto simp: node_rel_def\<close>)
  have rel: "node_rel ids i ?a ?n" by (rule sim_set_log[OF assms(1,2) s])
  have "sim_to ids i ?a (if commit_index n < lc then set_commit (min lc (length ?lg)) ?n else ?n)"
  proof (cases "commit_index n < lc")
    case True
    have "astep (is_majority ids) ?a (?a\<lparr>a_commit := (a_commit ?a)(i := min lc (length (a_log ?a i)))\<rparr>)"
      by (rule astep.LearnCommit[of "from" _ _ pli plt es]) (use assms(4) t lp True in simp_all)
    then have "sim_to ids i ?a (set_commit (min lc (length (a_log ?a i))) ?n)" by (rule rel_set_commit[OF rel])
    then show ?thesis using True by simp
  next
    case False
    then show ?thesis using sim_to_refl[OF rel] by simp
  qed
  then have "sim_to ids i ?a (send from ?m (if commit_index n < lc then set_commit (min lc (length ?lg)) ?n else ?n))"
  proof (rule sim_to_bind)
    fix a' assume "runs ids i ?a a'" and
      r: "node_rel ids i a' (if commit_index n < lc then set_commit (min lc (length ?lg)) ?n else ?n)"
    then have "ext ?a a'" using runs_ext rel by (auto simp: node_rel_def)
    then have "(i, from, ?m) \<in> a_msgs a'" using extD(4) by fastforce
    then show "sim_to ids i a' (send from ?m (if commit_index n < lc then set_commit (min lc (length ?lg)) ?n else ?n))"
      by (intro sim_to_refl rel_send r assms(3))
  qed
  then have "sim_to ids i a (send from ?m (if commit_index n < lc then set_commit (min lc (length ?lg)) ?n else ?n))"
    by (rule sim_to_step[OF s, rotated]) (simp add: same_at_def)
  then show ?thesis by (intro that[OF lp(1)]) (auto simp: t(1))
qed


lemma sim_to_runs: "runs ids i a a' \<Longrightarrow> sim_to ids i a' n \<Longrightarrow> sim_to ids i a n"
  unfolding sim_to_def by (blast intro: runs_trans)

lemma sim_append_entries:
  assumes "node_rel ids i a n" "(from, i, AppendEntries t pli plt es lc) \<in> a_msgs a" "from \<in> set ids"
  obtains n' where "handle_append_entries mem_ops from t pli plt es lc n = (Inr (), n')" "sim_to ids i a n'"
proof -
  let ?n = "n\<lparr>metrics := (metrics n)\<lparr>append_entries_received := append_entries_received (metrics n) + 1\<rparr>\<rparr>"
  have refuse: "sim_to ids i a (send from (AppendEntriesResp t' False 0) n)"
    if "node_rel ids i a n" for a n t'
    by (rule sim_send[OF that _ assms(3)]) (rule astep.Refuse, simp)
  have rel: "node_rel ids i a ?n" using assms(1) by simp
  show ?thesis
  proof (cases "t < node_term mem_ops n")
    case True
    then show ?thesis
      using that refuse[OF rel] by (simp add: handle_append_entries_def Let_def node_term_def)
  next
    case False
    then have "node_term mem_ops ?n \<le> t" by (simp add: node_term_def)
    then obtain n1 where n1: "become_follower mem_ops t (Some from) ?n = (Inr (), n1)" "sim_to ids i a n1"
      "role n1 = Follower" "node_term mem_ops n1 = t"
      by (rule sim_follow[OF rel])
    let ?n1 = "n1\<lparr>election_elapsed := 0\<rparr>"
    obtain a1 where a1: "runs ids i a a1" "node_rel ids i a1 ?n1" using n1(2) by (auto simp: sim_to_def)
    have "ext a a1" using runs_ext[OF a1(1)] assms(1) by (simp add: node_rel_def)
    then have msg: "(from, i, AppendEntries (node_term mem_ops ?n1) pli plt es lc) \<in> a_msgs a1"
      using extD(4) assms(2) n1(4) by (fastforce simp: node_term_def)
    show ?thesis
    proof (cases "matches_at (mem_entries (rn_storage ?n1)) pli plt")
      case True
      obtain st where st: "append_loop mem_ops es pli (rn_storage ?n1) = (Inr (pli + length es), st)"
        "mem_hard_state st = mem_hard_state (rn_storage ?n1)"
        and sim: "sim_to ids i a1 (send from (AppendEntriesResp (node_term mem_ops ?n1) True (pli + length es))
         (if commit_index ?n1 < lc then set_commit (min lc (length (mem_entries st))) (?n1\<lparr>rn_storage := st\<rparr>)
          else ?n1\<lparr>rn_storage := st\<rparr>))"
        by (rule sim_append_accept[OF a1(2) _ assms(3) msg True]) (use n1(3) in simp)
      have "handle_append_entries mem_ops from t pli plt es lc n = (Inr (),
        send from (AppendEntriesResp (node_term mem_ops ?n1) True (pli + length es))
         (if commit_index ?n1 < lc then set_commit (min lc (length (mem_entries st))) (?n1\<lparr>rn_storage := st\<rparr>)
          else ?n1\<lparr>rn_storage := st\<rparr>))"
        using False True n1(1) st
        by (simp add: handle_append_entries_def Let_def node_term_def mem_term_at_eq matches_at_def
            mem_last_index_def persist_commit min_index_def min_def set_commit_def)
      then show ?thesis using that sim_to_runs[OF a1(1) sim] by blast
    next
      case nomatch: False
      have "handle_append_entries mem_ops from t pli plt es lc n =
        (Inr (), send from (AppendEntriesResp (node_term mem_ops ?n1) False 0) ?n1)"
        using False nomatch n1(1)
        by (auto simp: handle_append_entries_def Let_def node_term_def mem_term_at_eq matches_at_def)
      then show ?thesis using that sim_to_runs[OF a1(1) refuse[OF a1(2)]] by blast
    qed
  qed
qed

lemma sim_append_resp:
  assumes "node_rel ids i a n" "(from, i, AppendEntriesResp t ok mi) \<in> a_msgs a" "from \<in> set ids"
  obtains n' where "handle_append_resp mem_ops from t ok mi n = (Inr (), n')" "sim_to ids i a n'"
proof (cases "role n = Leader \<and> t = node_term mem_ops n")
  case True
  have r: "areach (is_majority ids) a" "a_role a i = Leader" "a_term a i = t" "a_log a i = mem_entries (rn_storage n)"
    "match_ok ids i a (match_index n)" "next_ok (length (mem_entries (rn_storage n))) (next_index n)"
    using assms(1) True by (auto simp: node_rel_def node_term_def)
  note I = raft_invD[OF maj.areach_inv[OF r(1)]]
  have lead: "g_lead a t = Some (i, mem_entries (rn_storage n))"
    using L2D[OF I(9) r(2)] r(3,4) by simp
  show ?thesis
  proof (cases ok)
    case ok: True
    let ?n = "n\<lparr>match_index := om_insert from mi (match_index n), next_index := om_insert from (mi + 1) (next_index n)\<rparr>"
    have mi: "mi \<le> length (mem_entries (rn_storage n))"
      using M4D[OF I(18)] assms(2) lead ok by fastforce
    then have "acked a from t mi" using assms(2) lead ok by (auto simp: acked_def)
    then have "match_ok ids i a (match_index ?n)" "next_ok (length (mem_entries (rn_storage n))) (next_index ?n)"
      using r(3,5,6) assms(3) mi by (auto simp: match_ok_def next_ok_def)
    then have "node_rel ids i a ?n" using assms(1) True by (simp add: node_rel_def)
    then obtain n' where "maybe_advance_commit mem_ops ?n = (Inr (), n')" "sim_to ids i a n'"
      by (rule sim_advance) (use True in simp_all)
    then show ?thesis
      using that[of n'] True ok by (simp add: handle_append_resp_def index_next_def)
  next
    case nok: False
    let ?k = "max ((case om_get (next_index n) from of
                       Some i \<Rightarrow> i | None \<Rightarrow> index_next (last_index_op mem_ops (rn_storage n))) - 1) 1"
    let ?n = "n\<lparr>next_index := om_insert from ?k (next_index n)\<rparr>"
    have "?k \<le> length (mem_entries (rn_storage n)) + 1"
      using r(6) by (auto simp: next_ok_def index_next_def mem_last_index_def split: option.splits
        intro: le_trans[OF diff_le_self])
    then have "next_ok (length (mem_entries (rn_storage n))) (next_index ?n)"
      using r(6) by (auto simp: next_ok_def)
    then have "node_rel ids i a ?n" using assms(1) True by (simp add: node_rel_def)
    then have "sim_to ids i a (send_append_to mem_ops from ?n)"
      by (rule sim_send_append) (use True assms(3) in simp_all)
    then show ?thesis using that True nok by (simp add: handle_append_resp_def Let_def)
  qed
next
  case False
  then show ?thesis using that[of n] sim_to_refl[OF assms(1)] by (auto simp: handle_append_resp_def)
qed


theorem sim_step:
  assumes "node_rel ids i a n" "(from, i, m) \<in> a_msgs a" "from \<in> set ids"
  obtains n' where "step mem_ops from m n = (Inr (), n')" "sim_to ids i a n'"
proof -
  obtain n1 where n1: "(if node_term mem_ops n < msg_term m then become_follower mem_ops (msg_term m) None n
      else (Inr (), n)) = (Inr (), n1)" "sim_to ids i a n1" "msg_term m \<le> node_term mem_ops n1"
  proof (cases "node_term mem_ops n < msg_term m")
    case True
    obtain n1 where "become_follower mem_ops (msg_term m) None n = (Inr (), n1)" "sim_to ids i a n1"
      "node_term mem_ops n1 = msg_term m"
      by (rule sim_follow[OF assms(1), of "msg_term m" None]) (use True in simp_all)
    then show ?thesis using that[of n1] True by simp
  next
    case False
    then show ?thesis using that[of n] sim_to_refl[OF assms(1)] by simp
  qed
  obtain a1 where a1: "runs ids i a a1" "node_rel ids i a1 n1" using n1(2) by (auto simp: sim_to_def)
  have "ext a a1" using runs_ext[OF a1(1)] assms(1) by (simp add: node_rel_def)
  then have msg: "(from, i, m) \<in> a_msgs a1" using extD(4) assms(2) by blast
  have eq: "step mem_ops from m n =
     (case m of
        RequestVote t lli llt \<Rightarrow> handle_request_vote mem_ops from t lli llt n1
      | RequestVoteResp t granted \<Rightarrow> handle_vote_resp mem_ops from t granted n1
      | AppendEntries t pli plt es lc \<Rightarrow> handle_append_entries mem_ops from t pli plt es lc n1
      | AppendEntriesResp t success mi \<Rightarrow> handle_append_resp mem_ops from t success mi n1)"
    unfolding step_def n1(1) by simp
  have fin: "thesis" if "step mem_ops from m n = (Inr (), n')" "sim_to ids i a1 n'" for n'
    by (rule \<open>\<And>n'. step mem_ops from m n = (Inr (), n') \<Longrightarrow> sim_to ids i a n' \<Longrightarrow> thesis\<close>)
      (use that sim_to_runs[OF a1(1)] in auto)
  show ?thesis
  proof (cases m)
    case (RequestVote t lli llt)
    obtain n' where n': "handle_request_vote mem_ops from t lli llt n1 = (Inr (), n')" "sim_to ids i a1 n'"
      by (rule sim_request_vote[OF a1(2) msg[unfolded RequestVote] assms(3)]) (use n1(3) RequestVote in auto)
    show ?thesis by (rule fin[OF _ n'(2)]) (simp add: eq[unfolded RequestVote] n'(1) RequestVote)
  next
    case (RequestVoteResp t g)
    obtain n' where n': "handle_vote_resp mem_ops from t g n1 = (Inr (), n')" "sim_to ids i a1 n'"
      by (rule sim_vote_resp[OF a1(2) msg[unfolded RequestVoteResp] assms(3)])
    show ?thesis by (rule fin[OF _ n'(2)]) (simp add: eq[unfolded RequestVoteResp] n'(1) RequestVoteResp)
  next
    case (AppendEntries t pli plt es lc)
    obtain n' where n': "handle_append_entries mem_ops from t pli plt es lc n1 = (Inr (), n')" "sim_to ids i a1 n'"
      by (rule sim_append_entries[OF a1(2) msg[unfolded AppendEntries] assms(3)])
    show ?thesis by (rule fin[OF _ n'(2)]) (simp add: eq[unfolded AppendEntries] n'(1) AppendEntries)
  next
    case (AppendEntriesResp t ok mi)
    obtain n' where n': "handle_append_resp mem_ops from t ok mi n1 = (Inr (), n')" "sim_to ids i a1 n'"
      by (rule sim_append_resp[OF a1(2) msg[unfolded AppendEntriesResp] assms(3)])
    show ?thesis by (rule fin[OF _ n'(2)]) (simp add: eq[unfolded AppendEntriesResp] n'(1) AppendEntriesResp)
  qed
qed

lemma sim_take_committed: "node_rel ids i a n \<Longrightarrow> node_rel ids i a (snd (take_committed mem_ops n))"
  by (simp add: take_committed_def)

lemma sim_restart:
  assumes "node_rel ids i a n"
  shows "sim_to ids i a (node_new mem_ops (rn_config n) (rn_storage n))"
proof -
  let ?a = "a\<lparr>a_role := (a_role a)(i := Follower)\<rparr>"
  have s: "astep (is_majority ids) a ?a"
    using astep.Follow[of a i "a_term a i" "is_majority ids"] by (simp add: fun_upd_idem)
  have "areach (is_majority ids) a" using assms by (simp add: node_rel_def)
  then have "areach (is_majority ids) ?a" using s areach.areach_step by blast
  then have "node_rel ids i ?a (node_new mem_ops (rn_config n) (rn_storage n))"
    using assms by (simp add: node_new_def Let_def node_rel_def out_ok_def)
  then show ?thesis by (intro sim_to_step[OF s]) (auto simp: same_at_def intro: sim_to_refl)
qed

end
