(* ===== verification/Raft_Network.thy ===== *)
theory Raft_Network
  imports Raft_Refine
begin

text \<open>
  A cluster of in-memory nodes over an unreliable network.  The network keeps every message
  ever sent: a message may be delivered late, out of order, several times or never.  A node
  may tick, campaign, accept a proposal, handle a message, hand out its committed entries,
  or crash and be rebuilt from its storage.  Every such run implements the abstract
  protocol, which gives the safety properties of the cluster.
\<close>


section \<open>A cluster over an unreliable network\<close>

record net =
  nd :: "node_id \<Rightarrow> mem_storage raft_node"
  wire :: "(node_id \<times> node_id \<times> message) set"

definition flush :: "node_id \<Rightarrow> mem_storage raft_node \<Rightarrow> net \<Rightarrow> net" where
  "flush i n s =
     s\<lparr>nd := (nd s)(i := n\<lparr>outbox := []\<rparr>),
       wire := wire s \<union> (\<lambda>e. (i, env_to e, env_message e)) ` set (outbox n)\<rparr>"

inductive nstep :: "node_id list \<Rightarrow> net \<Rightarrow> net \<Rightarrow> bool" for ids where
  NTick: "i \<in> set ids \<Longrightarrow> nstep ids s (flush i (tick mem_ops (nd s i)) s)"
| NCampaign: "i \<in> set ids \<Longrightarrow> nstep ids s (flush i (campaign mem_ops (nd s i)) s)"
| NPropose: "i \<in> set ids \<Longrightarrow> nstep ids s (flush i (snd (propose mem_ops cmd (nd s i))) s)"
| NDeliver: "(j, i, m) \<in> wire s \<Longrightarrow> nstep ids s (flush i (snd (step mem_ops j m (nd s i))) s)"
| NApply: "i \<in> set ids \<Longrightarrow> nstep ids s (flush i (snd (take_committed mem_ops (nd s i))) s)"
| NRestart: "i \<in> set ids \<Longrightarrow>
   nstep ids s (flush i (node_new mem_ops (rn_config (nd s i)) (rn_storage (nd s i))) s)"

definition net_init :: "node_id list \<Rightarrow> net \<Rightarrow> bool" where
  "net_init ids s \<longleftrightarrow>
     wire s = {} \<and>
     (\<forall>i \<in> set ids. \<exists>c. member_config ids i c \<and> nd s i = node_new mem_ops c mem_new)"

inductive nreach :: "node_id list \<Rightarrow> net \<Rightarrow> bool" for ids where
  nreach_init: "net_init ids s \<Longrightarrow> nreach ids s"
| nreach_step: "nreach ids s \<Longrightarrow> nstep ids s s' \<Longrightarrow> nreach ids s'"

definition net_rel :: "node_id list \<Rightarrow> net \<Rightarrow> astate \<Rightarrow> bool" where
  "net_rel ids s a \<longleftrightarrow>
     areach (is_majority ids) a \<and> (\<forall>i \<in> set ids. node_rel ids i a (nd s i)) \<and>
     (\<forall>(j, i, m) \<in> wire s. j \<in> set ids \<and> i \<in> set ids \<and> (j, i, m) \<in> a_msgs a)"

lemma net_rel_init:
  assumes "net_init ids s"
  shows "net_rel ids s a_init"
proof -
  have "node_rel ids i a_init (nd s i)" if i: "i \<in> set ids" for i
  proof -
    obtain c where "member_config ids i c" "nd s i = node_new mem_ops c mem_new"
      using assms i by (auto simp: net_init_def)
    then show ?thesis
      by (simp add: node_new_def Let_def node_rel_def a_init_def[symmetric] areach.areach_init out_ok_def)
        (simp add: a_init_def mem_new_def hard_state_default_def)
  qed
  then show ?thesis using assms by (simp add: net_rel_def net_init_def areach.areach_init)
qed

lemma net_rel_flush:
  assumes "net_rel ids s a" "i \<in> set ids" "sim_to ids i a n"
  shows "\<exists>a'. (astep (is_majority ids))\<^sup>*\<^sup>* a a' \<and> net_rel ids (flush i n s) a'"
proof -
  obtain a' where a': "runs ids i a a'" "node_rel ids i a' n" using assms(3) by (auto simp: sim_to_def)
  have e: "areach (is_majority ids) a'" "ext a a'"
    using runs_ext[OF a'(1)] assms(1) by (auto simp: net_rel_def)
  have "node_rel ids j a' (nd (flush i n s) j)" if "j \<in> set ids" for j
    using that assms(1) a' node_rel_frame[of ids j a "nd s j" i a']
    by (cases "j = i") (auto simp: flush_def net_rel_def node_rel_def out_ok_def)
  moreover have "\<forall>(j, k, m) \<in> wire (flush i n s). j \<in> set ids \<and> k \<in> set ids \<and> (j, k, m) \<in> a_msgs a'"
    using assms(1,2) a'(2) extD(4)[OF e(2)] by (auto simp: flush_def net_rel_def node_rel_def out_ok_def)
  ultimately show ?thesis using e(1) a'(1) by (auto simp: net_rel_def runs_def)
qed

lemma net_rel_step:
  assumes "net_rel ids s a" "nstep ids s s'"
  shows "\<exists>a'. (astep (is_majority ids))\<^sup>*\<^sup>* a a' \<and> net_rel ids s' a'"
proof -
  have rel: "node_rel ids i a (nd s i)" if "i \<in> set ids" for i using assms(1) that by (simp add: net_rel_def)
  from assms(2) show ?thesis
  proof cases
    case (NTick i)
    then show ?thesis using net_rel_flush[OF assms(1)] sim_tick[OF rel] by blast
  next
    case (NCampaign i)
    then show ?thesis using net_rel_flush[OF assms(1)] sim_campaign[OF rel] by blast
  next
    case (NPropose i cmd)
    obtain r n' where n': "propose mem_ops cmd (nd s i) = (r, n')" "sim_to ids i a n'"
      by (rule sim_propose[OF rel[OF NPropose(2)]])
    then show ?thesis using net_rel_flush[OF assms(1) NPropose(2) n'(2)] NPropose(1) by simp
  next
    case (NDeliver j i m)
    then have m: "i \<in> set ids" "j \<in> set ids" "(j, i, m) \<in> a_msgs a" using assms(1) by (auto simp: net_rel_def)
    obtain n' where n': "step mem_ops j m (nd s i) = (Inr (), n')" "sim_to ids i a n'"
      by (rule sim_step[OF rel[OF m(1)] m(3,2)])
    then show ?thesis using net_rel_flush[OF assms(1) m(1) n'(2)] NDeliver(1) by simp
  next
    case (NApply i)
    then show ?thesis
      using net_rel_flush[OF assms(1)] sim_to_refl[OF sim_take_committed[OF rel]] by blast
  next
    case (NRestart i)
    then show ?thesis using net_rel_flush[OF assms(1)] sim_restart[OF rel] by blast
  qed
qed

lemma net_refines: "nreach ids s \<Longrightarrow> \<exists>a. net_rel ids s a"
proof (induction rule: nreach.induct)
  case (nreach_init s)
  then show ?case using net_rel_init by blast
next
  case (nreach_step s s')
  then show ?case using net_rel_step by blast
qed

lemma net_refines_steps:
  assumes "(nstep ids)\<^sup>*\<^sup>* s s'" "net_rel ids s a"
  shows "\<exists>a'. (astep (is_majority ids))\<^sup>*\<^sup>* a a' \<and> net_rel ids s' a'"
  using assms
proof (induction rule: rtranclp_induct)
  case (step u v)
  then obtain b where "(astep (is_majority ids))\<^sup>*\<^sup>* a b" "net_rel ids u b" by blast
  then show ?case using net_rel_step[OF _ step(2)] by (meson rtranclp_trans)
qed blast

text \<open>What a node's record says of the abstract state.\<close>

definition node_log :: "net \<Rightarrow> node_id \<Rightarrow> log_entry list" where
  "node_log s i = mem_entries (rn_storage (nd s i))"

lemma net_relD:
  assumes "net_rel ids s a" "i \<in> set ids"
  shows "a_log a i = node_log s i" "a_role a i = role (nd s i)"
    "a_term a i = node_term mem_ops (nd s i)" "a_commit a i = commit_index (nd s i)"
  using assms by (auto simp: net_rel_def node_rel_def node_log_def node_term_def)

lemma committed_loop_eq:
  assumes "1 \<le> k" "c \<le> length (mem_entries st)"
  shows "committed_loop mem_ops st k c out = out @ drop (k - 1) (take c (mem_entries st))"
  using assms
proof (induction "mem_ops" st k c out rule: committed_loop.induct)
  case (1 st k c out)
  show ?case
  proof (cases "k \<le> c")
    case True
    have "entry_at_op mem_ops st k = Some (mem_entries st ! (k - 1))"
      using True 1 by (simp add: mem_entry_at_def vec_get_def)
    moreover have "drop (k - 1) (take c (mem_entries st)) =
        mem_entries st ! (k - 1) # drop (Suc (k - 1)) (take c (mem_entries st))"
      using True 1(2,3) by (subst Cons_nth_drop_Suc[symmetric]) auto
    ultimately show ?thesis
      using True 1 by (subst committed_loop.simps) (simp add: index_next_def)
  next
    case False
    then show ?thesis by (subst committed_loop.simps) simp
  qed
qed

end
