(* ===== verification/Raft_Sim.thy ===== *)
theory Raft_Sim
  imports Raft_Network
begin

text \<open>
  \<open>crates/auradb-raft/src/sim.rs\<close>: the in-process harness that drives a cluster of in-memory
  nodes over a message queue, with partitions.  A Rust panic (\<open>expect\<close>, the convergence
  assertion of \<open>deliver_all\<close>) is the value \<open>None\<close>.  Every run of the harness is a run of the
  network model, and no operation but \<open>deliver_all\<close>, whose bound of 100000 deliveries is its
  own, can panic.
\<close>

section \<open>State\<close>

record in_flight =
  if_from :: node_id
  if_envelope :: envelope

record sim =
  sim_nodes :: "(node_id, mem_storage raft_node) omap"
  order :: "node_id list"
  bus :: "in_flight list"
  partitioned :: "node_id list"

section \<open>Operations\<close>

definition sim_config :: "node_id list \<Rightarrow> u32 \<Rightarrow> u32 \<Rightarrow> u32 \<Rightarrow> node_id \<Rightarrow> raft_config" where
  "sim_config ids emin emax hb i =
     \<lparr>cfg_id = i, cfg_peers = filter (\<lambda>p. p \<noteq> i) ids, election_timeout_min = emin,
      election_timeout_max = emax, heartbeat_interval = hb\<rparr>"

definition sim_with_timeouts :: "node_id list \<Rightarrow> u32 \<Rightarrow> u32 \<Rightarrow> u32 \<Rightarrow> sim" where
  "sim_with_timeouts ids emin emax hb =
     \<lparr>sim_nodes = fold (\<lambda>i m. om_insert i (node_new mem_ops (sim_config ids emin emax hb i) mem_new) m) ids [],
      order = ids, bus = [], partitioned = []\<rparr>"

definition sim_new :: "node_id list \<Rightarrow> sim" where
  "sim_new ids = sim_with_timeouts ids 10 20 3"

definition sim_partition :: "node_id \<Rightarrow> sim \<Rightarrow> sim" where
  "sim_partition i s = s\<lparr>partitioned := List.insert i (partitioned s)\<rparr>"

definition sim_heal :: "node_id \<Rightarrow> sim \<Rightarrow> sim" where
  "sim_heal i s = s\<lparr>partitioned := removeAll i (partitioned s)\<rparr>"

definition sim_collect :: "node_id \<Rightarrow> sim \<Rightarrow> sim option" where
  "sim_collect i s =
     (case om_get (sim_nodes s) i of
        None \<Rightarrow> None
      | Some n \<Rightarrow>
          (let (msgs, n) = take_messages n;
               s = s\<lparr>sim_nodes := om_insert i n (sim_nodes s)\<rparr>
           in Some (if i \<in> set (partitioned s) then s
                    else s\<lparr>bus := bus s @ map (\<lambda>e. \<lparr>if_from = i, if_envelope = e\<rparr>) msgs\<rparr>)))"

fun sim_tick_loop :: "node_id list \<Rightarrow> sim \<Rightarrow> sim option" where
  "sim_tick_loop [] s = Some s"
| "sim_tick_loop (i # is) s =
     (case om_get (sim_nodes s) i of
        None \<Rightarrow> None
      | Some n \<Rightarrow>
          (case sim_collect i (s\<lparr>sim_nodes := om_insert i (tick mem_ops n) (sim_nodes s)\<rparr>) of
             None \<Rightarrow> None
           | Some s \<Rightarrow> sim_tick_loop is s))"

definition sim_tick :: "sim \<Rightarrow> sim option" where
  "sim_tick s = sim_tick_loop (order s) s"

definition sim_propose :: "node_id \<Rightarrow> command \<Rightarrow> sim \<Rightarrow> (raft_error, log_index, sim) result_st option" where
  "sim_propose i cmd s =
     (case om_get (sim_nodes s) i of
        None \<Rightarrow> None
      | Some n \<Rightarrow>
          (case propose mem_ops cmd n of
             (Inl e, n) \<Rightarrow> Some (Inl e, s\<lparr>sim_nodes := om_insert i n (sim_nodes s)\<rparr>)
           | (Inr index, n) \<Rightarrow>
               map_option (Pair (Inr index)) (sim_collect i (s\<lparr>sim_nodes := om_insert i n (sim_nodes s)\<rparr>))))"

fun sim_deliver_loop :: "in_flight list \<Rightarrow> sim \<Rightarrow> (bool \<times> sim) option" where
  "sim_deliver_loop [] s = Some (False, s\<lparr>bus := []\<rparr>)"
| "sim_deliver_loop (f # fs) s =
     (let to = env_to (if_envelope f) in
      if to \<in> set (partitioned s) \<or> if_from f \<in> set (partitioned s) then sim_deliver_loop fs s
      else
        (let s = s\<lparr>bus := fs\<rparr> in
         case om_get (sim_nodes s) to of
           None \<Rightarrow> Some (True, s)
         | Some n \<Rightarrow>
             (case step mem_ops (if_from f) (env_message (if_envelope f)) n of
                (Inl e, n) \<Rightarrow> None
              | (Inr _, n) \<Rightarrow>
                  map_option (Pair True)
                    (sim_collect to (s\<lparr>sim_nodes := om_insert to n (sim_nodes s)\<rparr>)))))"

definition sim_deliver_one :: "sim \<Rightarrow> (bool \<times> sim) option" where
  "sim_deliver_one s = sim_deliver_loop (bus s) s"

function sim_deliver_all_loop :: "nat \<Rightarrow> sim \<Rightarrow> sim option" where
  "sim_deliver_all_loop guard s =
     (case sim_deliver_one s of
        None \<Rightarrow> None
      | Some (False, s) \<Rightarrow> Some s
      | Some (True, s) \<Rightarrow>
          if guard + 1 < 100000 then sim_deliver_all_loop (guard + 1) s else None)"
  by pat_completeness auto
termination
  by (relation "measure (\<lambda>(guard, s). 100000 - guard)") auto

declare sim_deliver_all_loop.simps [simp del]

definition sim_deliver_all :: "sim \<Rightarrow> sim option" where
  "sim_deliver_all s = sim_deliver_all_loop 0 s"

definition sim_leader :: "sim \<Rightarrow> node_id option" where
  "sim_leader s =
     (let leaders = filter (\<lambda>i. map_option role (om_get (sim_nodes s) i) = Some Leader) (order s)
      in if length leaders = 1 then Some (leaders ! 0) else None)"

definition sim_round :: "sim \<Rightarrow> sim option" where
  "sim_round s = (case sim_tick s of None \<Rightarrow> None | Some s \<Rightarrow> sim_deliver_all s)"

fun sim_run_until_leader :: "nat \<Rightarrow> sim \<Rightarrow> (node_id option \<times> sim) option" where
  "sim_run_until_leader 0 s = Some (sim_leader s, s)"
| "sim_run_until_leader (Suc k) s =
     (case sim_round s of
        None \<Rightarrow> None
      | Some s \<Rightarrow>
          (case sim_leader s of
             Some i \<Rightarrow> map_option (Pair (Some i)) (sim_round s)
           | None \<Rightarrow> sim_run_until_leader k s))"


text \<open>Delivering \<open>k\<close> queued messages, for runs shorter than \<open>deliver_all\<close>.\<close>

fun sim_deliver_n :: "nat \<Rightarrow> sim \<Rightarrow> sim option" where
  "sim_deliver_n 0 s = Some s"
| "sim_deliver_n (Suc k) s =
     (case sim_deliver_one s of None \<Rightarrow> None | Some (b, s) \<Rightarrow> sim_deliver_n k s)"

section \<open>Every simulation run is a run of the network\<close>

definition sim_rel :: "node_id list \<Rightarrow> sim \<Rightarrow> net \<Rightarrow> bool" where
  "sim_rel ids s t \<longleftrightarrow>
     order s = ids \<and> (\<forall>i. om_get (sim_nodes s) i = (if i \<in> set ids then Some (nd t i) else None)) \<and>
     (\<forall>i \<in> set ids. outbox (nd t i) = []) \<and>
     (\<forall>f \<in> set (bus s). (if_from f, env_to (if_envelope f), env_message (if_envelope f)) \<in> wire t)"

definition sim_ok :: "node_id list \<Rightarrow> sim \<Rightarrow> bool" where
  "sim_ok ids s \<longleftrightarrow> (\<exists>t. nreach ids t \<and> sim_rel ids s t)"

lemma sim_collect_ok:
  assumes "nreach ids t" "sim_rel ids s t" "i \<in> set ids" "nstep ids t (flush i n t)"
  shows "\<exists>s'. sim_collect i (s\<lparr>sim_nodes := om_insert i n (sim_nodes s)\<rparr>) = Some s' \<and>
    partitioned s' = partitioned s \<and> nreach ids (flush i n t) \<and> sim_rel ids s' (flush i n t)"
  using assms nreach.nreach_step[OF assms(1,4)]
  by (auto simp: sim_collect_def take_messages_def sim_rel_def flush_def Let_def)

lemma node_new_outbox [simp]: "outbox (node_new ops c st) = []"
  by (simp add: node_new_def Let_def)

lemma sim_ok_init:
  assumes "distinct ids"
  shows "sim_ok ids (sim_with_timeouts ids emin emax hb)"
proof -
  let ?f = "\<lambda>i. node_new mem_ops (sim_config ids emin emax hb i) mem_new"
  let ?t = "\<lparr>nd = ?f, wire = {}\<rparr>"
  have get: "om_get (fold (\<lambda>i m. om_insert i (?f i) m) is m) k = (if k \<in> set is then Some (?f k) else om_get m k)"
    for "is" m k
    by (induction "is" arbitrary: m) auto
  have "net_init ids ?t"
    using assms
    by (auto simp: net_init_def member_config_def sim_config_def intro!: exI[of _ "sim_config ids emin emax hb i" for i])
  moreover have "sim_rel ids (sim_with_timeouts ids emin emax hb) ?t"
    by (simp add: sim_rel_def sim_with_timeouts_def get)
  ultimately show ?thesis unfolding sim_ok_def by (blast intro: nreach.nreach_init)
qed

lemma sim_tick_loop_ok:
  "sim_ok ids s \<Longrightarrow> set is \<subseteq> set ids \<Longrightarrow> \<exists>s'. sim_tick_loop is s = Some s' \<and> sim_ok ids s'"
proof (induction "is" arbitrary: s)
  case (Cons i "is")
  obtain t where t: "nreach ids t" "sim_rel ids s t" using Cons.prems(1) by (auto simp: sim_ok_def)
  have i: "i \<in> set ids" "om_get (sim_nodes s) i = Some (nd t i)" using t(2) Cons.prems(2) by (auto simp: sim_rel_def)
  obtain s' where s': "sim_collect i (s\<lparr>sim_nodes := om_insert i (tick mem_ops (nd t i)) (sim_nodes s)\<rparr>) = Some s'"
    "sim_ok ids s'"
    using sim_collect_ok[OF t i(1) nstep.NTick[OF i(1)]] by (auto simp: sim_ok_def)
  then show ?case using Cons.IH[OF s'(2)] Cons.prems(2) i(2) by simp
qed simp

lemma sim_ok_order: "sim_ok ids s \<Longrightarrow> order s = ids"
  by (auto simp: sim_ok_def sim_rel_def)

lemma sim_tick_ok: "sim_ok ids s \<Longrightarrow> \<exists>s'. sim_tick s = Some s' \<and> sim_ok ids s'"
  using sim_tick_loop_ok[of ids s "order s"] sim_ok_order[of ids s] by (simp add: sim_tick_def)

lemma sim_propose_ok:
  assumes "sim_ok ids s" "i \<in> set ids"
  shows "\<exists>r s'. sim_propose i cmd s = Some (r, s') \<and> sim_ok ids s'"
proof -
  obtain t where t: "nreach ids t" "sim_rel ids s t" using assms(1) by (auto simp: sim_ok_def)
  have i: "om_get (sim_nodes s) i = Some (nd t i)" using t(2) assms(2) by (auto simp: sim_rel_def)
  obtain a where "net_rel ids t a" using net_refines[OF t(1)] by blast
  then have "node_rel ids i a (nd t i)" using assms(2) by (simp add: net_rel_def)
  then obtain r n' where p: "propose mem_ops cmd (nd t i) = (r, n')"
    "r = (if role (nd t i) = Leader then Inr (length (mem_entries (rn_storage (nd t i))) + 1)
          else Inl (NotLeader (leader_id (nd t i))))"
    by (rule Raft_Refine.sim_propose)
  show ?thesis
  proof (cases "role (nd t i) = Leader")
    case True
    have st: "nstep ids t (flush i n' t)" using nstep.NPropose[OF assms(2), of t cmd] p(1) by simp
    then show ?thesis
      using sim_collect_ok[OF t assms(2) st] p True i by (auto simp: sim_propose_def sim_ok_def)
  next
    case False
    then have "n' = nd t i" using p(1) by (simp add: propose_def)
    then have "sim_rel ids (s\<lparr>sim_nodes := om_insert i n' (sim_nodes s)\<rparr>) t"
      using t(2) assms(2) by (auto simp: sim_rel_def)
    then show ?thesis using p False i t(1) by (auto simp: sim_propose_def sim_ok_def)
  qed
qed

lemma sim_deliver_loop_ok:
  assumes "nreach ids t"
  shows "sim_rel ids (s\<lparr>bus := fs\<rparr>) t \<Longrightarrow> \<exists>b s'. sim_deliver_loop fs s = Some (b, s') \<and> sim_ok ids s'"
proof (induction fs)
  case Nil
  then show ?case using assms by (auto simp: sim_ok_def)
next
  case (Cons f fs)
  let ?to = "env_to (if_envelope f)"
  have rel: "sim_rel ids (s\<lparr>bus := fs\<rparr>) t" using Cons.prems by (simp add: sim_rel_def)
  show ?case
  proof (cases "?to \<in> set (partitioned s) \<or> if_from f \<in> set (partitioned s)")
    case True
    then show ?thesis using Cons.IH[OF rel] by (simp add: Let_def)
  next
    case False
    obtain a where a: "net_rel ids t a" using net_refines[OF assms] by blast
    have w: "(if_from f, ?to, env_message (if_envelope f)) \<in> wire t" using Cons.prems by (simp add: sim_rel_def)
    then have m: "if_from f \<in> set ids" "?to \<in> set ids" "(if_from f, ?to, env_message (if_envelope f)) \<in> a_msgs a"
      "node_rel ids ?to a (nd t ?to)"
      using a by (auto simp: net_rel_def)
    obtain n' where n': "step mem_ops (if_from f) (env_message (if_envelope f)) (nd t ?to) = (Inr (), n')"
      by (rule sim_step[OF m(4,3,1)])
    have st: "nstep ids t (flush ?to n' t)" using nstep.NDeliver[OF w, of ids] n' by simp
    have "om_get (sim_nodes s) ?to = Some (nd t ?to)" using rel m(2) by (simp add: sim_rel_def)
    then show ?thesis
      using sim_collect_ok[OF assms rel m(2) st] n' False by (auto simp: Let_def sim_ok_def)
  qed
qed

lemma sim_deliver_one_ok:
  assumes "sim_ok ids s"
  shows "\<exists>b s'. sim_deliver_one s = Some (b, s') \<and> sim_ok ids s'"
  using assms sim_deliver_loop_ok[where fs = "bus s" and s = s and ids = ids] by (auto simp: sim_ok_def sim_deliver_one_def)

lemma sim_deliver_all_ok: "sim_ok ids s \<Longrightarrow> sim_deliver_all_loop g s = Some s' \<Longrightarrow> sim_ok ids s'"
proof (induction g s rule: sim_deliver_all_loop.induct)
  case (1 g s)
  obtain b u where u: "sim_deliver_one s = Some (b, u)" "sim_ok ids u" using sim_deliver_one_ok[OF 1(2)] by blast
  then show ?case
    using 1 by (subst (asm) (2) sim_deliver_all_loop.simps) (auto split: bool.splits if_splits)
qed


section \<open>Runs of the harness\<close>

inductive sim_reach :: "node_id list \<Rightarrow> sim \<Rightarrow> bool" for ids where
  SNew: "distinct ids \<Longrightarrow> sim_reach ids (sim_with_timeouts ids emin emax hb)"
| STick: "sim_reach ids s \<Longrightarrow> sim_tick s = Some s' \<Longrightarrow> sim_reach ids s'"
| SPropose: "sim_reach ids s \<Longrightarrow> sim_propose i cmd s = Some (r, s') \<Longrightarrow> sim_reach ids s'"
| SDeliver: "sim_reach ids s \<Longrightarrow> sim_deliver_one s = Some (b, s') \<Longrightarrow> sim_reach ids s'"
| SPartition: "sim_reach ids s \<Longrightarrow> sim_reach ids (sim_partition i s)"
| SHeal: "sim_reach ids s \<Longrightarrow> sim_reach ids (sim_heal i s)"

lemma sim_reach_ok: "sim_reach ids s \<Longrightarrow> sim_ok ids s"
proof (induction rule: sim_reach.induct)
  case (SNew emin emax hb)
  then show ?case by (rule sim_ok_init)
next
  case (STick s s')
  then show ?case using sim_tick_ok[OF STick(3)] by auto
next
  case (SPropose s i cmd r s')
  have "i \<in> set ids"
    using SPropose by (auto simp: sim_propose_def sim_ok_def sim_rel_def split: if_splits)
  then show ?case using sim_propose_ok[OF SPropose(3), of i cmd] SPropose(2) by auto
next
  case (SDeliver s b s')
  then show ?case using sim_deliver_one_ok[OF SDeliver(3)] by auto
qed (auto simp: sim_ok_def sim_rel_def sim_partition_def sim_heal_def)

end
