(* ===== verification/Raft_Cluster.thy ===== *)
theory Raft_Cluster
  imports Raft_Sim
begin

text \<open>
  The safety properties of a Raft cluster, stated over the nodes of \<open>node.rs\<close> on in-memory
  storage and over the harness of \<open>sim.rs\<close>, with a concrete three-node run in which a leader
  is elected and two commands commit.
\<close>

section \<open>A concrete run\<close>

definition demo_elected :: sim where
  "demo_elected = the (sim_deliver_n 6 (the (sim_tick (sim_with_timeouts [1, 2, 3] 1 2 5))))"

definition demo_committed :: sim where
  "demo_committed =
     the (sim_deliver_n 4 (snd (the (sim_propose 2 (command_new Database [9])
       (the (sim_deliver_n 6 (snd (the (sim_propose 2 (command_new Database [7]) demo_elected)))))))))"

lemma sim_deliver_n_reach: "sim_reach ids s \<Longrightarrow> sim_deliver_n k s = Some s' \<Longrightarrow> sim_reach ids s'"
  by (induction k arbitrary: s) (auto split: option.splits intro: sim_reach.SDeliver)

lemma sim_deliver_n_total: "sim_reach ids s \<Longrightarrow> sim_reach ids (the (sim_deliver_n k s))"
proof (induction k arbitrary: s)
  case (Suc k)
  obtain b s' where s': "sim_deliver_one s = Some (b, s')"
    using sim_deliver_one_ok[OF sim_reach_ok[OF Suc.prems]] by blast
  then show ?case using Suc.IH[OF sim_reach.SDeliver[OF Suc.prems s']] by simp
qed simp

lemma sim_tick_total: "sim_reach ids s \<Longrightarrow> sim_reach ids (the (sim_tick s))"
  using sim_tick_ok[OF sim_reach_ok] sim_reach.STick by fastforce

lemma sim_propose_total: "sim_reach ids s \<Longrightarrow> i \<in> set ids \<Longrightarrow> sim_reach ids (snd (the (sim_propose i cmd s)))"
  using sim_propose_ok[OF sim_reach_ok, of ids s i cmd] sim_reach.SPropose[of ids s i cmd] by fastforce

lemma demo_reach: "sim_reach [1, 2, 3] demo_elected" "sim_reach [1, 2, 3] demo_committed"
proof -
  show e: "sim_reach [1, 2, 3] demo_elected"
    unfolding demo_elected_def by (intro sim_deliver_n_total sim_tick_total sim_reach.SNew) simp
  show "sim_reach [1, 2, 3] demo_committed"
    unfolding demo_committed_def by (intro sim_deliver_n_total sim_propose_total e) simp_all
qed

lemma demo_net:
  "\<exists>t. nreach [1, 2, 3] t \<and> role (nd t 2) = Leader \<and> node_term mem_ops (nd t 2) = 1 \<and>
     commit_index (nd t 1) = 2 \<and> commit_index (nd t 2) = 3 \<and> length (node_log t 1) = 3 \<and>
     last_applied (nd t 2) = 0 \<and> map entry_term (node_log t 2) = [1, 1, 1] \<and>
     map entry_term (node_log t 1) = [1, 1, 1] \<and> node_term mem_ops (nd t 1) = 1"
proof -
  have ev: "map (\<lambda>(i, n). (i, role n, node_term mem_ops n, commit_index n, last_applied n,
      map entry_term (mem_entries (rn_storage n)))) (sim_nodes demo_committed) =
    [(1, Follower, 1, 2, 0, [1, 1, 1]), (2, Leader, 1, 3, 0, [1, 1, 1]), (3, Follower, 1, 2, 0, [1, 1, 1])]"
    by code_simp
  obtain t where t: "nreach [1, 2, 3] t" "sim_rel [1, 2, 3] demo_committed t"
    using sim_reach_ok[OF demo_reach(2)] by (auto simp: sim_ok_def)
  have "om_get (sim_nodes demo_committed) 1 = Some (nd t 1)" "om_get (sim_nodes demo_committed) 2 = Some (nd t 2)"
    using t(2) by (auto simp: sim_rel_def)
  then show ?thesis
    using t(1) ev
    by (intro exI[of _ t]) (auto simp: map_eq_Cons_conv om_get_def node_log_def dest!: arg_cong[of _ "[_]" length])
qed

section \<open>Safety of the cluster\<close>

text \<open>C1. Election safety: in every reachable state of a cluster over the unreliable network,
  with crashes and restarts, two leaders of one term are the same node.\<close>

theorem election_safety:
  assumes "nreach ids s" "i \<in> set ids" "j \<in> set ids" "is_leader (nd s i)" "is_leader (nd s j)"
    "node_term mem_ops (nd s i) = node_term mem_ops (nd s j)"
  shows "i = j"
proof -
  obtain a where a: "net_rel ids s a" using net_refines[OF assms(1)] by blast
  show ?thesis
    by (rule maj.one_leader[of ids a]) (use a assms net_relD[OF a] in \<open>auto simp: net_rel_def is_leader_def\<close>)
qed

theorem election_safety_witness:
  "\<exists>s. nreach [1, 2, 3] s \<and> is_leader (nd s 2) \<and>
     (\<forall>j \<in> {1, 2, 3}. is_leader (nd s j) \<and> node_term mem_ops (nd s j) = node_term mem_ops (nd s 2) \<longrightarrow> j = 2)"
proof -
  obtain t where t: "nreach [1, 2, 3] t" "role (nd t 2) = Leader" using demo_net by blast
  have "j = 2" if "j \<in> {1, 2, 3}" "is_leader (nd t j)" "node_term mem_ops (nd t j) = node_term mem_ops (nd t 2)" for j
    by (rule election_safety[OF t(1)]) (use that t(2) in \<open>auto simp: is_leader_def\<close>)
  moreover have "is_leader (nd t 2)" using t(2) by (simp add: is_leader_def)
  ultimately show ?thesis using t(1) by blast
qed

text \<open>C5. Log matching: when two nodes' logs hold entries of the same term at one index, the
  logs are identical up to that index.\<close>

theorem log_matching_property:
  assumes "nreach ids s" "i \<in> set ids" "j \<in> set ids"
    "mem_entry_at (rn_storage (nd s i)) k = Some e" "mem_entry_at (rn_storage (nd s j)) k = Some f"
    "entry_term e = entry_term f"
  shows "e = f \<and> take k (node_log s i) = take k (node_log s j)"
proof -
  obtain a where a: "net_rel ids s a" using net_refines[OF assms(1)] by blast
  have k: "k \<noteq> 0" "k - 1 < length (node_log s i)" "e = node_log s i ! (k - 1)"
    "k - 1 < length (node_log s j)" "f = node_log s j ! (k - 1)"
    using assms(4,5) by (auto simp: mem_entry_at_def vec_get_def node_log_def split: if_splits)
  have "take (Suc (k - 1)) (node_log s i) = take (Suc (k - 1)) (node_log s j)"
    using maj.logs_match[of ids a "k - 1" i j] a k assms(6) net_relD(1)[OF a] assms(2,3) by (simp add: net_rel_def)
  then show ?thesis using k nth_take[of "k - 1" k] by (metis Suc_diff_1 gr0I lessI)
qed

theorem log_matching_witness:
  "\<exists>s e f. nreach [1, 2, 3] s \<and> mem_entry_at (rn_storage (nd s 1)) 3 = Some e \<and>
     mem_entry_at (rn_storage (nd s 2)) 3 = Some f \<and> entry_term e = entry_term f \<and>
     e = f \<and> take 3 (node_log s 1) = take 3 (node_log s 2)"
proof -
  obtain t where t: "nreach [1, 2, 3] t" "map entry_term (node_log t 2) = [1, 1, 1]"
     "map entry_term (node_log t 1) = [1, 1, 1]" using demo_net by auto
  obtain e f where ef: "mem_entry_at (rn_storage (nd t 1)) 3 = Some e" "mem_entry_at (rn_storage (nd t 2)) 3 = Some f"
    "entry_term e = entry_term f"
    using t(2,3) by (auto simp: map_eq_Cons_conv mem_entry_at_def vec_get_def node_log_def)
  have "e = f \<and> take 3 (node_log t 1) = take 3 (node_log t 2)"
    by (rule log_matching_property[OF t(1) _ _ ef]) simp_all
  then show ?thesis using t(1) ef by blast
qed

text \<open>C3. Leader completeness: a leader's log contains every entry any node of the same or an
  earlier term has committed.\<close>

theorem leader_completeness:
  assumes "nreach ids s" "l \<in> set ids" "i \<in> set ids" "is_leader (nd s l)"
    "node_term mem_ops (nd s i) \<le> node_term mem_ops (nd s l)" "c \<le> commit_index (nd s i)"
  shows "c \<le> last_log_index mem_ops (nd s l) \<and> take c (node_log s l) = take c (node_log s i)"
proof -
  obtain a where a: "net_rel ids s a" using net_refines[OF assms(1)] by blast
  show ?thesis
    using maj.leader_complete[of ids a l i c] a assms net_relD[OF a]
    by (simp add: net_rel_def is_leader_def last_log_index_def mem_last_index_def node_log_def)
qed

theorem leader_completeness_witness:
  "\<exists>s. nreach [1, 2, 3] s \<and> is_leader (nd s 2) \<and> commit_index (nd s 1) = 2 \<and>
     2 \<le> last_log_index mem_ops (nd s 2) \<and> take 2 (node_log s 2) = take 2 (node_log s 1)"
proof -
  obtain t where t: "nreach [1, 2, 3] t" "role (nd t 2) = Leader" "node_term mem_ops (nd t 2) = 1"
     "commit_index (nd t 1) = 2" "node_term mem_ops (nd t 1) = 1" using demo_net by blast
  have "2 \<le> last_log_index mem_ops (nd t 2) \<and> take 2 (node_log t 2) = take 2 (node_log t 1)"
    by (rule leader_completeness[OF t(1)]) (use t in \<open>simp_all add: is_leader_def\<close>)
  then show ?thesis using t by (auto simp: is_leader_def)
qed

text \<open>C2. State machine safety: any two nodes agree on every entry both have committed.\<close>

theorem state_machine_safety:
  assumes "nreach ids s" "i \<in> set ids" "j \<in> set ids"
    "c \<le> commit_index (nd s i)" "c \<le> commit_index (nd s j)"
  shows "take c (node_log s i) = take c (node_log s j)"
proof -
  obtain a where a: "net_rel ids s a" using net_refines[OF assms(1)] by blast
  show ?thesis
    using maj.commits_agree[of ids a c i j] a assms net_relD[OF a] by (simp add: net_rel_def)
qed

theorem state_machine_safety_witness:
  "\<exists>s. nreach [1, 2, 3] s \<and> commit_index (nd s 1) = 2 \<and> commit_index (nd s 2) = 3 \<and>
     take 2 (node_log s 1) = take 2 (node_log s 2)"
proof -
  obtain t where t: "nreach [1, 2, 3] t" "commit_index (nd t 1) = 2" "commit_index (nd t 2) = 3"
    using demo_net by blast
  have "take 2 (node_log t 1) = take 2 (node_log t 2)"
    by (rule state_machine_safety[OF t(1)]) (use t in simp_all)
  then show ?thesis using t by blast
qed

text \<open>C4. Commit durability: along any further run, crashes and restarts included, a node's
  commit index never decreases and the entries it had committed never change.\<close>

theorem commit_durability:
  assumes "nreach ids s" "(nstep ids)\<^sup>*\<^sup>* s s'" "i \<in> set ids"
  shows "commit_index (nd s i) \<le> commit_index (nd s' i) \<and>
    take (commit_index (nd s i)) (node_log s' i) = take (commit_index (nd s i)) (node_log s i)"
proof -
  obtain a where a: "net_rel ids s a" using net_refines[OF assms(1)] by blast
  obtain a' where a': "(astep (is_majority ids))\<^sup>*\<^sup>* a a'" "net_rel ids s' a'"
    using net_refines_steps[OF assms(2) a] by blast
  show ?thesis
    using maj.commit_stable[OF a'(1), of i] a net_relD[OF a assms(3)] net_relD[OF a'(2) assms(3)]
    by (simp add: net_rel_def)
qed

theorem commit_durability_witness:
  "\<exists>s s'. nreach [1, 2, 3] s \<and>
     s' = flush 2 (node_new mem_ops (rn_config (nd s 2)) (rn_storage (nd s 2))) s \<and>
     commit_index (nd s 2) = 3 \<and> 3 \<le> commit_index (nd s' 2) \<and> take 3 (node_log s' 2) = take 3 (node_log s 2)"
proof -
  obtain t where t: "nreach [1, 2, 3] t" "commit_index (nd t 2) = 3" using demo_net by blast
  let ?t = "flush 2 (node_new mem_ops (rn_config (nd t 2)) (rn_storage (nd t 2))) t"
  have "(nstep [1, 2, 3])\<^sup>*\<^sup>* t ?t" by (rule r_into_rtranclp) (rule nstep.NRestart, simp)
  from commit_durability[OF t(1) this, of 2] t show ?thesis by auto
qed

text \<open>C25. What a node hands to its state machine is exactly the committed entries after the
  last applied one, in log order, and applying them moves the applied mark to the commit
  index.\<close>

theorem take_committed_exact:
  assumes "nreach ids s" "i \<in> set ids" "take_committed mem_ops (nd s i) = (es, n)"
  shows "es = drop (last_applied (nd s i)) (take (commit_index (nd s i)) (node_log s i)) \<and>
    last_applied n = commit_index (nd s i) \<and> commit_index (nd s i) \<le> length (node_log s i)"
proof -
  obtain a where a: "net_rel ids s a" using net_refines[OF assms(1)] by blast
  then have "areach (is_majority ids) a" by (simp add: net_rel_def)
  then have "commit_index (nd s i) \<le> length (node_log s i)"
    using maj.cev_length[OF K1D[OF raft_invD(21)[OF maj.areach_inv]], of ids a i] net_relD[OF a assms(2)] by simp
  then show ?thesis
    using assms(3) committed_loop_eq[of "index_next (last_applied (nd s i))" "commit_index (nd s i)" "rn_storage (nd s i)" "[]"]
    by (auto simp: take_committed_def node_log_def index_next_def)
qed

theorem take_committed_exact_witness:
  "\<exists>s es n. nreach [1, 2, 3] s \<and> take_committed mem_ops (nd s 2) = (es, n) \<and> last_applied (nd s 2) = 0 \<and>
     commit_index (nd s 2) = 3 \<and> es = take 3 (node_log s 2) \<and> last_applied n = 3"
proof -
  obtain t where t: "nreach [1, 2, 3] t" "commit_index (nd t 2) = 3" "last_applied (nd t 2) = 0" using demo_net by blast
  obtain es n where e: "take_committed mem_ops (nd t 2) = (es, n)" by (cases "take_committed mem_ops (nd t 2)")
  show ?thesis using take_committed_exact[OF t(1) _ e] t e by auto
qed

text \<open>C26. The harness never panics outside \<open>deliver_all\<close>: ticking, proposing to a member and
  delivering the next message succeed in every reachable state; in particular \<open>step\<close> never
  returns an error on in-memory storage.\<close>

theorem sim_never_panics:
  assumes "sim_reach ids s" "i \<in> set ids"
  shows "sim_tick s \<noteq> None \<and> sim_propose i cmd s \<noteq> None \<and> sim_deliver_one s \<noteq> None"
  using sim_tick_ok[OF sim_reach_ok[OF assms(1)]] sim_propose_ok[OF sim_reach_ok[OF assms(1)] assms(2), of cmd]
    sim_deliver_one_ok[OF sim_reach_ok[OF assms(1)]] by auto

theorem sim_never_panics_witness:
  "sim_reach [1, 2, 3] demo_elected \<and> sim_tick demo_elected \<noteq> None \<and>
   sim_propose 1 command_noop demo_elected \<noteq> None \<and> sim_deliver_one demo_elected \<noteq> None"
  using sim_never_panics[OF demo_reach(1), of 1 command_noop] demo_reach(1) by simp

end
