(* ===== verification/Raft_File.thy ===== *)
theory Raft_File
  imports Raft_Store
begin

text \<open>
  \<open>crates/auradb-raft/src/storage.rs\<close>: the file-backed log with compaction.

  The disk is the contents of the three files.  Every I/O call takes the next outcome of
  the disk's script: \<open>IoOk\<close>, or \<open>IoFail k\<close> for an error after \<open>k\<close> bytes of the data reached
  the file; past the end of the script calls succeed.  A crash is a disk left behind: what
  a reopened store sees is the disk alone.  A power loss moreover cuts the log file down to any
  length not below \<open>d_synced\<close>, the length at its last \<open>sync_all\<close>; renames are taken to be
  durable at once.  The append handle stays on the file it was opened on: \<open>fs_attached\<close> is
  false while that is a log that a rename has replaced.  The JSON encoder and decoder and the CRC are
  third-party code and arguments (\<open>codec\<close>) of the operations that use them.
\<close>

section \<open>Disk, codec, state\<close>

record disk =
  d_log :: "u8 list option"
  d_state :: "u8 list option"
  d_compaction :: "u8 list option"
  d_synced :: nat
  d_script :: "io_outcome list"

record compaction_meta =
  cm_format_version :: nat
  cm_last_included_index :: nat
  cm_last_included_term :: nat

record codec =
  entry_to_vec :: "log_entry \<Rightarrow> u8 list option"
  entry_from_slice :: "u8 list \<Rightarrow> log_entry option"
  state_to_string :: "hard_state \<Rightarrow> u8 list option"
  state_from_str :: "u8 list \<Rightarrow> hard_state option"
  meta_to_string :: "compaction_meta \<Rightarrow> u8 list option"
  meta_from_str :: "u8 list \<Rightarrow> compaction_meta option"
  crc32 :: "u8 list \<Rightarrow> u32"

definition COMPACTION_FORMAT_VERSION :: nat where
  "COMPACTION_FORMAT_VERSION = 1"

record file_storage =
  fs_disk :: disk
  fs_entries :: "log_entry list"
  fs_hard_state :: hard_state
  fs_base_index :: log_index
  fs_base_term :: trm
  fs_attached :: bool

record compaction_outcome =
  co_compacted :: bool
  co_entries_discarded :: nat
  co_last_included_index :: log_index
  co_last_included_term :: trm
  co_last_index :: log_index
  co_dry_run :: bool

section \<open>I/O calls\<close>

definition io_next :: "disk \<Rightarrow> io_outcome \<times> disk" where
  "io_next d = (case d_script d of [] \<Rightarrow> (IoOk, d) | x # xs \<Rightarrow> (x, d\<lparr>d_script := xs\<rparr>))"

text \<open>A call with no effect on the three files: opening, reading, writing or syncing a
  temporary file.\<close>

definition io_call :: "disk \<Rightarrow> (raft_error, unit, disk) result_st" where
  "io_call d = (case io_next d of (IoOk, d) \<Rightarrow> (Inr (), d) | (IoFail _, d) \<Rightarrow> (Inl Io, d))"

text \<open>\<open>write_all\<close> and \<open>sync_all\<close> on the append handle; they miss the log when the handle is not
  attached to it.\<close>

definition log_append :: "bool \<Rightarrow> u8 list \<Rightarrow> disk \<Rightarrow> disk" where
  "log_append attached bytes d =
     (if attached then d\<lparr>d_log := Some (case d_log d of None \<Rightarrow> bytes | Some b \<Rightarrow> b @ bytes)\<rparr> else d)"

definition io_append :: "bool \<Rightarrow> u8 list \<Rightarrow> disk \<Rightarrow> (raft_error, unit, disk) result_st" where
  "io_append attached bytes d =
     (case io_next d of
        (IoOk, d) \<Rightarrow> (Inr (), log_append attached bytes d)
      | (IoFail k, d) \<Rightarrow> (Inl Io, log_append attached (take k bytes) d))"

definition io_sync :: "bool \<Rightarrow> disk \<Rightarrow> (raft_error, unit, disk) result_st" where
  "io_sync attached d =
     (case io_next d of
        (IoOk, d) \<Rightarrow>
          (Inr (), if attached then d\<lparr>d_synced := (case d_log d of None \<Rightarrow> 0 | Some b \<Rightarrow> length b)\<rparr> else d)
      | (IoFail _, d) \<Rightarrow> (Inl Io, d))"

text \<open>A temporary file written, then renamed over its target by \<open>put\<close>.\<close>

definition io_replace :: "(disk \<Rightarrow> disk) \<Rightarrow> disk \<Rightarrow> (raft_error, unit, disk) result_st" where
  "io_replace put d =
     (case io_call d of
        (Inl e, d) \<Rightarrow> (Inl e, d)
      | (Inr _, d) \<Rightarrow>
          (case io_call d of (Inl e, d) \<Rightarrow> (Inl e, d) | (Inr _, d) \<Rightarrow> (Inr (), put d)))"

section \<open>Frames\<close>

definition encode_frame :: "codec \<Rightarrow> log_entry \<Rightarrow> (raft_error, u8 list) result" where
  "encode_frame c entry =
     (case entry_to_vec c entry of
        None \<Rightarrow> Inl Codec
      | Some payload \<Rightarrow>
          Inr (be_bytes 8 (length payload) @ be_bytes 4 (unat (crc32 c payload)) @ payload))"

fun encode_frames :: "codec \<Rightarrow> log_entry list \<Rightarrow> u8 list \<Rightarrow> (raft_error, u8 list) result" where
  "encode_frames c [] bytes = Inr bytes"
| "encode_frames c (e # es) bytes =
     (case encode_frame c e of Inl x \<Rightarrow> Inl x | Inr f \<Rightarrow> encode_frames c es (bytes @ f))"

text \<open>The loop of \<open>replay_log\<close>.  \<open>usize\<close> is 64 bits wide; \<open>checked_add\<close> fails past it.\<close>

function replay_loop ::
  "codec \<Rightarrow> u8 list \<Rightarrow> log_index \<Rightarrow> nat \<Rightarrow> log_index \<Rightarrow> trm \<Rightarrow> bool \<Rightarrow> log_entry list \<Rightarrow>
   (raft_error, log_entry list \<times> nat) result" where
  "replay_loop c buf base offset last_ix last_trm first entries =
     (if offset < length buf then
        if length buf < offset + 12 then Inr (entries, offset)
        else
          (let len = of_be_bytes (take 8 (drop offset buf));
               crc = of_be_bytes (take 4 (drop (offset + 8) buf));
               body_start = offset + 12;
               body_end = body_start + len
           in if (18446744073709551615 :: int) < int body_end then Inl (Corruption FrameLengthOverflow)
              else if length buf < body_end then Inr (entries, offset)
              else
                (let payload = take len (drop body_start buf) in
                 if unat (crc32 c payload) \<noteq> crc then Inl (Corruption (ChecksumMismatch offset))
                 else case entry_from_slice c payload of
                   None \<Rightarrow> Inl (Corruption (MalformedEntry offset))
                 | Some entry \<Rightarrow>
                     if first \<and> base \<noteq> 0 \<and> entry_index entry \<noteq> index_next base
                     then Inl (Corruption (BoundaryDisagrees base (entry_index entry)))
                     else case validate_suffix [entry] last_ix last_trm of
                       Inl (InvalidAppend f) \<Rightarrow> Inl (Corruption (BadSuffix f))
                     | Inl x \<Rightarrow> Inl x
                     | Inr _ \<Rightarrow>
                         replay_loop c buf base body_end (entry_index entry) (entry_term entry)
                           False (entries @ [entry])))
      else Inr (entries, offset))"
  by pat_completeness auto
termination
  by (relation "measure (\<lambda>(c, buf, base, offset, li, lt, first, es). length buf - offset)") auto

declare replay_loop.simps [simp del]

definition replay_log ::
  "codec \<Rightarrow> log_index \<Rightarrow> trm \<Rightarrow> disk \<Rightarrow> (raft_error, log_entry list \<times> nat, disk) result_st" where
  "replay_log c base_index base_term d =
     (case io_call d of
        (Inl e, d) \<Rightarrow> (Inl e, d)
      | (Inr _, d) \<Rightarrow>
          (case d_log d of
             None \<Rightarrow> (Inr ([], 0), d)
           | Some buf \<Rightarrow>
               (case io_call d of
                  (Inl e, d) \<Rightarrow> (Inl e, d)
                | (Inr _, d) \<Rightarrow> (replay_loop c buf base_index 0 base_index base_term True [], d))))"

section \<open>Metadata files\<close>

definition load_compaction :: "codec \<Rightarrow> disk \<Rightarrow> (raft_error, log_index \<times> trm, disk) result_st" where
  "load_compaction c d =
     (case io_call d of
        (Inl e, d) \<Rightarrow> (Inl e, d)
      | (Inr _, d) \<Rightarrow>
          (case d_compaction d of
             None \<Rightarrow> (Inr (0, 0), d)
           | Some text \<Rightarrow>
               if \<not> is_utf8 text then (Inl Io, d)
               else (case meta_from_str c text of
                  None \<Rightarrow> (Inl (Corruption MalformedCompaction), d)
                | Some meta \<Rightarrow>
                    if COMPACTION_FORMAT_VERSION < cm_format_version meta
                    then (Inl (Corruption (FutureFormat (cm_format_version meta))), d)
                    else (Inr (cm_last_included_index meta, cm_last_included_term meta), d))))"

definition write_compaction ::
  "codec \<Rightarrow> log_index \<Rightarrow> trm \<Rightarrow> disk \<Rightarrow> (raft_error, unit, disk) result_st" where
  "write_compaction c lii lit d =
     (let meta = \<lparr>cm_format_version = COMPACTION_FORMAT_VERSION, cm_last_included_index = lii,
                  cm_last_included_term = lit\<rparr>
      in case meta_to_string c meta of
           None \<Rightarrow> (Inl Codec, d)
         | Some text \<Rightarrow> io_replace (d_compaction_update (\<lambda>_. Some text)) d)"

definition load_state :: "codec \<Rightarrow> disk \<Rightarrow> (raft_error, hard_state, disk) result_st" where
  "load_state c d =
     (case io_call d of
        (Inl e, d) \<Rightarrow> (Inl e, d)
      | (Inr _, d) \<Rightarrow>
          (case d_state d of
             None \<Rightarrow> (Inr hard_state_default, d)
           | Some text \<Rightarrow>
               if \<not> is_utf8 text then (Inl Io, d)
               else (case state_from_str c text of
                  None \<Rightarrow> (Inl (Corruption MalformedState), d)
                | Some hs \<Rightarrow> (Inr hs, d))))"

section \<open>Opening\<close>

definition fs_open :: "codec \<Rightarrow> disk \<Rightarrow> (raft_error, file_storage, disk) result_st" where
  "fs_open c d =
     (case io_call d of (Inl e, d) \<Rightarrow> (Inl e, d) | (Inr _, d) \<Rightarrow>
     (case load_compaction c d of (Inl e, d) \<Rightarrow> (Inl e, d) | (Inr (base_index, base_term), d) \<Rightarrow>
     (case replay_log c base_index base_term d of (Inl e, d) \<Rightarrow> (Inl e, d) | (Inr (entries, valid_len), d) \<Rightarrow>
     (case io_call d of (Inl e, d) \<Rightarrow> (Inl e, d) | (Inr _, d) \<Rightarrow>
        (let buf = (case d_log d of None \<Rightarrow> [] | Some b \<Rightarrow> b);
             d = d\<lparr>d_log := Some buf\<rparr>
         in case io_call d of (Inl e, d) \<Rightarrow> (Inl e, d) | (Inr _, d) \<Rightarrow>
            (let (r, d) =
               (if valid_len < length buf
                then (case io_call d of
                        (Inl e, d) \<Rightarrow> (Inl e, d)
                      | (Inr _, d) \<Rightarrow>
                          (Inr (), d\<lparr>d_log := Some (take valid_len buf), d_synced := min valid_len (d_synced d)\<rparr>))
                else (Inr (), d))
             in case r of Inl e \<Rightarrow> (Inl e, d) | Inr _ \<Rightarrow>
                (case load_state c d of (Inl e, d) \<Rightarrow> (Inl e, d) | (Inr hs, d) \<Rightarrow>
                   (Inr \<lparr>fs_disk = d, fs_entries = entries, fs_hard_state = hs,
                         fs_base_index = base_index, fs_base_term = base_term, fs_attached = True\<rparr>, d))))))))"

section \<open>Reading the log\<close>

definition fs_slot :: "file_storage \<Rightarrow> log_index \<Rightarrow> nat option" where
  "fs_slot s index =
     (if index \<le> fs_base_index s then None
      else (let rel = index - fs_base_index s - 1 in
            if rel < length (fs_entries s) then Some rel else None))"

definition fs_term_at :: "file_storage \<Rightarrow> log_index \<Rightarrow> trm option" where
  "fs_term_at s index =
     (if index = 0 then Some 0
      else if index = fs_base_index s then Some (fs_base_term s)
      else map_option (\<lambda>rel. entry_term (fs_entries s ! rel)) (fs_slot s index))"

definition fs_entry_at :: "file_storage \<Rightarrow> log_index \<Rightarrow> log_entry option" where
  "fs_entry_at s index = map_option (\<lambda>rel. fs_entries s ! rel) (fs_slot s index)"

definition fs_entries_from :: "file_storage \<Rightarrow> log_index \<Rightarrow> log_entry list" where
  "fs_entries_from s index =
     (let start_abs = max index (fs_base_index s + 1) in
      case fs_slot s start_abs of Some rel \<Rightarrow> drop rel (fs_entries s) | None \<Rightarrow> [])"

definition fs_last_index :: "file_storage \<Rightarrow> log_index" where
  "fs_last_index s = fs_base_index s + length (fs_entries s)"

definition fs_last_term :: "file_storage \<Rightarrow> trm" where
  "fs_last_term s = (if fs_entries s = [] then fs_base_term s else entry_term (last (fs_entries s)))"

definition compactable_prefix :: "file_storage \<Rightarrow> log_index \<Rightarrow> log_index" where
  "compactable_prefix s applied =
     (let bound = min (min applied (hs_commit_index (fs_hard_state s))) (fs_last_index s)
      in max bound (fs_base_index s))"

definition fs_read_at :: "file_storage \<Rightarrow> log_index \<Rightarrow> (raft_error, log_entry option) result" where
  "fs_read_at s index =
     (if index \<noteq> 0 \<and> index \<le> fs_base_index s then Inl (Compacted index (fs_base_index s))
      else Inr (fs_entry_at s index))"

section \<open>Writing the log\<close>

text \<open>Between the rename and the reopening the handle is on the replaced file.\<close>

definition rewrite_log :: "codec \<Rightarrow> file_storage \<Rightarrow> (raft_error, unit, file_storage) result_st" where
  "rewrite_log c s =
     (case encode_frames c (fs_entries s) [] of
        Inl e \<Rightarrow> (Inl e, s)
      | Inr bytes \<Rightarrow>
          (case io_call (fs_disk s) of (Inl e, d) \<Rightarrow> (Inl e, s\<lparr>fs_disk := d\<rparr>) | (Inr _, d) \<Rightarrow>
          (case io_call d of (Inl e, d) \<Rightarrow> (Inl e, s\<lparr>fs_disk := d\<rparr>) | (Inr _, d) \<Rightarrow>
          (case io_call d of (Inl e, d) \<Rightarrow> (Inl e, s\<lparr>fs_disk := d\<rparr>) | (Inr _, d) \<Rightarrow>
          (case io_call d of (Inl e, d) \<Rightarrow> (Inl e, s\<lparr>fs_disk := d\<rparr>) | (Inr _, d) \<Rightarrow>
             (let d = d\<lparr>d_log := Some bytes, d_synced := length bytes\<rparr>
              in case io_call d of
                   (Inl e, d) \<Rightarrow> (Inl e, s\<lparr>fs_disk := d, fs_attached := False\<rparr>)
                 | (Inr _, d) \<Rightarrow> (Inr (), s\<lparr>fs_disk := d, fs_attached := True\<rparr>)))))))"

definition fs_append ::
  "codec \<Rightarrow> file_storage \<Rightarrow> log_entry list \<Rightarrow> (raft_error, unit, file_storage) result_st" where
  "fs_append c s entries =
     (case validate_suffix entries (fs_last_index s) (fs_last_term s) of
        Inl e \<Rightarrow> (Inl e, s)
      | Inr _ \<Rightarrow>
          if entries = [] then (Inr (), s)
          else case encode_frames c entries [] of
            Inl e \<Rightarrow> (Inl e, s)
          | Inr bytes \<Rightarrow>
              (case io_append (fs_attached s) bytes (fs_disk s) of
                 (Inl e, d) \<Rightarrow> (Inl e, s\<lparr>fs_disk := d\<rparr>)
               | (Inr _, d) \<Rightarrow>
                   (case io_sync (fs_attached s) d of
                      (Inl e, d) \<Rightarrow> (Inl e, s\<lparr>fs_disk := d\<rparr>)
                    | (Inr _, d) \<Rightarrow> (Inr (), s\<lparr>fs_disk := d, fs_entries := fs_entries s @ entries\<rparr>))))"

definition fs_truncate_from ::
  "codec \<Rightarrow> file_storage \<Rightarrow> log_index \<Rightarrow> (raft_error, unit, file_storage) result_st" where
  "fs_truncate_from c s index =
     (if index \<noteq> 0 \<and> index \<le> fs_base_index s
      then (Inl (Compacted index (fs_base_index s)), s)
      else
        (let keep_rel = index - fs_base_index s - 1 in
         if keep_rel < length (fs_entries s)
         then rewrite_log c (s\<lparr>fs_entries := take keep_rel (fs_entries s)\<rparr>)
         else (Inr (), s)))"

definition fs_save_hard_state ::
  "codec \<Rightarrow> file_storage \<Rightarrow> hard_state \<Rightarrow> (raft_error, unit, file_storage) result_st" where
  "fs_save_hard_state c s hs =
     (case state_to_string c hs of
        None \<Rightarrow> (Inl Codec, s)
      | Some text \<Rightarrow>
          (case io_replace (d_state_update (\<lambda>_. Some text)) (fs_disk s) of
             (Inl e, d) \<Rightarrow> (Inl e, s\<lparr>fs_disk := d\<rparr>)
           | (Inr _, d) \<Rightarrow> (Inr (), s\<lparr>fs_disk := d, fs_hard_state := hs\<rparr>)))"

definition fs_ops :: "codec \<Rightarrow> file_storage raft_storage" where
  "fs_ops c =
     \<lparr>append_op = fs_append c, truncate_from_op = fs_truncate_from c, term_at_op = fs_term_at,
      entry_at_op = fs_entry_at, entries_from_op = fs_entries_from,
      last_index_op = fs_last_index, last_term_op = fs_last_term,
      save_hard_state_op = fs_save_hard_state c, hard_state_op = fs_hard_state\<rparr>"

section \<open>Compaction and snapshot installation\<close>

definition plan_compaction ::
  "file_storage \<Rightarrow> log_index \<Rightarrow> log_index \<Rightarrow> bool \<Rightarrow> (raft_error, compaction_outcome) result" where
  "plan_compaction s up_to applied dry_run =
     (let last_ix = fs_last_index s in
      if last_ix < up_to then Inl (CompactionRefused BeyondLog)
      else if hs_commit_index (fs_hard_state s) < up_to then Inl (CompactionRefused BeyondCommit)
      else if applied < up_to then Inl (CompactionRefused NotApplied)
      else if up_to \<le> fs_base_index s
      then Inr \<lparr>co_compacted = False, co_entries_discarded = 0,
                co_last_included_index = fs_base_index s, co_last_included_term = fs_base_term s,
                co_last_index = last_ix, co_dry_run = dry_run\<rparr>
      else case fs_term_at s up_to of
        None \<Rightarrow> Inl (CompactionRefused NoTerm)
      | Some last_included_term \<Rightarrow>
          Inr \<lparr>co_compacted = True, co_entries_discarded = up_to - fs_base_index s,
               co_last_included_index = up_to, co_last_included_term = last_included_term,
               co_last_index = last_ix, co_dry_run = dry_run\<rparr>)"

definition compact_dry_run ::
  "file_storage \<Rightarrow> log_index \<Rightarrow> log_index \<Rightarrow> (raft_error, compaction_outcome) result" where
  "compact_dry_run s up_to applied = plan_compaction s up_to applied True"

definition compact ::
  "codec \<Rightarrow> file_storage \<Rightarrow> log_index \<Rightarrow> log_index \<Rightarrow>
   (raft_error, compaction_outcome, file_storage) result_st" where
  "compact c s up_to applied =
     (case plan_compaction s up_to applied False of
        Inl e \<Rightarrow> (Inl e, s)
      | Inr plan \<Rightarrow>
          if \<not> co_compacted plan then (Inr plan, s)
          else
            (case write_compaction c up_to (co_last_included_term plan) (fs_disk s) of
               (Inl e, d) \<Rightarrow> (Inl e, s\<lparr>fs_disk := d\<rparr>)
             | (Inr _, d) \<Rightarrow>
                 (let s = s\<lparr>fs_disk := d, fs_base_index := up_to,
                           fs_base_term := co_last_included_term plan,
                           fs_entries := filter (\<lambda>e. up_to < entry_index e) (fs_entries s)\<rparr>
                  in case rewrite_log c s of
                       (Inl e, s) \<Rightarrow> (Inl e, s)
                     | (Inr _, s) \<Rightarrow> (Inr plan, s))))"

definition install_snapshot ::
  "codec \<Rightarrow> file_storage \<Rightarrow> log_index \<Rightarrow> trm \<Rightarrow> (raft_error, bool, file_storage) result_st" where
  "install_snapshot c s lii lit =
     (if lii \<le> fs_base_index s then (Inr False, s)
      else
        (let retain_suffix = (fs_term_at s lii = Some lit)
         in case write_compaction c lii lit (fs_disk s) of
              (Inl e, d) \<Rightarrow> (Inl e, s\<lparr>fs_disk := d\<rparr>)
            | (Inr _, d) \<Rightarrow>
                (let s = s\<lparr>fs_disk := d,
                          fs_entries := (if retain_suffix
                                         then filter (\<lambda>e. lii < entry_index e) (fs_entries s)
                                         else []),
                          fs_base_index := lii, fs_base_term := lit\<rparr>
                 in case rewrite_log c s of
                      (Inl e, s) \<Rightarrow> (Inl e, s)
                    | (Inr _, s) \<Rightarrow>
                        if hs_commit_index (fs_hard_state s) < lii
                        then (case fs_save_hard_state c s ((fs_hard_state s)\<lparr>hs_commit_index := lii\<rparr>) of
                                (Inl e, s) \<Rightarrow> (Inl e, s)
                              | (Inr _, s) \<Rightarrow> (Inr True, s))
                        else (Inr True, s))))"

section \<open>The contract holds\<close>

lemma fs_ops_simps [simp]:
  "append_op (fs_ops c) = fs_append c" "truncate_from_op (fs_ops c) = fs_truncate_from c"
  "term_at_op (fs_ops c) = fs_term_at" "entry_at_op (fs_ops c) = fs_entry_at"
  "entries_from_op (fs_ops c) = fs_entries_from" "last_index_op (fs_ops c) = fs_last_index"
  "last_term_op (fs_ops c) = fs_last_term" "save_hard_state_op (fs_ops c) = fs_save_hard_state c"
  "hard_state_op (fs_ops c) = fs_hard_state"
  by (simp_all add: fs_ops_def)

definition fs_base :: "file_storage \<Rightarrow> log_index \<times> trm" where
  "fs_base s = (fs_base_index s, fs_base_term s)"

definition fs_good :: "file_storage \<Rightarrow> bool" where
  "fs_good s \<longleftrightarrow> log_ok (fs_base s) (fs_entries s)"

lemma rewrite_log_keeps:
  "rewrite_log c s = (r, s') \<Longrightarrow>
   fs_entries s' = fs_entries s \<and> fs_hard_state s' = fs_hard_state s \<and> fs_base s' = fs_base s"
  by (auto simp: rewrite_log_def fs_base_def Let_def split: sum.splits prod.splits)

lemma fs_last_index_eq: "fs_last_index s = fst (fs_base s) + length (fs_entries s)"
  by (simp add: fs_last_index_def fs_base_def)

lemma fs_last_term_eq: "fs_last_term s = log_last_term (fs_base s) (fs_entries s)"
  by (simp add: fs_last_term_def fs_base_def log_last_term_def)

lemma fs_append_law:
  assumes "fs_append c s es = (r, s')" "fs_good s"
  shows "fs_good s' \<and> fs_base s' = fs_base s \<and> fs_hard_state s' = fs_hard_state s \<and>
    fs_entries s' = (if r = Inr () then fs_entries s @ es else fs_entries s) \<and>
    (r = Inr () \<longrightarrow> validate_suffix es (fs_last_index s) (fs_last_term s) = Inr ())"
proof -
  have v: "validate_suffix es (fs_last_index s) (fs_last_term s) = Inr () \<longleftrightarrow> log_ok (fs_base s) (fs_entries s @ es)"
    using validate_suffix_iff[of "fs_base s" "fs_entries s" es] assms(2)
    by (simp add: fs_good_def fs_last_index_eq fs_last_term_eq)
  show ?thesis
    using assms v
    by (auto simp: fs_append_def fs_good_def fs_base_def split: sum.splits prod.splits if_splits)
qed

lemma fs_truncate_law:
  assumes "fs_truncate_from c s k = (r, s')" "fs_good s"
  shows "fs_good s' \<and> fs_base s' = fs_base s \<and> fs_hard_state s' = fs_hard_state s \<and>
    (r = Inr () \<longrightarrow> fs_entries s' = take (k - fst (fs_base s) - 1) (fs_entries s)) \<and>
    (\<exists>n. fs_entries s' = take n (fs_entries s))"
proof -
  let ?k = "k - fst (fs_base s) - 1"
  show ?thesis
  proof (cases "(k \<noteq> 0 \<and> k \<le> fs_base_index s) \<or> length (fs_entries s) \<le> ?k")
    case True
    then have "s' = s" "r = Inr () \<longrightarrow> length (fs_entries s) \<le> ?k"
      using assms(1) by (auto simp: fs_truncate_from_def Let_def fs_base_def split: if_splits)
    then show ?thesis using assms(2) by (simp add: ex_take_all)
  next
    case False
    then have w: "rewrite_log c (s\<lparr>fs_entries := take ?k (fs_entries s)\<rparr>) = (r, s')"
      using assms(1) by (auto simp: fs_truncate_from_def Let_def fs_base_def split: if_splits)
    then show ?thesis
      using rewrite_log_keeps[OF w] assms(2) log_ok_take by (auto simp: fs_good_def fs_base_def)
  qed
qed

lemma fs_save_law:
  "fs_save_hard_state c s hs = (r, s') \<Longrightarrow>
   fs_base s' = fs_base s \<and> fs_entries s' = fs_entries s \<and>
   fs_hard_state s' = (if r = Inr () then hs else fs_hard_state s)"
  by (auto simp: fs_save_hard_state_def fs_base_def split: option.splits sum.splits prod.splits)

interpretation fstore: raft_store "fs_ops c" fs_base fs_entries fs_good for c
proof (unfold_locales, goal_cases)
  case (4 s k)
  then show ?case by (auto simp: fs_entry_at_def fs_slot_def fs_base_def Let_def)
next
  case (5 s k)
  then show ?case by (auto simp: fs_term_at_def fs_entry_at_def fs_slot_def fs_base_def Let_def)
next
  case (6 s k)
  then show ?case by (auto simp: fs_entries_from_def fs_slot_def fs_base_def Let_def max_def)
next
  case (7 s es r s')
  then show ?case using fs_append_law by simp
next
  case (8 s k r s')
  then show ?case using fs_truncate_law by simp
next
  case (9 s hs r s')
  then show ?case using fs_save_law[of c s hs r s'] by (simp add: fs_good_def)
qed (simp_all add: fs_good_def fs_last_index_eq fs_last_term_eq)

section \<open>Frames and replay\<close>

text \<open>What the operations rely on of the JSON codec, for the values at hand: encoding
  succeeds, decoding inverts it, the text is UTF-8, and a payload fits a \<open>Vec\<close>.\<close>

definition entry_codec :: "codec \<Rightarrow> log_entry \<Rightarrow> bool" where
  "entry_codec c e \<longleftrightarrow>
     (\<exists>b. entry_to_vec c e = Some b \<and> entry_from_slice c b = Some e \<and> length b < 9223372036854775808)"

definition state_codec :: "codec \<Rightarrow> hard_state \<Rightarrow> bool" where
  "state_codec c hs \<longleftrightarrow> (\<exists>b. state_to_string c hs = Some b \<and> state_from_str c b = Some hs \<and> is_utf8 b)"

definition meta_codec :: "codec \<Rightarrow> compaction_meta \<Rightarrow> bool" where
  "meta_codec c m \<longleftrightarrow> (\<exists>b. meta_to_string c m = Some b \<and> meta_from_str c b = Some m \<and> is_utf8 b)"

definition frame :: "codec \<Rightarrow> log_entry \<Rightarrow> u8 list" where
  "frame c e = (case encode_frame c e of Inr f \<Rightarrow> f | Inl _ \<Rightarrow> [])"

definition frames :: "codec \<Rightarrow> log_entry list \<Rightarrow> u8 list" where
  "frames c es = concat (map (frame c) es)"

lemma frames_simps [simp]:
  "frames c [] = []" "frames c (e # es) = frame c e @ frames c es" "frames c (es @ fs) = frames c es @ frames c fs"
  by (simp_all add: frames_def)

lemma entry_codecE:
  assumes "entry_codec c e"
  obtains p where "frame c e = be_bytes 8 (length p) @ be_bytes 4 (unat (crc32 c p)) @ p"
    "entry_from_slice c p = Some e" "length p < 9223372036854775808" "encode_frame c e = Inr (frame c e)"
  using assms by (auto simp: entry_codec_def frame_def encode_frame_def)

lemma encode_frames_eq: "\<forall>e \<in> set es. entry_codec c e \<Longrightarrow> encode_frames c es acc = Inr (acc @ frames c es)"
proof (induction es arbitrary: acc)
  case (Cons e es)
  then show ?case by (auto elim!: entry_codecE[of c e])
qed simp

lemma replay_one:
  assumes "entry_codec c e" "buf = pre @ frame c e @ rest" "length buf < 9223372036854775808"
    and "entry_index e = li + 1" "lt \<le> entry_term e" "first \<longrightarrow> base = li"
  shows "replay_loop c buf base (length pre) li lt first acc =
    replay_loop c buf base (length pre + length (frame c e)) (li + 1) (entry_term e) False (acc @ [e])"
proof -
  obtain p where p: "frame c e = be_bytes 8 (length p) @ be_bytes 4 (unat (crc32 c p)) @ p"
    "entry_from_slice c p = Some e" "length p < 9223372036854775808"
    using entry_codecE[OF assms(1)] .
  note h = frame_header[OF p(3) assms(2)[unfolded p(1)]]
  have l: "length pre + 12 + length p \<le> length buf" "length (frame c e) = 12 + length p"
    using assms(2) p(1) by auto
  show ?thesis
    using assms(3-6) l p(2)
    by (subst replay_loop.simps) (auto simp: h Let_def validate_suffix_def index_next_def add.assoc)
qed


definition torn :: "codec \<Rightarrow> u8 list \<Rightarrow> bool" where
  "torn c t \<longleftrightarrow> t = [] \<or> (\<exists>e k. entry_codec c e \<and> k < length (frame c e) \<and> t = take k (frame c e))"

lemma replay_torn:
  assumes "torn c t" "length (pre @ t) < 9223372036854775808"
  shows "replay_loop c (pre @ t) base (length pre) li lt first acc = Inr (acc, length pre)"
proof (cases "length t < 12")
  case True
  then show ?thesis by (subst replay_loop.simps) simp
next
  case False
  then obtain e k where e: "entry_codec c e" "k < length (frame c e)" "t = take k (frame c e)"
    using assms(1) by (auto simp: torn_def)
  obtain p where p: "frame c e = be_bytes 8 (length p) @ be_bytes 4 (unat (crc32 c p)) @ p"
    "length p < 9223372036854775808"
    using entry_codecE[OF e(1)] .
  have k: "12 \<le> k" "k < 12 + length p" using False e p by auto
  have "take 8 t = be_bytes 8 (length p)" using k(1) e(3) p(1) by simp
  then have len: "of_be_bytes (take 8 t) = length p"
    using p(2) by (simp add: of_be_bytes_be_bytes)
  have "length t = k" using e by simp
  then show ?thesis
    using k assms(2) p(2) by (subst replay_loop.simps) (simp add: len Let_def)
qed

lemma replay_frames:
  assumes "torn c t" "length (pre @ frames c es @ t) < 9223372036854775808"
  shows "\<forall>e \<in> set es. entry_codec c e \<Longrightarrow> log_ok (li, lt) es \<Longrightarrow> first \<longrightarrow> base = li \<Longrightarrow>
    replay_loop c (pre @ frames c es @ t) base (length pre) li lt first acc =
      Inr (acc @ es, length pre + length (frames c es))"
  using assms(2)
proof (induction es arbitrary: pre li lt first acc)
  case Nil
  then show ?case using replay_torn[OF assms(1)] by simp
next
  case (Cons e es)
  have ok: "entry_index e = li + 1" "lt \<le> entry_term e" "log_ok (li + 1, entry_term e) es"
    using Cons.prems(2) log_ok_append[of "(li, lt)" "[e]" es]
    by (auto simp: log_ok_def log_last_term_def)
  have "replay_loop c (pre @ frames c (e # es) @ t) base (length pre) li lt first acc =
    replay_loop c (pre @ frames c (e # es) @ t) base (length pre + length (frame c e)) (li + 1) (entry_term e)
      False (acc @ [e])"
    by (rule replay_one[where rest = "frames c es @ t"]) (use Cons.prems ok in auto)
  also have "\<dots> = Inr (acc @ e # es, length pre + length (frames c (e # es)))"
    using Cons.IH[of "li + 1" "entry_term e" False "pre @ frame c e" "acc @ [e]"] Cons.prems ok(3) by (simp add: add.assoc)
  finally show ?case .
qed

lemma take_frames:
  assumes "\<forall>e \<in> set es. entry_codec c e"
  shows "\<exists>j t. j \<le> length es \<and> take k (frames c es) = frames c (take j es) @ t \<and> torn c t \<and>
    (length (frames c es) \<le> k \<longrightarrow> j = length es \<and> t = [])"
  using assms
proof (induction es arbitrary: k)
  case Nil
  then show ?case by (simp add: torn_def)
next
  case (Cons e es)
  show ?case
  proof (cases "k < length (frame c e)")
    case True
    then have "torn c (take k (frame c e))" using Cons.prems by (auto simp: torn_def)
    then show ?thesis using True by (intro exI[of _ 0] exI[of _ "take k (frame c e)"]) simp
  next
    case False
    obtain j t where "j \<le> length es" "take (k - length (frame c e)) (frames c es) = frames c (take j es) @ t" "torn c t"
      "length (frames c es) \<le> k - length (frame c e) \<longrightarrow> j = length es \<and> t = []"
      using Cons.IH[of "k - length (frame c e)"] Cons.prems by auto
    then show ?thesis using False by (intro exI[of _ "Suc j"] exI[of _ t]) auto
  qed
qed

section \<open>What is on disk\<close>

definition meta_of :: "log_index \<times> trm \<Rightarrow> compaction_meta" where
  "meta_of b = \<lparr>cm_format_version = COMPACTION_FORMAT_VERSION, cm_last_included_index = fst b,
               cm_last_included_term = snd b\<rparr>"

definition meta_file :: "codec \<Rightarrow> u8 list option \<Rightarrow> log_index \<times> trm \<Rightarrow> bool" where
  "meta_file c f b \<longleftrightarrow>
     (case f of None \<Rightarrow> b = (0, 0) | Some text \<Rightarrow> is_utf8 text \<and> meta_from_str c text = Some (meta_of b))"

definition state_file :: "codec \<Rightarrow> u8 list option \<Rightarrow> hard_state \<Rightarrow> bool" where
  "state_file c f hs \<longleftrightarrow>
     (case f of None \<Rightarrow> hs = hard_state_default | Some text \<Rightarrow> is_utf8 text \<and> state_from_str c text = Some hs)"

text \<open>The files hold exactly the store's state, and appends reach the log.\<close>

definition on_disk :: "codec \<Rightarrow> file_storage \<Rightarrow> bool" where
  "on_disk c s \<longleftrightarrow>
     fs_good s \<and> fs_attached s \<and> (\<forall>e \<in> set (fs_entries s). entry_codec c e) \<and>
     d_log (fs_disk s) = Some (frames c (fs_entries s)) \<and>
     length (frames c (fs_entries s)) < 9223372036854775808 \<and>
     meta_file c (d_compaction (fs_disk s)) (fs_base s) \<and> state_file c (d_state (fs_disk s)) (fs_hard_state s)"

lemma fs_open_frames:
  assumes "d_script d = []" "meta_file c (d_compaction d) b" "state_file c (d_state d) hs"
    and "d_log d = Some (frames c es @ t)" "torn c t" "length (frames c es @ t) < 9223372036854775808"
    and "\<forall>e \<in> set es. entry_codec c e" "log_ok b es"
  shows "fst (fs_open c d) = Inr \<lparr>fs_disk = d\<lparr>d_log := Some (frames c es),
        d_synced := (if t = [] then d_synced d else min (length (frames c es)) (d_synced d))\<rparr>,
     fs_entries = es, fs_hard_state = hs, fs_base_index = fst b, fs_base_term = snd b, fs_attached = True\<rparr>"
proof -
  have io: "io_call e = (Inr (), e)" if "d_script e = []" for e
    using that by (simp add: io_call_def io_next_def)
  have comp: "load_compaction c d = (Inr b, d)"
    using assms(1,2) by (auto simp: load_compaction_def io meta_file_def meta_of_def split: option.splits)
  have "replay_loop c (frames c es @ t) (fst b) 0 (fst b) (snd b) True [] = Inr (es, length (frames c es))"
    using replay_frames[OF assms(5), of "[]" es "fst b" "snd b" True "fst b" "[]"] assms(6-8) by simp
  then have rep: "replay_log c (fst b) (snd b) d = (Inr (es, length (frames c es)), d)"
    using assms(1,4) by (simp add: replay_log_def io)
  have st: "load_state c d' = (Inr hs, d')" if "d_script d' = []" "d_state d' = d_state d" for d'
    using assms(3) that by (auto simp: load_state_def io state_file_def split: option.splits)
  have upd: "d\<lparr>d_log := Some (frames c es @ t)\<rparr> = d" using assms(4) by (cases d) simp
  show ?thesis
    using assms(1,4) comp rep st
    by (cases b) (auto simp: fs_open_def io Let_def upd)
qed


lemma fs_reopen:
  assumes "on_disk c s"
  shows "fst (fs_open c ((fs_disk s)\<lparr>d_script := []\<rparr>)) = Inr (s\<lparr>fs_disk := (fs_disk s)\<lparr>d_script := []\<rparr>\<rparr>)"
proof -
  let ?d = "(fs_disk s)\<lparr>d_script := []\<rparr>"
  have "fst (fs_open c ?d) = Inr \<lparr>fs_disk = ?d\<lparr>d_log := Some (frames c (fs_entries s)), d_synced := d_synced ?d\<rparr>,
      fs_entries = fs_entries s, fs_hard_state = fs_hard_state s, fs_base_index = fst (fs_base s),
      fs_base_term = snd (fs_base s), fs_attached = True\<rparr>"
    using fs_open_frames[of ?d c "fs_base s" "fs_hard_state s" "fs_entries s" "[]"] assms
    by (simp add: on_disk_def torn_def fs_good_def)
  moreover have "?d\<lparr>d_log := Some (frames c (fs_entries s)), d_synced := d_synced ?d\<rparr> = ?d"
    using assms by (cases "fs_disk s") (simp add: on_disk_def)
  ultimately show ?thesis using assms by (cases s) (simp add: fs_base_def on_disk_def)
qed

lemma io_call_disk:
  "io_call d = (r, d') \<Longrightarrow> d_log d' = d_log d \<and> d_state d' = d_state d \<and> d_compaction d' = d_compaction d"
  by (auto simp: io_call_def io_next_def split: list.splits prod.splits io_outcome.splits)

lemma io_next_disk:
  "io_next d = (x, d') \<Longrightarrow> d_log d' = d_log d \<and> d_state d' = d_state d \<and> d_compaction d' = d_compaction d \<and> d_synced d' = d_synced d"
  by (auto simp: io_next_def split: list.splits)

lemma io_append_disk:
  assumes "io_append True b d = (r, d')" "d_log d = Some x"
  shows "\<exists>k. d_log d' = Some (x @ take k b) \<and> (r = Inr () \<longrightarrow> length b \<le> k) \<and>
    d_state d' = d_state d \<and> d_compaction d' = d_compaction d \<and> d_synced d' = d_synced d"
proof -
  obtain w d1 where w: "io_next d = (w, d1)" by fastforce
  show ?thesis
  proof (cases w)
    case IoOk
    then show ?thesis using assms w io_next_disk[OF w]
      by (intro exI[of _ "length b"]) (auto simp: io_append_def log_append_def)
  next
    case (IoFail k)
    then show ?thesis using assms w io_next_disk[OF w]
      by (intro exI[of _ k]) (auto simp: io_append_def log_append_def)
  qed
qed

lemma io_sync_disk:
  "io_sync True d = (r, d') \<Longrightarrow> d_log d = Some x \<Longrightarrow>
   d_log d' = d_log d \<and> d_state d' = d_state d \<and> d_compaction d' = d_compaction d \<and>
   d_synced d' = (if r = Inr () then length x else d_synced d)"
  by (auto simp: io_sync_def split: prod.splits io_outcome.splits dest!: io_next_disk)

text \<open>What an append leaves on the disk: the old log, some bytes of the new frames, all of them and synced when it
  succeeded.\<close>

lemma append_disk:
  assumes "fs_append c s es = (r, s')" "fs_good s" "fs_attached s" "\<forall>e \<in> set es. entry_codec c e"
    "d_log (fs_disk s) = Some b"
  shows "\<exists>k. d_log (fs_disk s') = Some (b @ take k (frames c es)) \<and> (r = Inr () \<longrightarrow> length (frames c es) \<le> k) \<and>
    d_state (fs_disk s') = d_state (fs_disk s) \<and> d_compaction (fs_disk s') = d_compaction (fs_disk s) \<and>
    d_synced (fs_disk s') = (if r = Inr () \<and> es \<noteq> [] then length (b @ frames c es) else d_synced (fs_disk s)) \<and>
    fs_attached s' \<and> (k \<noteq> 0 \<longrightarrow> log_ok (fs_base s) (fs_entries s @ es))"
proof (cases "validate_suffix es (fs_last_index s) (fs_last_term s) = Inr () \<and> es \<noteq> []")
  case False
  then have "s' = s \<and> (r = Inr () \<longrightarrow> es = [])"
    using assms(1) by (cases "validate_suffix es (fs_last_index s) (fs_last_term s)") (auto simp: fs_append_def split: if_splits)
  then show ?thesis using assms(3,5) by (intro exI[of _ 0]) auto
next
  case True
  then have ok: "log_ok (fs_base s) (fs_entries s @ es)"
    using validate_suffix_iff[of "fs_base s" "fs_entries s" es] assms(2)
    by (simp add: fs_good_def fs_last_index_eq fs_last_term_eq)
  obtain ra d where a: "io_append True (frames c es) (fs_disk s) = (ra, d)" by fastforce
  obtain k where k: "d_log d = Some (b @ take k (frames c es))" "ra = Inr () \<longrightarrow> length (frames c es) \<le> k"
    "d_state d = d_state (fs_disk s)" "d_compaction d = d_compaction (fs_disk s)" "d_synced d = d_synced (fs_disk s)"
    using io_append_disk[OF a assms(5)] by blast
  obtain rb d' where b: "io_sync True d = (rb, d')" by fastforce
  note sy = io_sync_disk[OF b k(1)]
  have s': "(r, s') = (case ra of Inl e \<Rightarrow> (Inl e, s\<lparr>fs_disk := d\<rparr>) | Inr _ \<Rightarrow>
      (case rb of Inl e \<Rightarrow> (Inl e, s\<lparr>fs_disk := d'\<rparr>) | Inr _ \<Rightarrow> (Inr (), s\<lparr>fs_disk := d', fs_entries := fs_entries s @ es\<rparr>)))"
    using assms(1,3) True a b encode_frames_eq[OF assms(4), of "[]"] by (auto simp: fs_append_def split: sum.splits)
  show ?thesis
  proof (cases ra)
    case (Inl e)
    then show ?thesis using s' k ok assms(3) by (intro exI[of _ k]) auto
  next
    case (Inr u)
    then show ?thesis using s' k sy ok assms(3) True by (intro exI[of _ k]) (auto split: sum.splits)
  qed
qed

lemma append_on_disk:
  assumes "on_disk c s" "fs_append c s es = (Inr (), s')" "\<forall>e \<in> set es. entry_codec c e"
    and "length (frames c (fs_entries s @ es)) < 9223372036854775808"
  shows "on_disk c s'"
proof -
  note law = fs_append_law[OF assms(2)]
  obtain k where "d_log (fs_disk s') = Some (frames c (fs_entries s) @ take k (frames c es))" "length (frames c es) \<le> k"
    "d_state (fs_disk s') = d_state (fs_disk s)" "d_compaction (fs_disk s') = d_compaction (fs_disk s)" "fs_attached s'"
    using append_disk[OF assms(2) _ _ assms(3)] assms(1) by (auto simp: on_disk_def)
  then show ?thesis using assms(1,3,4) law by (auto simp: on_disk_def)
qed

lemma rewrite_on_disk:
  assumes "rewrite_log c s = (Inr (), s')" "\<forall>e \<in> set (fs_entries s). entry_codec c e"
  shows "d_log (fs_disk s') = Some (frames c (fs_entries s)) \<and> d_state (fs_disk s') = d_state (fs_disk s) \<and>
    d_compaction (fs_disk s') = d_compaction (fs_disk s) \<and> fs_attached s'"
  using assms(1) encode_frames_eq[OF assms(2), of "[]"]
  by (auto simp: rewrite_log_def Let_def split: sum.splits prod.splits dest!: io_call_disk)

lemma frames_take: "length (frames c (take n es)) \<le> length (frames c es)"
  by (metis append_take_drop_id frames_simps(3) le_add1 length_append)

lemma truncate_on_disk:
  assumes "on_disk c s" "fs_truncate_from c s k = (Inr (), s')"
  shows "on_disk c s'"
proof (cases "k - fs_base_index s - 1 < length (fs_entries s)")
  case True
  let ?s = "s\<lparr>fs_entries := take (k - fs_base_index s - 1) (fs_entries s)\<rparr>"
  have w: "rewrite_log c ?s = (Inr (), s')"
    using assms(2) True by (auto simp: fs_truncate_from_def Let_def split: if_splits)
  have codec: "\<forall>e \<in> set (fs_entries ?s). entry_codec c e"
    using assms(1) set_take_subset by (fastforce simp: on_disk_def)
  show ?thesis
    using assms(1) rewrite_on_disk[OF w codec] rewrite_log_keeps[OF w] codec log_ok_take
      frames_take[of c "k - fs_base_index s - 1" "fs_entries s"]
    by (auto simp: on_disk_def fs_good_def fs_base_def)
next
  case False
  then show ?thesis using assms by (auto simp: fs_truncate_from_def Let_def split: if_splits)
qed

lemma io_replace_ok:
  assumes "io_replace put d = (Inr (), d')"
  obtains d0 where "d_log d0 = d_log d" "d_state d0 = d_state d" "d_compaction d0 = d_compaction d" "d' = put d0"
  using assms by (auto simp: io_replace_def split: sum.splits prod.splits dest!: io_call_disk)

lemma save_on_disk:
  assumes "on_disk c s" "fs_save_hard_state c s hs = (Inr (), s')" "state_codec c hs"
  shows "on_disk c s'"
proof -
  obtain b where b: "state_to_string c hs = Some b" "state_from_str c b = Some hs" "is_utf8 b"
    using assms(3) by (auto simp: state_codec_def)
  obtain d where d: "io_replace (d_state_update (\<lambda>_. Some b)) (fs_disk s) = (Inr (), d)"
    "s' = s\<lparr>fs_disk := d, fs_hard_state := hs\<rparr>"
    using assms(2) b(1) by (auto simp: fs_save_hard_state_def split: sum.splits prod.splits)
  from d(1) obtain d0 where "d_log d0 = d_log (fs_disk s)" "d_compaction d0 = d_compaction (fs_disk s)"
    "d = d_state_update (\<lambda>_. Some b) d0"
    by (rule io_replace_ok)
  then show ?thesis using assms(1) d(2) b by (auto simp: on_disk_def fs_good_def fs_base_def state_file_def)
qed


section \<open>Compaction and snapshots\<close>

lemma filter_index_drop:
  assumes "log_ok b es" "fst b \<le> k"
  shows "filter (\<lambda>e. k < entry_index e) es = drop (k - fst b) es"
  using assms
proof (induction es arbitrary: b)
  case (Cons e es)
  have e: "entry_index e = fst b + 1" "log_ok (fst b + 1, entry_term e) es"
    using Cons.prems(1) log_ok_append[of b "[e]" es] by (auto simp: log_ok_def log_last_term_def)
  show ?case
  proof (cases "k = fst b")
    case True
    have "filter (\<lambda>e. k < entry_index e) es = es"
      using e(2) True by (auto simp: filter_id_conv in_set_conv_nth log_ok_def)
    then show ?thesis using True e(1) by simp
  next
    case False
    then show ?thesis using Cons.IH[OF e(2)] Cons.prems(2) e(1) by (simp add: Suc_diff_le drop_Cons')
  qed
qed simp

lemma cut_log:
  assumes "log_ok b es" "fst b < k" "k \<le> fst b + length es"
  shows "log_ok (k, entry_term (es ! (k - fst b - 1))) (drop (k - fst b) es)"
proof -
  let ?n = "k - fst b"
  have "log_ok (fst b + length (take ?n es), log_last_term b (take ?n es)) (drop ?n es)"
    using assms(1) log_ok_append[of b "take ?n es" "drop ?n es"] by simp
  moreover have "fst b + length (take ?n es) = k" using assms(2,3) by simp
  moreover have "log_last_term b (take ?n es) = entry_term (es ! (?n - 1))"
  proof -
    have "take ?n es \<noteq> []" "length (take ?n es) = ?n" using assms(2,3) by auto
    then show ?thesis using assms(2,3) by (simp add: log_last_term_def last_conv_nth)
  qed
  ultimately show ?thesis by simp
qed

lemma frames_drop: "length (frames c (drop n es)) \<le> length (frames c es)"
  by (metis append_take_drop_id frames_simps(3) le_add2 length_append)

definition compacted_store :: "log_index \<Rightarrow> trm \<Rightarrow> file_storage \<Rightarrow> file_storage" where
  "compacted_store k t s =
     s\<lparr>fs_base_index := k, fs_base_term := t, fs_entries := drop (k - fs_base_index s) (fs_entries s)\<rparr>"

lemma plan_cases:
  assumes "plan_compaction s up_to applied dry = Inr p"
  shows "up_to \<le> fs_last_index s \<and> up_to \<le> hs_commit_index (fs_hard_state s) \<and> up_to \<le> applied \<and>
    (co_compacted p \<longleftrightarrow> fs_base_index s < up_to) \<and>
    (co_compacted p \<longrightarrow> fs_term_at s up_to = Some (co_last_included_term p))"
  using assms by (auto simp: plan_compaction_def Let_def split: if_splits option.splits)

lemma term_at_entry:
  assumes "fs_base_index s < k" "k \<le> fs_last_index s"
  shows "fs_term_at s k = Some (entry_term (fs_entries s ! (k - fs_base_index s - 1)))"
  using assms by (auto simp: fs_term_at_def fs_slot_def fs_last_index_def Let_def)

lemma io_replace_err:
  "io_replace put d = (Inl e, d') \<Longrightarrow>
   d_log d' = d_log d \<and> d_state d' = d_state d \<and> d_compaction d' = d_compaction d"
  by (auto simp: io_replace_def split: sum.splits prod.splits dest!: io_call_disk)

lemma write_compaction_cases:
  assumes "write_compaction c k t d = (r, d')" "meta_codec c (meta_of (k, t))"
  shows "d_log d' = d_log d \<and> d_state d' = d_state d \<and>
    (if r = Inr () then meta_file c (d_compaction d') (k, t) else d_compaction d' = d_compaction d)"
proof -
  obtain b where b: "meta_to_string c (meta_of (k, t)) = Some b" "meta_from_str c b = Some (meta_of (k, t))" "is_utf8 b"
    using assms(2) by (auto simp: meta_codec_def)
  have w: "io_replace (d_compaction_update (\<lambda>_. Some b)) d = (r, d')"
    using assms(1) b(1) by (simp add: write_compaction_def meta_of_def Let_def)
  show ?thesis
  proof (cases r)
    case (Inl e)
    then show ?thesis using io_replace_err[of _ d e d'] w by simp
  next
    case (Inr u)
    from w[unfolded Inr] obtain d0 where "d_log d0 = d_log d" "d_state d0 = d_state d"
      "d' = d_compaction_update (\<lambda>_. Some b) d0"
      by simp (erule io_replace_ok)
    then show ?thesis using Inr b by (auto simp: meta_file_def)
  qed
qed

lemma rewrite_cases:
  assumes "rewrite_log c s = (r, s')" "\<forall>e \<in> set (fs_entries s). entry_codec c e"
  shows "d_state (fs_disk s') = d_state (fs_disk s) \<and> d_compaction (fs_disk s') = d_compaction (fs_disk s) \<and>
    (d_log (fs_disk s') = Some (frames c (fs_entries s)) \<or> (r \<noteq> Inr () \<and> d_log (fs_disk s') = d_log (fs_disk s)))"
  using assms(1) encode_frames_eq[OF assms(2), of "[]"]
  by (auto simp: rewrite_log_def Let_def split: sum.splits prod.splits dest!: io_call_disk)

lemma compact_steps:
  assumes "compact c s up_to applied = (r, s')" "fs_base_index s < up_to"
  obtains "s' = s" "isl r"
  | d e where "up_to \<le> fs_last_index s" "isl r" "write_compaction c up_to (entry_term (fs_entries s ! (up_to - fs_base_index s - 1))) (fs_disk s) = (Inl e, d)"
      "s' = s\<lparr>fs_disk := d\<rparr>"
  | d r1 where "up_to \<le> fs_last_index s"
      "write_compaction c up_to (entry_term (fs_entries s ! (up_to - fs_base_index s - 1))) (fs_disk s) = (Inr (), d)"
      "rewrite_log c (s\<lparr>fs_disk := d, fs_base_index := up_to,
         fs_base_term := entry_term (fs_entries s ! (up_to - fs_base_index s - 1)),
         fs_entries := filter (\<lambda>e. up_to < entry_index e) (fs_entries s)\<rparr>) = (r1, s')" "isl r = isl r1"
proof (cases "plan_compaction s up_to applied False")
  case (Inl e)
  then have "s' = s" "r = Inl e" using assms(1) by (simp_all add: compact_def)
  then show ?thesis by (intro that(1)) simp_all
next
  case (Inr p)
  let ?t = "entry_term (fs_entries s ! (up_to - fs_base_index s - 1))"
  have p: "co_compacted p" "up_to \<le> fs_last_index s" "co_last_included_term p = ?t"
    using plan_cases[OF Inr] assms(2) term_at_entry[of s up_to] by auto
  obtain rw d where w: "write_compaction c up_to ?t (fs_disk s) = (rw, d)" by fastforce
  let ?s = "s\<lparr>fs_disk := d, fs_base_index := up_to, fs_base_term := ?t,
         fs_entries := filter (\<lambda>e. up_to < entry_index e) (fs_entries s)\<rparr>"
  obtain r1 s1 where r1: "rewrite_log c ?s = (r1, s1)" by fastforce
  show ?thesis
  proof (cases rw)
    case (Inl e)
    then have "s' = s\<lparr>fs_disk := d\<rparr>" "r = Inl e" using assms(1) Inr p w by (simp_all add: compact_def)
    then show ?thesis using that(2)[OF p(2), of e d] w Inl by simp
  next
    case rw: (Inr u)
    have "s1 = s'" "isl r = isl r1"
      using assms(1) p w rw r1 by (cases r1, auto simp: compact_def Let_def Inr)+
    then show ?thesis using that(3)[OF p(2)] w rw r1 by simp
  qed
qed


text \<open>A store without its disk, and what a restart finds on a disk.\<close>

definition fs_view :: "file_storage \<Rightarrow> (log_index \<times> trm) \<times> log_entry list \<times> hard_state" where
  "fs_view s = (fs_base s, fs_entries s, fs_hard_state s)"

definition reopened :: "codec \<Rightarrow> disk \<Rightarrow> (raft_error, (log_index \<times> trm) \<times> log_entry list \<times> hard_state) result" where
  "reopened c d = map_sum id fs_view (fst (fs_open c (d\<lparr>d_script := []\<rparr>)))"

lemma reopened_frames:
  assumes "meta_file c (d_compaction d) b" "state_file c (d_state d) hs" "d_log d = Some (frames c es @ t)" "torn c t"
    and "length (frames c es @ t) < 9223372036854775808" "\<forall>e \<in> set es. entry_codec c e" "log_ok b es"
  shows "reopened c d = Inr (b, es, hs)"
  unfolding reopened_def
  by (subst fs_open_frames[of _ c b hs es t]) (use assms in \<open>auto simp: fs_view_def fs_base_def\<close>)

lemma reopened_on_disk: "on_disk c s \<Longrightarrow> reopened c (fs_disk s) = Inr (fs_view s)"
  by (simp add: reopened_def fs_reopen) (simp add: fs_view_def fs_base_def)

lemma reopened_disagrees:
  assumes "meta_file c (d_compaction d) (k, t)" "d_log d = Some (frames c (e # es))" "entry_codec c e"
    and "length (frames c (e # es)) < 9223372036854775808" "k \<noteq> 0" "entry_index e \<noteq> k + 1"
  shows "reopened c d = Inl (Corruption (BoundaryDisagrees k (entry_index e)))"
proof -
  let ?d = "d\<lparr>d_script := []\<rparr>"
  have io: "io_call e = (Inr (), e)" if "d_script e = []" for e
    using that by (simp add: io_call_def io_next_def)
  have comp: "load_compaction c ?d = (Inr (k, t), ?d)"
    using assms(1) by (auto simp: load_compaction_def io meta_file_def meta_of_def split: option.splits)
  obtain p where p: "frame c e = be_bytes 8 (length p) @ be_bytes 4 (unat (crc32 c p)) @ p"
    "entry_from_slice c p = Some e" "length p < 9223372036854775808"
    using entry_codecE[OF assms(3)] .
  note h = frame_header[OF p(3), of "frames c (e # es)" "[]" "crc32 c p" "frames c es"]
  have "replay_loop c (frames c (e # es)) k 0 k t True [] = Inl (Corruption (BoundaryDisagrees k (entry_index e)))"
    using assms(4-6) p h by (subst replay_loop.simps) (simp add: Let_def index_next_def del: be_bytes.simps)
  then have "replay_log c k t ?d = (Inl (Corruption (BoundaryDisagrees k (entry_index e))), ?d)"
    using assms(2) by (simp add: replay_log_def io)
  then show ?thesis using comp by (simp add: reopened_def fs_open_def io)
qed

text \<open>A power loss cuts the log to \<open>n\<close> bytes, but keeps what was synced.\<close>

definition log_lost :: "nat \<Rightarrow> disk \<Rightarrow> disk" where
  "log_lost n d = d\<lparr>d_log := map_option (take (max n (d_synced d))) (d_log d)\<rparr>"

lemma reopened_prefix:
  assumes "on_disk c s" "\<forall>e \<in> set es. entry_codec c e" "length (frames c (fs_entries s @ es)) < 9223372036854775808"
    and "d_log d = Some (frames c (fs_entries s) @ take k (frames c es))" "d_state d = d_state (fs_disk s)"
    "d_compaction d = d_compaction (fs_disk s)" "k \<noteq> 0 \<longrightarrow> log_ok (fs_base s) (fs_entries s @ es)"
  shows "\<exists>j \<le> length es. reopened c d = Inr (fs_base s, fs_entries s @ take j es, fs_hard_state s) \<and>
    (length (frames c es) \<le> k \<longrightarrow> j = length es)"
proof -
  have od: "meta_file c (d_compaction d) (fs_base s)" "state_file c (d_state d) (fs_hard_state s)"
    "\<forall>e \<in> set (fs_entries s). entry_codec c e" "log_ok (fs_base s) (fs_entries s)"
    using assms(1,5,6) by (auto simp: on_disk_def fs_good_def)
  obtain j t where j: "j \<le> length es" "take k (frames c es) = frames c (take j es) @ t" "torn c t"
    "length (frames c es) \<le> k \<longrightarrow> j = length es"
    using take_frames[OF assms(2), of k] by (cases "length (frames c es) \<le> k") (auto simp: torn_def)
  have "log_ok (fs_base s) (fs_entries s @ take j es)"
  proof (cases "k = 0")
    case True
    then have "frames c (take j es) = []" using j(2) by simp
    moreover have "frame c e \<noteq> []" if "e \<in> set es" for e
      using entry_codecE[OF assms(2)[rule_format, OF that]] by (metis append_is_Nil_conv length_0_conv length_be_bytes zero_neq_numeral)
    ultimately have "take j es = []" by (cases es; cases j) auto
    then show ?thesis using od(4) by auto
  next
    case False
    then show ?thesis using log_ok_take[of "fs_base s" "fs_entries s @ es" "length (fs_entries s) + j"] assms(7) by simp
  qed
  moreover have "length (frames c (fs_entries s) @ take k (frames c es)) \<le> length (frames c (fs_entries s @ es))" by simp
  moreover have "\<forall>e \<in> set (fs_entries s @ take j es). entry_codec c e"
    using od(3) assms(2) set_take_subset[of j es] by auto
  ultimately have "reopened c d = Inr (fs_base s, fs_entries s @ take j es, fs_hard_state s)"
    by (intro reopened_frames[where t = t]) (use od assms(3,4) j in auto)
  then show ?thesis using j(1,4) by blast
qed

lemma append_reopened:
  assumes "on_disk c s" "fs_append c s es = (r, s')" "\<forall>e \<in> set es. entry_codec c e"
    and "length (frames c (fs_entries s @ es)) < 9223372036854775808"
    and "d' = fs_disk s' \<or> d' = log_lost n (fs_disk s') \<and> d_synced (fs_disk s) = length (frames c (fs_entries s))"
  shows "\<exists>j \<le> length es. reopened c d' = Inr (fs_base s, fs_entries s @ take j es, fs_hard_state s) \<and>
    (r = Inr () \<longrightarrow> j = length es)"
proof -
  let ?b = "frames c (fs_entries s)" and ?f = "frames c es"
  obtain k where k: "d_log (fs_disk s') = Some (?b @ take k ?f)" "r = Inr () \<longrightarrow> length ?f \<le> k"
    "d_state (fs_disk s') = d_state (fs_disk s)" "d_compaction (fs_disk s') = d_compaction (fs_disk s)"
    "d_synced (fs_disk s') = (if r = Inr () \<and> es \<noteq> [] then length (?b @ ?f) else d_synced (fs_disk s))"
    "k \<noteq> 0 \<longrightarrow> log_ok (fs_base s) (fs_entries s @ es)"
    using append_disk[OF assms(2) _ _ assms(3)] assms(1) by (auto simp: on_disk_def)
  have "\<exists>k'. d_log d' = Some (?b @ take k' ?f) \<and> (k' \<noteq> 0 \<longrightarrow> k \<noteq> 0) \<and> (r = Inr () \<longrightarrow> length ?f \<le> k')"
    using assms(5)
  proof
    assume "d' = fs_disk s'"
    then show ?thesis using k by (intro exI[of _ k]) simp
  next
    assume l: "d' = log_lost n (fs_disk s') \<and> d_synced (fs_disk s) = length ?b"
    let ?m = "max n (d_synced (fs_disk s'))"
    have "length ?b \<le> ?m" using l k(5) by auto
    then have "take ?m (?b @ take k ?f) = ?b @ take (min (?m - length ?b) k) ?f" by simp
    moreover have "r = Inr () \<longrightarrow> length ?f \<le> min (?m - length ?b) k" using k(2,5) by (cases "es = []") auto
    ultimately show ?thesis using l k(1)
      by (intro exI[of _ "min (?m - length ?b) k"]) (auto simp: log_lost_def)
  qed
  then obtain k' where k': "d_log d' = Some (?b @ take k' ?f)" "k' \<noteq> 0 \<longrightarrow> k \<noteq> 0" "r = Inr () \<longrightarrow> length ?f \<le> k'" by blast
  have "d_state d' = d_state (fs_disk s)" "d_compaction d' = d_compaction (fs_disk s)"
    using assms(5) k(3,4) by (auto simp: log_lost_def)
  then show ?thesis using reopened_prefix[OF assms(1,3,4) k'(1)] k(6) k'(2,3) by blast
qed

lemma compacted_good:
  assumes "fs_good s" "fs_base_index s < k" "k \<le> fs_last_index s"
  shows "log_ok (k, entry_term (fs_entries s ! (k - fs_base_index s - 1))) (drop (k - fs_base_index s) (fs_entries s))"
  using cut_log[of "fs_base s" "fs_entries s" k] assms by (simp add: fs_good_def fs_base_def fs_last_index_def)

text \<open>A compaction stopped at any I/O call leaves the old store, the new one, or a boundary
  ahead of the retained log, which a restart refuses to open.\<close>

lemma compact_reopened:
  assumes "on_disk c s" "compact c s up_to applied = (r, s')" "fs_base_index s < up_to"
    and "t = entry_term (fs_entries s ! (up_to - fs_base_index s - 1))" "meta_codec c (meta_of (up_to, t))"
  shows "reopened c (fs_disk s') = Inr ((up_to, t), drop (up_to - fs_base_index s) (fs_entries s), fs_hard_state s) \<or>
    isl r \<and> (reopened c (fs_disk s') = Inr (fs_view s) \<or>
      reopened c (fs_disk s') = Inl (Corruption (BoundaryDisagrees up_to (fs_base_index s + 1))))"
proof -
  have od: "meta_file c (d_compaction (fs_disk s)) (fs_base s)" "state_file c (d_state (fs_disk s)) (fs_hard_state s)"
    "d_log (fs_disk s) = Some (frames c (fs_entries s))" "fs_good s" "\<forall>e \<in> set (fs_entries s). entry_codec c e"
    "length (frames c (fs_entries s)) < 9223372036854775808"
    using assms(1) by (auto simp: on_disk_def)
  let ?es = "drop (up_to - fs_base_index s) (fs_entries s)"
  from assms(2,3) show ?thesis
  proof (cases rule: compact_steps)
    case 1
    then show ?thesis using reopened_on_disk[OF assms(1)] by simp
  next
    case (2 d e)
    have "d_log d = d_log (fs_disk s)" "d_state d = d_state (fs_disk s)" "d_compaction d = d_compaction (fs_disk s)"
      using write_compaction_cases[OF 2(3)] assms(4,5) by auto
    then have "reopened c (fs_disk s') = Inr (fs_base s, fs_entries s, fs_hard_state s)"
      using od 2(4) by (intro reopened_frames[where t = "[]"]) (auto simp: torn_def fs_good_def)
    then show ?thesis using 2(2) by (simp add: fs_view_def)
  next
    case (3 d r1)
    have f: "filter (\<lambda>e. up_to < entry_index e) (fs_entries s) = ?es"
      using filter_index_drop[of "fs_base s" "fs_entries s" up_to] od(4) assms(3) by (simp add: fs_good_def fs_base_def)
    have w: "d_log d = d_log (fs_disk s)" "d_state d = d_state (fs_disk s)" "meta_file c (d_compaction d) (up_to, t)"
      using write_compaction_cases[OF 3(2)] assms(4,5) by auto
    have codec: "\<forall>e \<in> set ?es. entry_codec c e" using od(5) set_drop_subset by fastforce
    note rw = rewrite_cases[OF 3(3)]
    have disk: "d_state (fs_disk s') = d_state (fs_disk s)" "meta_file c (d_compaction (fs_disk s')) (up_to, t)"
      "d_log (fs_disk s') = Some (frames c ?es) \<or> r1 \<noteq> Inr () \<and> d_log (fs_disk s') = d_log (fs_disk s)"
      using rw codec f w by auto
    from disk(3) show ?thesis
    proof
      assume "d_log (fs_disk s') = Some (frames c ?es)"
      then have "reopened c (fs_disk s') = Inr ((up_to, t), ?es, fs_hard_state s)"
        using od disk codec compacted_good[OF od(4) assms(3) 3(1)] assms(4) frames_drop[of c "up_to - fs_base_index s" "fs_entries s"]
        by (intro reopened_frames[where t = "[]"]) (auto simp: torn_def)
      then show ?thesis by simp
    next
      assume old: "r1 \<noteq> Inr () \<and> d_log (fs_disk s') = d_log (fs_disk s)"
      obtain e es where e: "fs_entries s = e # es"
        using 3(1) assms(3) by (cases "fs_entries s") (auto simp: fs_last_index_def)
      have "entry_index e = fs_base_index s + 1" using od(4) e by (auto simp: fs_good_def log_ok_def fs_base_def)
      then have "reopened c (fs_disk s') = Inl (Corruption (BoundaryDisagrees up_to (fs_base_index s + 1)))"
        using reopened_disagrees[OF disk(2), of e es] old od(3,5,6) e assms(3) by simp
      moreover have "isl r" using 3(4) old by (cases r1) auto
      ultimately show ?thesis by simp
    qed
  qed
qed

lemma compact_reads:
  assumes "fs_good s" "compact c s up_to applied = (Inr p, s')"
  shows "fs_last_index s' = fs_last_index s \<and> fs_hard_state s' = fs_hard_state s \<and>
    fs_base_index s' = max up_to (fs_base_index s) \<and> fs_good s' \<and>
    up_to \<le> hs_commit_index (fs_hard_state s) \<and> up_to \<le> applied \<and>
    (\<forall>k > fs_base_index s'. fs_entry_at s' k = fs_entry_at s k) \<and>
    (\<forall>k \<ge> fs_base_index s'. fs_term_at s' k = fs_term_at s k)"
proof (cases "fs_base_index s < up_to")
  case False
  then show ?thesis
    using assms plan_cases[of s up_to applied False p]
    by (auto simp: compact_def split: sum.splits if_splits prod.splits)
next
  case True
  let ?t = "entry_term (fs_entries s ! (up_to - fs_base_index s - 1))"
  from assms(2) True show ?thesis
  proof (cases rule: compact_steps)
    case (3 d r1)
    have f: "filter (\<lambda>e. up_to < entry_index e) (fs_entries s) = drop (up_to - fs_base_index s) (fs_entries s)"
      using filter_index_drop[of "fs_base s" "fs_entries s" up_to] assms(1) True by (simp add: fs_good_def fs_base_def)
    have s': "fs_entries s' = drop (up_to - fs_base_index s) (fs_entries s)" "fs_hard_state s' = fs_hard_state s"
      "fs_base_index s' = up_to" "fs_base_term s' = ?t"
      using rewrite_log_keeps[OF 3(3)] f by (auto simp: fs_base_def)
    have pl: "plan_compaction s up_to applied False = Inr p"
      using assms(2) by (auto simp: compact_def Let_def split: sum.splits if_splits prod.splits)
    have "fs_entry_at s' k = fs_entry_at s k" if "up_to < k" for k
      using that True 3(1) by (auto simp: fs_entry_at_def fs_slot_def s' Let_def fs_last_index_def add.commute)
    moreover have "fs_term_at s' k = fs_term_at s k" if "up_to \<le> k" for k
      using that True 3(1) term_at_entry[OF True 3(1)]
      by (cases "k = up_to") (auto simp: fs_term_at_def fs_slot_def s' Let_def fs_last_index_def add.commute)
    ultimately show ?thesis
      using s' 3(1) True plan_cases[OF pl] compacted_good[OF assms(1) True 3(1)]
      by (auto simp: fs_last_index_def fs_good_def fs_base_def)
  qed auto
qed


lemma install_on_disk:
  assumes "on_disk c s" "install_snapshot c s lii lit = (Inr b, s')" "meta_codec c (meta_of (lii, lit))"
    and "state_codec c ((fs_hard_state s)\<lparr>hs_commit_index := lii\<rparr>)"
  shows "on_disk c s' \<and> b = (fs_base_index s < lii) \<and>
    (fs_base_index s < lii \<longrightarrow> fs_base s' = (lii, lit) \<and>
       hs_commit_index (fs_hard_state s') = max lii (hs_commit_index (fs_hard_state s)) \<and>
       fs_entries s' = (if fs_term_at s lii = Some lit then drop (lii - fs_base_index s) (fs_entries s) else []))"
proof (cases "fs_base_index s < lii")
  case False
  then show ?thesis using assms(1,2) by (auto simp: install_snapshot_def)
next
  case True
  have od: "meta_file c (d_compaction (fs_disk s)) (fs_base s)" "state_file c (d_state (fs_disk s)) (fs_hard_state s)"
    "d_log (fs_disk s) = Some (frames c (fs_entries s))" "fs_good s" "\<forall>e \<in> set (fs_entries s). entry_codec c e"
    "length (frames c (fs_entries s)) < 9223372036854775808"
    using assms(1) by (auto simp: on_disk_def)
  let ?es = "if fs_term_at s lii = Some lit then drop (lii - fs_base_index s) (fs_entries s) else []"
  have f: "filter (\<lambda>e. lii < entry_index e) (fs_entries s) = drop (lii - fs_base_index s) (fs_entries s)"
    using filter_index_drop[of "fs_base s" "fs_entries s" lii] od(4) True by (simp add: fs_good_def fs_base_def)
  obtain rw d where w: "write_compaction c lii lit (fs_disk s) = (rw, d)" by fastforce
  have rw: "rw = Inr ()" using assms(2) True w by (cases rw) (auto simp: install_snapshot_def)
  let ?s = "s\<lparr>fs_disk := d, fs_entries := ?es, fs_base_index := lii, fs_base_term := lit\<rparr>"
  obtain r1 s1 where r1: "rewrite_log c ?s = (r1, s1)" by fastforce
  have r1': "r1 = Inr ()"
    using assms(2) True w rw r1 f by (cases r1) (auto simp: install_snapshot_def Let_def split: if_splits)
  have codec: "\<forall>e \<in> set ?es. entry_codec c e" using od(5) set_drop_subset by fastforce
  have good: "log_ok (lii, lit) ?es"
  proof (cases "fs_term_at s lii = Some lit")
    case t: True
    then have "lii \<le> fs_last_index s" using True by (auto simp: fs_term_at_def fs_slot_def fs_last_index_def Let_def split: if_splits)
    then show ?thesis using compacted_good[OF od(4) True] term_at_entry[OF True] t by simp
  qed (simp add: log_ok_def)
  have len: "length (frames c ?es) \<le> length (frames c (fs_entries s))"
    using frames_drop by simp
  have keep: "fs_entries s1 = ?es" "fs_hard_state s1 = fs_hard_state s" "fs_base s1 = (lii, lit)"
    using rewrite_log_keeps[OF r1] by (auto simp: fs_base_def)
  have "on_disk c s1"
    using rewrite_on_disk[of c ?s s1] r1 r1' codec write_compaction_cases[OF w assms(3)] rw od keep good len
    by (auto simp: on_disk_def fs_good_def)
  moreover have "if hs_commit_index (fs_hard_state s) < lii
      then b \<and> fs_save_hard_state c s1 ((fs_hard_state s)\<lparr>hs_commit_index := lii\<rparr>) = (Inr (), s') else b \<and> s' = s1"
    using assms(2) True w rw r1 r1' f keep(2)
    by (auto simp: install_snapshot_def Let_def split: if_splits sum.splits prod.splits)
  ultimately show ?thesis
    using save_on_disk[of c s1 _ s'] assms(4) fs_save_law[of c s1 "(fs_hard_state s)\<lparr>hs_commit_index := lii\<rparr>" "Inr ()" s'] keep True
    by (auto split: if_splits)
qed

end
