(* ===== verification/Raft_Durability.thy ===== *)
theory Raft_Durability
  imports Raft_File
begin

text \<open>
  What the file-backed log of \<open>crates/auradb-raft/src/storage.rs\<close> keeps across crashes and
  I/O errors, stated through \<open>reopened\<close>: the view a restart gets from the bytes on disk.
  The last section states three defects that appear only when a write, a sync or a reopening fails.
  \<open>demo_codec\<close> is a small codec for which the assumptions on the JSON encoder and on the
  checksum hold, so that every theorem is applied to a concrete store.
\<close>

section \<open>A small codec and stores for examples\<close>

definition demo_entry :: "nat \<Rightarrow> nat \<Rightarrow> u8 \<Rightarrow> log_entry" where
  "demo_entry t i b = \<lparr>entry_term = t, entry_index = i, entry_command = command_new Database [b]\<rparr>"

definition demo_codec :: codec where
  "demo_codec =
     \<lparr>entry_to_vec = (\<lambda>e. Some (word_of_nat (entry_term e) # word_of_nat (entry_index e) # cmd_payload (entry_command e))),
      entry_from_slice = (\<lambda>bs. case bs of t # i # p \<Rightarrow>
         Some \<lparr>entry_term = unat t, entry_index = unat i, entry_command = command_new Database p\<rparr> | _ \<Rightarrow> None),
      state_to_string = (\<lambda>h. Some [word_of_nat (current_term h), (case voted_for h of None \<Rightarrow> 0 | Some v \<Rightarrow> ucast v),
         word_of_nat (hs_commit_index h)]),
      state_from_str = (\<lambda>bs. case bs of [t, v, k] \<Rightarrow>
         Some \<lparr>current_term = unat t, voted_for = (if v = 0 then None else Some (ucast v)), hs_commit_index = unat k\<rparr> | _ \<Rightarrow> None),
      meta_to_string = (\<lambda>m. Some [word_of_nat (cm_format_version m), word_of_nat (cm_last_included_index m),
         word_of_nat (cm_last_included_term m)]),
      meta_from_str = (\<lambda>bs. case bs of [v, i, t] \<Rightarrow>
         Some \<lparr>cm_format_version = unat v, cm_last_included_index = unat i, cm_last_included_term = unat t\<rparr> | _ \<Rightarrow> None),
      crc32 = (\<lambda>bs. foldl (\<lambda>a b. a * 31 + ucast b) 0 bs)\<rparr>"

definition demo_store :: "io_outcome list \<Rightarrow> log_entry list \<Rightarrow> hard_state \<Rightarrow> file_storage" where
  "demo_store script es hs =
     \<lparr>fs_disk = \<lparr>d_log = Some (frames demo_codec es), d_state = state_to_string demo_codec hs, d_compaction = None,
                d_synced = length (frames demo_codec es), d_script = script\<rparr>,
      fs_entries = es, fs_hard_state = hs, fs_base_index = 0, fs_base_term = 0, fs_attached = True\<rparr>"

definition demo_hs :: "nat \<Rightarrow> hard_state" where
  "demo_hs k = \<lparr>current_term = 1, voted_for = Some 2, hs_commit_index = k\<rparr>"

lemma demo_on_disk: "on_disk demo_codec (demo_store script [demo_entry 1 1 7, demo_entry 1 2 8] (demo_hs 2))"
  by (simp add: on_disk_def demo_store_def fs_good_def fs_base_def log_ok_def demo_entry_def entry_codec_def demo_codec_def
      command_new_def COMMAND_VERSION_def frame_def encode_frame_def meta_file_def state_file_def demo_hs_def All_less_Suc2
      less_Suc_eq utf8_cont_def)

lemma save_reopened:
  assumes "on_disk c s" "fs_save_hard_state c s hs = (r, s')" "state_codec c hs"
  shows "reopened c (fs_disk s') = Inr (fs_base s, fs_entries s, if r = Inr () then hs else fs_hard_state s)"
proof (cases "r = Inr ()")
  case True
  then show ?thesis
    using reopened_on_disk[OF save_on_disk[OF assms(1) _ assms(3)]] assms(2) fs_save_law[OF assms(2)]
    by (auto simp: fs_view_def)
next
  case False
  obtain b where b: "state_to_string c hs = Some b" using assms(3) by (auto simp: state_codec_def)
  obtain e d where e: "io_replace (d_state_update (\<lambda>_. Some b)) (fs_disk s) = (Inl e, d)" "s' = s\<lparr>fs_disk := d\<rparr>"
    using assms(2) b False by (auto simp: fs_save_hard_state_def split: sum.splits prod.splits)
  have "on_disk c s'" using assms(1) e(2) io_replace_err[OF e(1)] by (simp add: on_disk_def fs_good_def fs_base_def)
  then show ?thesis using reopened_on_disk[of c s'] e(2) False by (simp add: fs_view_def fs_base_def)
qed

section \<open>Durability\<close>

text \<open>C12. From a consistent directory, an I/O error or a crash at any point of an append loses nothing that was
  stored: a restart finds the old log followed by some of the new entries in order, and all of
  them when the append returned \<open>Ok\<close>.  If the old log was synced, the same holds after a power loss that cuts
  the log to any length from its last sync on.\<close>

theorem append_crash_safe:
  assumes "on_disk c s" "fs_append c s es = (r, s')" "\<forall>e \<in> set es. entry_codec c e"
    "length (frames c (fs_entries s @ es)) < 9223372036854775808"
  shows "(\<exists>j \<le> length es. reopened c (fs_disk s') = Inr (fs_base s, fs_entries s @ take j es, fs_hard_state s) \<and>
      (r = Inr () \<longrightarrow> j = length es)) \<and>
    (d_synced (fs_disk s) = length (frames c (fs_entries s)) \<longrightarrow>
      (\<exists>j \<le> length es. reopened c (log_lost n (fs_disk s')) = Inr (fs_base s, fs_entries s @ take j es, fs_hard_state s) \<and>
        (r = Inr () \<longrightarrow> j = length es)))"
  using append_reopened[OF assms, of "fs_disk s'"] append_reopened[OF assms, of "log_lost n (fs_disk s')" n] by blast

lemma demo_append:
  "fst (fs_append demo_codec (demo_store [IoFail 20] [demo_entry 1 1 7, demo_entry 1 2 8] (demo_hs 2))
     [demo_entry 1 3 9, demo_entry 1 4 10]) = Inl Io"
  by code_simp

theorem append_crash_safe_witness:
  "\<exists>s s'. fs_append demo_codec s [demo_entry 1 3 9, demo_entry 1 4 10] = (Inl Io, s') \<and> on_disk demo_codec s \<and>
     (\<exists>j \<le> 2. reopened demo_codec (log_lost 0 (fs_disk s')) =
        Inr (fs_base s, fs_entries s @ take j [demo_entry 1 3 9, demo_entry 1 4 10], fs_hard_state s))"
proof -
  let ?s = "demo_store [IoFail 20] [demo_entry 1 1 7, demo_entry 1 2 8] (demo_hs 2)"
  let ?es = "[demo_entry 1 3 9, demo_entry 1 4 10]"
  obtain s' where s': "fs_append demo_codec ?s ?es = (Inl Io, s')"
    using demo_append by (cases "fs_append demo_codec ?s ?es") auto
  have "\<forall>e \<in> set ?es. entry_codec demo_codec e"
    by (simp add: entry_codec_def demo_codec_def demo_entry_def command_new_def COMMAND_VERSION_def)
  moreover have "length (frames demo_codec (fs_entries ?s @ ?es)) < 9223372036854775808"
    by (simp add: demo_store_def frame_def encode_frame_def demo_codec_def demo_entry_def command_new_def)
  moreover have "d_synced (fs_disk ?s) = length (frames demo_codec (fs_entries ?s))" by (simp add: demo_store_def)
  ultimately obtain j where "j \<le> length ?es"
    "reopened demo_codec (log_lost 0 (fs_disk s')) = Inr (fs_base ?s, fs_entries ?s @ take j ?es, fs_hard_state ?s)"
    using append_crash_safe[OF demo_on_disk s', of 0] by blast
  then show ?thesis
    using s' demo_on_disk by (intro exI[of _ ?s] exI[of _ s'] conjI exI[of _ j]) simp_all
qed

text \<open>C20. A hard state whose save returned \<open>Ok\<close> is what a restart finds; after a failed save
  it finds the previous one.\<close>

theorem hard_state_survives:
  assumes "on_disk c s" "fs_save_hard_state c s hs = (r, s')" "state_codec c hs"
  shows "reopened c (fs_disk s') = Inr (fs_base s, fs_entries s, if r = Inr () then hs else fs_hard_state s)"
  by (rule save_reopened[OF assms])

theorem hard_state_survives_witness:
  "\<exists>s'. fs_save_hard_state demo_codec (demo_store [] [demo_entry 1 1 7, demo_entry 1 2 8] (demo_hs 2)) (demo_hs 1) = (Inr (), s') \<and>
     reopened demo_codec (fs_disk s') = Inr ((0, 0), [demo_entry 1 1 7, demo_entry 1 2 8], demo_hs 1)"
proof -
  let ?s = "demo_store [] [demo_entry 1 1 7, demo_entry 1 2 8] (demo_hs 2)"
  obtain s' where s': "fs_save_hard_state demo_codec ?s (demo_hs 1) = (Inr (), s')"
    by (simp add: fs_save_hard_state_def demo_codec_def demo_hs_def demo_store_def io_replace_def io_call_def io_next_def)
  have "state_codec demo_codec (demo_hs 1)" by (simp add: state_codec_def demo_codec_def demo_hs_def utf8_cont_def)
  then show ?thesis
    using hard_state_survives[OF demo_on_disk s'] s' by (simp add: demo_store_def fs_base_def)
qed


text \<open>C11. A compaction interrupted at any I/O call leaves a directory that a restart opens as the
  old store or as the compacted one, or refuses to open: when the new boundary was written and the log
  was not, the restart fails closed with a corruption error that names the disagreement.  It never opens as
  anything else, and when the compaction returned \<open>Ok\<close> it opens as the compacted store.\<close>

theorem compact_crash_safe:
  assumes "on_disk c s" "compact c s up_to applied = (r, s')" "fs_base_index s < up_to"
    "meta_codec c (meta_of (up_to, entry_term (fs_entries s ! (up_to - fs_base_index s - 1))))"
  shows "reopened c (fs_disk s') =
      Inr ((up_to, entry_term (fs_entries s ! (up_to - fs_base_index s - 1))),
           drop (up_to - fs_base_index s) (fs_entries s), fs_hard_state s) \<or>
    isl r \<and> (reopened c (fs_disk s') = Inr (fs_view s) \<or>
      reopened c (fs_disk s') = Inl (Corruption (BoundaryDisagrees up_to (fs_base_index s + 1))))"
  by (rule compact_reopened[OF assms(1-3) refl assms(4)])

lemma demo_meta: "meta_codec demo_codec (meta_of (1, 1))"
  by (simp add: meta_codec_def demo_codec_def meta_of_def COMPACTION_FORMAT_VERSION_def)

theorem compact_crash_safe_witness:
  "\<exists>s s' r. on_disk demo_codec s \<and> compact demo_codec s 1 2 = (r, s') \<and> \<not> isl r \<and>
     reopened demo_codec (fs_disk s') = Inr ((1, 1), [demo_entry 1 2 8], demo_hs 2)"
proof -
  let ?s = "demo_store [] [demo_entry 1 1 7, demo_entry 1 2 8] (demo_hs 2)"
  have "isl (fst (compact demo_codec ?s 1 2)) = False" by code_simp
  then obtain r s' where s': "compact demo_codec ?s 1 2 = (r, s')" "\<not> isl r"
    by (cases "compact demo_codec ?s 1 2") auto
  have "reopened demo_codec (fs_disk s') = Inr ((1, 1), [demo_entry 1 2 8], demo_hs 2)"
    using compact_crash_safe[OF demo_on_disk s'(1)] demo_meta s'(2) by (simp add: demo_store_def demo_entry_def)
  then show ?thesis using demo_on_disk s' by blast
qed

text \<open>C16. Compaction keeps the last index, the hard state, every entry after the new boundary and
  every term from the boundary on; a read of an index from 1 to the boundary fails as compacted, every other
  read returns what it returned before; and compaction is refused beyond the committed or the applied index.\<close>

theorem compact_preserves_reads:
  assumes "fs_good s" "compact c s up_to applied = (Inr p, s')"
  shows "fs_last_index s' = fs_last_index s \<and> fs_hard_state s' = fs_hard_state s \<and>
    fs_base_index s' = max up_to (fs_base_index s) \<and> fs_good s' \<and>
    up_to \<le> hs_commit_index (fs_hard_state s) \<and> up_to \<le> applied \<and>
    (\<forall>k > fs_base_index s'. fs_entry_at s' k = fs_entry_at s k) \<and>
    (\<forall>k \<ge> fs_base_index s'. fs_term_at s' k = fs_term_at s k) \<and>
    (\<forall>k. fs_read_at s' k =
       (if 0 < k \<and> k \<le> max up_to (fs_base_index s) then Inl (Compacted k (max up_to (fs_base_index s))) else fs_read_at s k))"
proof -
  note c = compact_reads[OF assms]
  have "fs_read_at s' k = (if 0 < k \<and> k \<le> max up_to (fs_base_index s) then Inl (Compacted k (max up_to (fs_base_index s)))
      else fs_read_at s k)" for k
    using c by (auto simp: fs_read_at_def fs_entry_at_def fs_slot_def)
  then show ?thesis using c by blast
qed

theorem compact_preserves_reads_witness:
  "\<exists>s s' p. compact demo_codec s 1 2 = (Inr p, s') \<and> fs_base_index s' = 1 \<and> fs_last_index s' = 2 \<and>
     fs_entry_at s' 2 = fs_entry_at s 2 \<and> fs_term_at s' 1 = Some 1 \<and> fs_read_at s' 1 = Inl (Compacted 1 1)"
proof -
  let ?s = "demo_store [] [demo_entry 1 1 7, demo_entry 1 2 8] (demo_hs 2)"
  have "isl (fst (compact demo_codec ?s 1 2)) = False" by code_simp
  then obtain p s' where s': "compact demo_codec ?s 1 2 = (Inr p, s')"
    by (cases "compact demo_codec ?s 1 2"; cases "fst (compact demo_codec ?s 1 2)") auto
  have "fs_good ?s" using demo_on_disk by (simp add: on_disk_def)
  from compact_preserves_reads[OF this s'] have "fs_base_index s' = 1" "fs_last_index s' = 2"
    "fs_entry_at s' 2 = fs_entry_at ?s 2" "fs_term_at s' 1 = fs_term_at ?s 1" "fs_read_at s' 1 = Inl (Compacted 1 1)"
    by (auto simp: demo_store_def fs_last_index_def)
  moreover have "fs_term_at ?s 1 = Some 1" by code_simp
  ultimately show ?thesis using s' by auto
qed

text \<open>C15. Installing a leader's snapshot that advances the boundary leaves a consistent
  directory with that boundary and a commit index at least there; the suffix after it is
  kept exactly when the log agrees with the snapshot at the boundary.\<close>

theorem install_snapshot_durable:
  assumes "on_disk c s" "install_snapshot c s lii lit = (Inr b, s')" "meta_codec c (meta_of (lii, lit))"
    "state_codec c ((fs_hard_state s)\<lparr>hs_commit_index := lii\<rparr>)" "fs_base_index s < lii"
  shows "b \<and> reopened c (fs_disk s') = Inr ((lii, lit),
      if fs_term_at s lii = Some lit then drop (lii - fs_base_index s) (fs_entries s) else [],
      fs_hard_state s') \<and>
    hs_commit_index (fs_hard_state s') = max lii (hs_commit_index (fs_hard_state s))"
  using install_on_disk[OF assms(1-4)] assms(5) reopened_on_disk[of c s'] by (auto simp: fs_view_def)

theorem install_snapshot_durable_witness:
  "\<exists>s s'. install_snapshot demo_codec s 5 3 = (Inr True, s') \<and> on_disk demo_codec s \<and>
     reopened demo_codec (fs_disk s') = Inr ((5, 3), [], fs_hard_state s') \<and> hs_commit_index (fs_hard_state s') = 5"
proof -
  let ?s = "demo_store [] [demo_entry 1 1 7, demo_entry 1 2 8] (demo_hs 2)"
  have "fst (install_snapshot demo_codec ?s 5 3) = Inr True" by code_simp
  then obtain s' where s': "install_snapshot demo_codec ?s 5 3 = (Inr True, s')"
    by (cases "install_snapshot demo_codec ?s 5 3") auto
  have m: "meta_codec demo_codec (meta_of (5, 3))"
    by (simp add: meta_codec_def demo_codec_def meta_of_def COMPACTION_FORMAT_VERSION_def)
  have st: "state_codec demo_codec ((fs_hard_state ?s)\<lparr>hs_commit_index := 5\<rparr>)"
    by (simp add: state_codec_def demo_codec_def demo_hs_def demo_store_def)
  have "fs_base_index ?s < 5" "fs_term_at ?s 5 = None" "hs_commit_index (fs_hard_state ?s) = 2"
    by (simp_all add: demo_store_def fs_term_at_def fs_slot_def demo_hs_def)
  then show ?thesis
    using install_snapshot_durable[OF demo_on_disk s' m st] s' demo_on_disk
    by (intro exI[of _ ?s] exI[of _ s']) simp
qed

text \<open>C14. On the file store, whatever I/O errors occur, no method of a node ever lowers its
  stored term or changes a vote it has stored in the current term.\<close>

theorem term_and_vote_stable:
  assumes "fs_good (rn_storage n)"
    "n' \<in> {tick (fs_ops c) n, campaign (fs_ops c) n, snd (propose (fs_ops c) cmd n), snd (step (fs_ops c) j m n)}"
  shows "fs_good (rn_storage n') \<and> fs_base (rn_storage n') = fs_base (rn_storage n) \<and>
    hs_le (fs_hard_state (rn_storage n)) (fs_hard_state (rn_storage n'))"
proof -
  have "store_advances (fs_ops c) fs_good fs_base (rn_storage n) (rn_storage n')"
    using assms(2) fstore.adv_tick fstore.adv_campaign fstore.adv_propose[of c cmd n] fstore.adv_step[of c j m n]
    by (metis empty_iff insert_iff prod.collapse)
  then show ?thesis using assms(1) by (simp add: store_advances_def)
qed

definition demo_node :: "io_outcome list \<Rightarrow> file_storage raft_node" where
  "demo_node script =
     node_new (fs_ops demo_codec)
       \<lparr>cfg_id = 1, cfg_peers = [2, 3], election_timeout_min = 10, election_timeout_max = 20, heartbeat_interval = 3\<rparr>
       (demo_store script [demo_entry 1 1 7, demo_entry 1 2 8] (demo_hs 2))"

lemma demo_node_storage: "rn_storage (demo_node script) = demo_store script [demo_entry 1 1 7, demo_entry 1 2 8] (demo_hs 2)"
  by (simp add: demo_node_def node_new_def Let_def)

theorem term_and_vote_stable_witness:
  "fs_good (rn_storage (demo_node [])) \<and>
   hs_le (demo_hs 2) (fs_hard_state (rn_storage (campaign (fs_ops demo_codec) (demo_node []))))"
proof -
  have g: "fs_good (rn_storage (demo_node []))"
    using demo_on_disk by (simp add: demo_node_storage on_disk_def)
  show ?thesis
    using term_and_vote_stable[OF g, of "campaign (fs_ops demo_codec) (demo_node [])" demo_codec] g
    by (simp add: demo_node_storage demo_store_def)
qed


text \<open>C13. A granted vote is durable before it is sent: when handling a vote request puts a
  positive reply in the outbox, a restart from the disk at that moment finds the vote.\<close>

theorem granted_vote_is_durable:
  assumes "on_disk c (rn_storage n)" "handle_request_vote (fs_ops c) cand t lli llt n = (r, n')"
    "outbox n' = outbox n @ [\<lparr>env_to = cand, env_message = RequestVoteResp t True\<rparr>]"
    "state_codec c ((fs_hard_state (rn_storage n))\<lparr>voted_for := Some cand\<rparr>)"
  shows "\<exists>hs. reopened c (fs_disk (rn_storage n')) = Inr (fs_base (rn_storage n), fs_entries (rn_storage n), hs) \<and>
    current_term hs = t \<and> voted_for hs = Some cand"
proof -
  let ?hs = "(fs_hard_state (rn_storage n))\<lparr>voted_for := Some cand\<rparr>"
  obtain rs st where st: "fs_save_hard_state c (rn_storage n) ?hs = (rs, st)" by fastforce
  have "rs = Inr () \<and> rn_storage n' = st \<and> current_term ?hs = t"
    using assms(2,3) st fs_save_law[OF st]
    by (auto simp: handle_request_vote_def Let_def send_def node_term_def split: if_splits sum.splits)
  then show ?thesis using save_reopened[OF assms(1) st assms(4)] by simp
qed

theorem granted_vote_is_durable_witness:
  "\<exists>n' hs. handle_request_vote (fs_ops demo_codec) 2 1 5 1 (demo_node []) = (Inr (), n') \<and>
     reopened demo_codec (fs_disk (rn_storage n')) = Inr ((0, 0), [demo_entry 1 1 7, demo_entry 1 2 8], hs) \<and>
     current_term hs = 1 \<and> voted_for hs = Some 2"
proof -
  let ?n = "demo_node []"
  have "fst (handle_request_vote (fs_ops demo_codec) 2 1 5 1 ?n) = Inr ()"
    "outbox (snd (handle_request_vote (fs_ops demo_codec) 2 1 5 1 ?n)) =
       outbox ?n @ [\<lparr>env_to = 2, env_message = RequestVoteResp 1 True\<rparr>]"
    by code_simp+
  then obtain n' where n': "handle_request_vote (fs_ops demo_codec) 2 1 5 1 ?n = (Inr (), n')"
    "outbox n' = outbox ?n @ [\<lparr>env_to = 2, env_message = RequestVoteResp 1 True\<rparr>]"
    by (cases "handle_request_vote (fs_ops demo_codec) 2 1 5 1 ?n") auto
  have d: "on_disk demo_codec (rn_storage ?n)" using demo_on_disk by (simp add: demo_node_storage)
  have st: "state_codec demo_codec ((fs_hard_state (rn_storage ?n))\<lparr>voted_for := Some 2\<rparr>)"
    by (simp add: state_codec_def demo_codec_def demo_hs_def demo_store_def demo_node_storage)
  show ?thesis
    using granted_vote_is_durable[OF d n' st] n'(1) by (auto simp: demo_node_storage demo_store_def fs_base_def)
qed

section \<open>Defects under I/O errors\<close>

lemma fs_append_hard_state: "fs_append c s es = (r, s') \<Longrightarrow> fs_hard_state s' = fs_hard_state s"
  by (auto simp: fs_append_def Let_def split: if_splits option.splits sum.splits prod.splits)

lemma broadcast_role [simp]: "role (broadcast_append ops n) = role n"
proof -
  have "role (fold (send_append_to ops) ps n) = role n" for ps
    by (induction ps arbitrary: n) (auto simp: send_append_to_def send_def Let_def)
  then show ?thesis by (simp add: broadcast_append_def)
qed

lemma fold_send_fields [simp]:
  "role (fold (\<lambda>p. send p m) ps n) = role n" "votes (fold (\<lambda>p. send p m) ps n) = votes n"
  "rn_config (fold (\<lambda>p. send p m) ps n) = rn_config n"
  by (induction ps arbitrary: n) (auto simp: send_def)

lemma maybe_advance_keeps:
  assumes "maybe_advance_commit (fs_ops c) n = (r, n')"
  shows "role n' = role n \<and> (\<exists>k. fs_hard_state (rn_storage n') = (fs_hard_state (rn_storage n))\<lparr>hs_commit_index := k\<rparr>)"
proof -
  have "\<exists>k. hs = hs\<lparr>hs_commit_index := k\<rparr>" for hs :: hard_state
    by (rule exI[of _ "hs_commit_index hs"]) simp
  then show ?thesis
    using assms by (auto simp: maybe_advance_commit_def persist_commit_index_def Let_def split: if_splits prod.splits
        dest!: fs_save_law)
qed

lemma fold_init_role [simp]: "role (fold (init_progress l) ps n) = role n"
  by (induction ps arbitrary: n) (auto simp: init_progress_def)

lemma become_leader_keeps:
  assumes "become_leader (fs_ops c) n = (r, n')"
  shows "role n' = Leader \<and> (\<exists>k. fs_hard_state (rn_storage n') = (fs_hard_state (rn_storage n))\<lparr>hs_commit_index := k\<rparr>)"
proof -
  have "\<exists>k. hs = hs\<lparr>hs_commit_index := k\<rparr>" for hs :: hard_state
    by (rule exI[of _ "hs_commit_index hs"]) simp
  then show ?thesis
    using assms by (auto simp: become_leader_def Let_def split: sum.splits prod.splits
        dest!: maybe_advance_keeps fs_append_hard_state)
qed

lemma campaign_failed_write:
  assumes "d_script (fs_disk (rn_storage n)) = IoFail k # script" "cfg_peers (rn_config n) = [p, q]"
  shows "role (campaign (fs_ops c) n) = Candidate" "rn_config (campaign (fs_ops c) n) = rn_config n"
    "votes (campaign (fs_ops c) n) = [(cfg_id (rn_config n), True)]"
    "fs_hard_state (rn_storage (campaign (fs_ops c) n)) = fs_hard_state (rn_storage n)"
proof -
  have "fs_hard_state (snd (fs_save_hard_state c (rn_storage n) hs)) = fs_hard_state (rn_storage n)" for hs
    using assms(1) by (auto simp: fs_save_hard_state_def io_replace_def io_call_def io_next_def split: option.splits)
  then show "role (campaign (fs_ops c) n) = Candidate" "rn_config (campaign (fs_ops c) n) = rn_config n"
    "votes (campaign (fs_ops c) n) = [(cfg_id (rn_config n), True)]"
    "fs_hard_state (rn_storage (campaign (fs_ops c) n)) = fs_hard_state (rn_storage n)"
    using assms(2) by (simp_all add: campaign_def Let_def majority_def voters_def reset_election_timeout_def next_rand_def
        del: fold.simps)
qed

text \<open>C21. \<open>campaign\<close> ignores a failed hard-state write.  When the write fails, the node stays in
  its old term but becomes a candidate in it, counts its own vote although its stored vote
  in that term went to another node, asks its peers for their votes in that term, and one
  positive reply makes it leader of a term for which it has voted for somebody else.\<close>

theorem campaign_ignores_failed_write:
  assumes "d_script (fs_disk (rn_storage n)) = IoFail k # script" "cfg_peers (rn_config n) = [p, q]"
    "cfg_id (rn_config n) \<noteq> q" "voted_for (fs_hard_state (rn_storage n)) = Some b" "b \<noteq> cfg_id (rn_config n)"
    "n1 = campaign (fs_ops c) n"
    "step (fs_ops c) q (RequestVoteResp (node_term (fs_ops c) n) True) n1 = (r, n2)"
  shows "role n1 = Candidate \<and> node_term (fs_ops c) n1 = node_term (fs_ops c) n \<and>
    om_get (votes n1) (cfg_id (rn_config n)) = Some True \<and>
    role n2 = Leader \<and> node_term (fs_ops c) n2 = node_term (fs_ops c) n \<and>
    voted_for (fs_hard_state (rn_storage n2)) = Some b"
proof -
  note n1 = campaign_failed_write[OF assms(1,2), of c, folded assms(6)]
  have m: "majority (rn_config n1) = 2" using n1(2) assms(2) by (simp add: majority_def voters_def)
  have "become_leader (fs_ops c) (n1\<lparr>votes := om_insert q True (votes n1)\<rparr>) = (r, n2)"
    using assms(3,7) n1 m by (auto simp: step_def handle_vote_resp_def node_term_def Let_def om_values_def)
  from become_leader_keeps[OF this] show ?thesis
    using n1 assms(4) by (auto simp: node_term_def)
qed

theorem campaign_ignores_failed_write_witness:
  "\<exists>n1 n2 r. n1 = campaign (fs_ops demo_codec) (demo_node [IoFail 0]) \<and>
     step (fs_ops demo_codec) 3 (RequestVoteResp 1 True) n1 = (r, n2) \<and>
     role n2 = Leader \<and> node_term (fs_ops demo_codec) n2 = 1 \<and> cfg_id (rn_config (demo_node [IoFail 0])) = 1 \<and>
     voted_for (fs_hard_state (rn_storage n2)) = Some 2"
proof -
  let ?n = "demo_node [IoFail 0]"
  have c: "rn_config ?n = \<lparr>cfg_id = 1, cfg_peers = [2, 3], election_timeout_min = 10, election_timeout_max = 20, heartbeat_interval = 3\<rparr>"
    by code_simp
  have h: "node_term (fs_ops demo_codec) ?n = 1" "voted_for (fs_hard_state (rn_storage ?n)) = Some 2"
    "d_script (fs_disk (rn_storage ?n)) = [IoFail 0]"
    by (simp_all add: demo_node_storage demo_store_def demo_hs_def node_term_def)
  obtain r n2 where s: "step (fs_ops demo_codec) 3 (RequestVoteResp 1 True) (campaign (fs_ops demo_codec) ?n) = (r, n2)"
    by fastforce
  show ?thesis
    using campaign_ignores_failed_write[OF h(3) _ _ h(2) _ refl, of 2 3 demo_codec r n2] s c h(1)
    by auto
qed

lemma replay_repeated_index:
  assumes "entry_codec c f" "length (pre @ frames c es @ frame c f) < 9223372036854775808"
  shows "\<forall>e \<in> set es. entry_codec c e \<Longrightarrow> log_ok (li, lt) es \<Longrightarrow> first \<longrightarrow> base = li \<and> es \<noteq> [] \<Longrightarrow>
    entry_index f \<noteq> li + length es + 1 \<Longrightarrow>
    replay_loop c (pre @ frames c es @ frame c f) base (length pre) li lt first acc =
      Inl (Corruption (BadSuffix (LogGap (li + length es + 1) (entry_index f))))"
  using assms(2)
proof (induction es arbitrary: pre li lt first acc)
  case Nil
  obtain p where p: "frame c f = be_bytes 8 (length p) @ be_bytes 4 (unat (crc32 c p)) @ p"
    "entry_from_slice c p = Some f" "length p < 9223372036854775808"
    using entry_codecE[OF assms(1)] .
  have "pre @ frame c f = pre @ (be_bytes 8 (length p) @ be_bytes 4 (unat (crc32 c p)) @ p) @ []" using p(1) by simp
  note h = frame_header[OF p(3) this, simplified]
  have l: "length (frame c f) = 12 + length p" using p(1) by simp
  show ?case
    unfolding frames_simps append_Nil
    using Nil l p(2) by (subst replay_loop.simps) (auto simp: h Let_def validate_suffix_def index_next_def)
next
  case (Cons e es)
  have ok: "entry_index e = li + 1" "lt \<le> entry_term e" "log_ok (li + 1, entry_term e) es"
    using Cons.prems(2) log_ok_append[of "(li, lt)" "[e]" es]
    by (auto simp: log_ok_def log_last_term_def)
  have "replay_loop c (pre @ frames c (e # es) @ frame c f) base (length pre) li lt first acc =
    replay_loop c (pre @ frames c (e # es) @ frame c f) base (length pre + length (frame c e)) (li + 1) (entry_term e)
      False (acc @ [e])"
    by (rule replay_one[where rest = "frames c es @ frame c f"]) (use Cons.prems ok in auto)
  also have "\<dots> = Inl (Corruption (BadSuffix (LogGap (li + length (e # es) + 1) (entry_index f))))"
    using Cons.IH[of "li + 1" "entry_term e" False "pre @ frame c e" "acc @ [e]"] Cons.prems ok(3) by (simp add: add.assoc)
  finally show ?case .
qed

lemma reopened_repeated_index:
  assumes "meta_file c (d_compaction d) b" "d_log d = Some (frames c es @ frame c f)" "es \<noteq> []"
    "length (frames c es @ frame c f) < 9223372036854775808" "\<forall>e \<in> set es. entry_codec c e" "entry_codec c f"
    "log_ok b es" "entry_index f \<noteq> fst b + length es + 1"
  shows "reopened c d = Inl (Corruption (BadSuffix (LogGap (fst b + length es + 1) (entry_index f))))"
proof -
  let ?d = "d\<lparr>d_script := []\<rparr>"
  have io: "io_call e = (Inr (), e)" if "d_script e = []" for e
    using that by (simp add: io_call_def io_next_def)
  have comp: "load_compaction c ?d = (Inr b, ?d)"
    using assms(1) by (auto simp: load_compaction_def io meta_file_def meta_of_def split: option.splits)
  have "replay_loop c (frames c es @ frame c f) (fst b) 0 (fst b) (snd b) True [] =
      Inl (Corruption (BadSuffix (LogGap (fst b + length es + 1) (entry_index f))))"
    using replay_repeated_index[OF assms(6), of "[]" es "fst b" "snd b" True "fst b" "[]"] assms(3-8) by simp
  then have "replay_log c (fst b) (snd b) ?d =
      (Inl (Corruption (BadSuffix (LogGap (fst b + length es + 1) (entry_index f)))), ?d)"
    using assms(2) by (simp add: replay_log_def io)
  then show ?thesis using comp by (cases b) (simp add: reopened_def fs_open_def io)
qed

text \<open>C22. An append whose write succeeds and whose sync fails reports an error and leaves its
  frame in the file.  The next append at that index is accepted, is acknowledged as durable,
  and makes the log unreadable: reopening fails with a corruption error.\<close>

theorem append_after_failed_sync_corrupts:
  assumes "on_disk c s" "d_script (fs_disk s) = IoOk # IoFail k # script"
    "fs_append c s [e] = (r, s1)" "fs_append c s1 [f] = (Inr (), s2)"
    "entry_codec c e" "entry_codec c f" "entry_index e = fs_last_index s + 1" "fs_last_term s \<le> entry_term e"
    "length (frames c (fs_entries s @ [e, f])) < 9223372036854775808"
  shows "r = Inl Io \<and> fs_entries s2 = fs_entries s @ [f] \<and>
    reopened c (fs_disk s2) = Inl (Corruption (BadSuffix (LogGap (entry_index f + 1) (entry_index f))))"
proof -
  have v: "validate_suffix [e] (fs_last_index s) (fs_last_term s) = Inr ()"
    using assms(7,8) by (simp add: validate_suffix_def index_next_def)
  have enc: "encode_frame c e = Inr (frame c e)" "encode_frame c f = Inr (frame c f)"
    using assms(5,6) by (auto elim: entry_codecE)
  have s1: "r = Inl Io" "s1 = s\<lparr>fs_disk := (fs_disk s)\<lparr>d_script := script, d_log := Some (frames c (fs_entries s @ [e]))\<rparr>\<rparr>"
    using assms(1-3) v enc by (auto simp: fs_append_def io_append_def log_append_def io_sync_def io_next_def on_disk_def)
  have g: "fs_good s1" "fs_base s1 = fs_base s" "fs_last_index s1 = fs_last_index s"
    using assms(1) s1(2) by (auto simp: on_disk_def fs_good_def fs_base_def fs_last_index_def)
  have law: "fs_entries s2 = fs_entries s @ [f]" "validate_suffix [f] (fs_last_index s) (fs_last_term s1) = Inr ()"
    using fs_append_law[OF assms(4) g(1)] g(3) s1(2) by auto
  have idx: "entry_index f = entry_index e" using law(2) assms(7) by (simp add: validate_suffix_def index_next_def split: if_splits)
  have d2: "d_log (fs_disk s2) = Some (frames c (fs_entries s @ [e]) @ frame c f)"
    "d_compaction (fs_disk s2) = d_compaction (fs_disk s)"
    using append_disk[OF assms(4) g(1), of "frames c (fs_entries s @ [e])"] assms(1,6) s1(2) by (auto simp: on_disk_def)
  have li: "fs_last_index s = fst (fs_base s) + length (fs_entries s)"
    using assms(1) by (simp add: on_disk_def fs_good_def fs_last_index_eq)
  have ok: "log_ok (fs_base s) (fs_entries s @ [e])"
    using validate_suffix_iff[of "fs_base s" "fs_entries s" "[e]"] v assms(1)
    by (simp add: on_disk_def fs_good_def fs_last_index_eq fs_last_term_eq)
  have "reopened c (fs_disk s2) = Inl (Corruption (BadSuffix
      (LogGap (fst (fs_base s) + length (fs_entries s @ [e]) + 1) (entry_index f))))"
    by (rule reopened_repeated_index)
      (use assms(1,5,6,9) d2 ok idx assms(7) li in \<open>auto simp: on_disk_def\<close>)
  then show ?thesis using s1(1) law(1) idx assms(7) li by simp
qed

theorem append_after_failed_sync_corrupts_witness:
  "\<exists>s1 s2. fs_append demo_codec
       (demo_store [IoOk, IoFail 0] [demo_entry 1 1 7, demo_entry 1 2 8] (demo_hs 2)) [demo_entry 1 3 9] = (Inl Io, s1) \<and>
     fs_append demo_codec s1 [demo_entry 1 3 5] = (Inr (), s2) \<and>
     reopened demo_codec (fs_disk s2) = Inl (Corruption (BadSuffix (LogGap 4 3)))"
proof -
  let ?s = "demo_store [IoOk, IoFail 0] [demo_entry 1 1 7, demo_entry 1 2 8] (demo_hs 2)"
  let ?s1 = "snd (fs_append demo_codec ?s [demo_entry 1 3 9])"
  let ?s2 = "snd (fs_append demo_codec ?s1 [demo_entry 1 3 5])"
  have "fst (fs_append demo_codec ?s1 [demo_entry 1 3 5]) = Inr ()" by code_simp
  then have a: "fs_append demo_codec ?s [demo_entry 1 3 9] = (fst (fs_append demo_codec ?s [demo_entry 1 3 9]), ?s1)"
    "fs_append demo_codec ?s1 [demo_entry 1 3 5] = (Inr (), ?s2)"
    by (simp, metis prod.collapse)
  have c: "entry_codec demo_codec (demo_entry 1 3 9)" "entry_codec demo_codec (demo_entry 1 3 5)"
    by (simp_all add: entry_codec_def demo_codec_def demo_entry_def command_new_def COMMAND_VERSION_def)
  have f: "entry_index (demo_entry 1 3 9) = fs_last_index ?s + 1" "fs_last_term ?s \<le> entry_term (demo_entry 1 3 9)"
    "entry_index (demo_entry 1 3 5) = 3" "d_script (fs_disk ?s) = IoOk # IoFail 0 # []"
    by (simp_all add: fs_last_index_def fs_last_term_def demo_store_def demo_entry_def)
  have "length (frames demo_codec (fs_entries ?s @ [demo_entry 1 3 9, demo_entry 1 3 5])) < 100" by code_simp
  then have l: "length (frames demo_codec (fs_entries ?s @ [demo_entry 1 3 9, demo_entry 1 3 5])) < 9223372036854775808"
    by linarith
  show ?thesis
    using append_after_failed_sync_corrupts[OF demo_on_disk f(4) a c f(1,2) l] a f(3)
    by (intro exI[of _ ?s1] exI[of _ ?s2]) auto
qed

text \<open>A third defect.  A truncation whose rename succeeds and whose reopening of the log fails leaves the append
  handle on the replaced file: later appends are acknowledged and never reach the log.\<close>

theorem append_after_failed_reopen_lost:
  assumes "on_disk c s" "d_script (fs_disk s) = [IoOk, IoOk, IoOk, IoOk, IoFail n]"
    "fs_base_index s < k" "k \<le> fs_last_index s" "fs_truncate_from c s k = (r, s1)" "fs_append c s1 es = (Inr (), s2)"
    "\<forall>e \<in> set es. entry_codec c e"
  shows "r = Inl Io \<and> fs_entries s2 = take (k - fs_base_index s - 1) (fs_entries s) @ es \<and>
    reopened c (fs_disk s2) = Inr (fs_base s, take (k - fs_base_index s - 1) (fs_entries s), fs_hard_state s)"
proof -
  let ?es = "take (k - fs_base_index s - 1) (fs_entries s)"
  have codec: "\<forall>e \<in> set ?es. entry_codec c e" using assms(1) set_take_subset by (fastforce simp: on_disk_def)
  have good: "log_ok (fs_base s) ?es" using assms(1) log_ok_take by (auto simp: on_disk_def fs_good_def)
  have s1: "r = Inl Io" "s1 = s\<lparr>fs_entries := ?es, fs_attached := False,
      fs_disk := (fs_disk s)\<lparr>d_script := [], d_log := Some (frames c ?es), d_synced := length (frames c ?es)\<rparr>\<rparr>"
    using assms(2-5) encode_frames_eq[OF codec, of "[]"]
    by (auto simp: fs_truncate_from_def rewrite_log_def Let_def io_call_def io_next_def fs_last_index_def split: if_splits)
  have "fs_entries s2 = ?es @ es" "d_log (fs_disk s2) = Some (frames c ?es)"
      "d_state (fs_disk s2) = d_state (fs_disk s)" "d_compaction (fs_disk s2) = d_compaction (fs_disk s)"
    using assms(6,7) s1(2) encode_frames_eq[OF assms(7), of "[]"]
    by (auto simp: fs_append_def io_append_def log_append_def io_sync_def io_next_def split: sum.splits if_splits)
  moreover from this have "reopened c (fs_disk s2) = Inr (fs_base s, ?es, fs_hard_state s)"
    using assms(1) codec good frames_take[of c "k - fs_base_index s - 1" "fs_entries s"]
    by (intro reopened_frames[where t = "[]"]) (auto simp: on_disk_def torn_def)
  ultimately show ?thesis using s1(1) by simp
qed

end
