(* ===== verification/Raft_Base64.thy ===== *)
theory Raft_Base64
  imports Raft_Log
begin

text \<open>
  The base64 codec of command payloads: decoding the encoding of any bytes returns them.
  Every alphabet character has its position as value, the four sextets of a group of up to
  three bytes rebuild the group, and the text has no white space to trim.
\<close>

unbundle bit_operations_syntax

lemma alphabet_all:
  "list_all (\<lambda>(k, c). b64_val (byte_of c) = Inr k \<and> byte_of c \<noteq> 61 \<and> byte_of c < 128 \<and> 32 < byte_of c)
     (zip (map word_of_nat [0..<64]) ALPHABET)"
  by code_simp

lemma alphabet_length: "length ALPHABET = 64"
  by (simp add: ALPHABET_def)

lemma b64_char_props:
  "b64_val (byte_of (b64_char n)) = Inr (n AND 63)" "byte_of (b64_char n) \<noteq> 61" "byte_of (b64_char n) < 128" "32 < byte_of (b64_char n)"
proof -
  have k: "unat (n AND 63) < 64"
  proof -
    have "n AND 63 \<le> 63" by (rule word_and_le1)
    then show ?thesis by (simp add: word_le_nat_alt)
  qed
  have "(zip (map word_of_nat [0..<64]) ALPHABET) ! unat (n AND 63) = (n AND 63, b64_char n)"
    using k by (simp add: alphabet_length b64_char_def)
  then have "(n AND 63, b64_char n) \<in> set (zip (map word_of_nat [0..<64]) ALPHABET)"
    using k alphabet_length by (metis (no_types, lifting) length_map length_upt length_zip min.idem minus_nat.diff_0 nth_mem)
  then show "b64_val (byte_of (b64_char n)) = Inr (n AND 63)" "byte_of (b64_char n) \<noteq> 61" "byte_of (b64_char n) < 128" "32 < byte_of (b64_char n)"
    using alphabet_all unfolding list_all_iff by auto
qed


text \<open>Printable ASCII text is its own trimming.\<close>

lemma trim_printable:
  assumes "\<forall>b \<in> set s. 32 < b \<and> b < 128"
  shows "trim_bytes s = s"
proof -
  have p: "ws_prefix t = 0" if t: "\<forall>b \<in> set t. 32 < b \<and> b < 128" for t :: "u8 list"
  proof (cases t)
    case (Cons a r)
    then have a: "32 < a" "a < 128" using t by auto
    then have "\<not> a \<le> 13" "a \<noteq> 32" "a \<noteq> 0xC2" "a \<noteq> 0xE1" "a \<noteq> 0xE2" "a \<noteq> 0xE3"
      using order_less_le_trans[of 32 a 13] by auto
    then show ?thesis by (simp add: Cons ws_prefix_def split: list.split)
  qed (simp add: ws_prefix_def)
  have "ws_prefix (rev (take k (rev s))) = 0" for k by (rule p) (use assms in \<open>auto dest: in_set_takeD\<close>)
  then have "ws_suffix (rev s) = 0" by (simp add: ws_suffix_def)
  then show ?thesis using p[OF assms] by (simp add: trim_bytes_def drop_ws_id)
qed

definition triple_bits :: "u8 list \<Rightarrow> u32" where
  "triple_bits chunk =
     push_bit 16 (ucast (chunk ! 0)) OR push_bit 8 (if 1 < length chunk then ucast (chunk ! 1) else 0) OR
     (if 2 < length chunk then ucast (chunk ! 2) else 0)"

lemma b64_chunk_encoded:
  assumes "0 < length c" "length c \<le> 3"
  shows "b64_encode_chunk c = [b64_char (drop_bit 18 (triple_bits c)), b64_char (drop_bit 12 (triple_bits c)),
     if 1 < length c then b64_char (drop_bit 6 (triple_bits c)) else CHR ''='', if 2 < length c then b64_char (triple_bits c) else CHR ''='']"
  using assms by (simp add: b64_encode_chunk_def triple_bits_def Let_def vec_get_def)

lemma sextets:
  fixes n :: u32
  assumes "take_bit 24 n = n"
  shows "push_bit 18 (drop_bit 18 n AND 63) OR push_bit 12 (drop_bit 12 n AND 63) OR push_bit 6 (drop_bit 6 n AND 63) OR (n AND 63) = n"
proof -
  have m: "x AND 63 = take_bit 6 x" for x :: u32 by (simp add: take_bit_eq_mask mask_eq_exp_minus_1)
  have hi: "\<not> bit n k" if "24 \<le> k" for k using assms that by (metis bit_take_bit_iff not_less)
  show ?thesis
    unfolding m
  proof (rule bit_word_eqI)
    fix k assume "k < LENGTH(32)"
    then show "bit (push_bit 18 (take_bit 6 (drop_bit 18 n)) OR push_bit 12 (take_bit 6 (drop_bit 12 n)) OR
      push_bit 6 (take_bit 6 (drop_bit 6 n)) OR take_bit 6 n) k = bit n k"
      by (cases "k < 6"; cases "k < 12"; cases "k < 18"; cases "k < 24")
        (auto simp: hi bit_or_iff bit_push_bit_iff bit_take_bit_iff bit_drop_bit_eq)
  qed
qed

lemma group_octets:
  fixes a b d :: u8
  defines "n \<equiv> push_bit 16 (ucast a :: u32) OR push_bit 8 (ucast b) OR ucast d"
  shows "take_bit 24 n = n" "ucast (drop_bit 16 n) = a" "ucast (drop_bit 8 n) = b" "ucast n = d"
    "take_bit 12 (push_bit 16 (ucast a :: u32)) = 0" "take_bit 6 (push_bit 16 (ucast a :: u32) OR push_bit 8 (ucast b)) = 0"
  unfolding n_def
proof -
  let ?n = "push_bit 16 (ucast a :: u32) OR push_bit 8 (ucast b) OR ucast d"
  have bits: "bit (ucast x :: u32) k = bit x k" for x :: u8 and k
    using bit_imp_le_length[of x k] by (auto simp: bit_ucast_iff)
  have hi: "8 \<le> k \<Longrightarrow> \<not> bit x k" for x :: u8 and k using bit_imp_le_length[of x k] by auto
  note B = bit_or_iff bit_push_bit_iff bit_take_bit_iff bit_drop_bit_eq bits hi
  have u: "bit (ucast (w :: u32) :: u8) k = (k < 8 \<and> bit w k)" for w k by (auto simp: bit_ucast_iff)
  show "take_bit 24 ?n = ?n"
  proof (rule bit_word_eqI)
    fix k show "bit (take_bit 24 ?n) k = bit ?n k" by (cases "k < 24") (simp_all add: B)
  qed
  show "ucast (drop_bit 16 ?n) = a"
  proof (rule bit_word_eqI)
    fix k show "bit (ucast (drop_bit 16 ?n) :: u8) k = bit a k" by (cases "k < 8") (simp_all add: u B del: drop_bit_or)
  qed
  show "ucast (drop_bit 8 ?n) = b"
  proof (rule bit_word_eqI)
    fix k show "bit (ucast (drop_bit 8 ?n) :: u8) k = bit b k" by (cases "k < 8") (simp_all add: u B del: drop_bit_or)
  qed
  show "ucast ?n = d"
  proof (rule bit_word_eqI)
    fix k show "bit (ucast ?n :: u8) k = bit d k" by (cases "k < 8") (simp_all add: u B)
  qed
  show "take_bit 12 (push_bit 16 (ucast a :: u32)) = 0" "take_bit 6 (push_bit 16 (ucast a :: u32) OR push_bit 8 (ucast b)) = 0"
    by (rule bit_word_eqI, simp add: B)+
qed


lemma b64_chunk_roundtrip:
  assumes "0 < length c" "length c \<le> 3"
  shows "b64_decode_chunk (as_bytes (b64_encode_chunk c)) = Inr c"
proof -
  let ?n = "triple_bits c"
  have e: "byte_of CHR ''='' = 61" by (simp add: byte_of_def)
  define b where "b = (if 1 < length c then c ! 1 else 0)"
  define d where "d = (if 2 < length c then c ! 2 else 0)"
  have n: "?n = push_bit 16 (ucast (c ! 0)) OR push_bit 8 (ucast b) OR ucast d" by (simp add: triple_bits_def b_def d_def)
  note O = group_octets(1-4)[of "c ! 0" b d, folded n] group_octets(5)[of "c ! 0"] group_octets(6)[of "c ! 0" b]
  have m: "x AND 63 = take_bit 6 x" for x :: u32 by (simp add: take_bit_eq_mask mask_eq_exp_minus_1)
  have z1: "?n AND 63 = 0" if "\<not> 2 < length c" using O(6) that by (simp add: n m d_def)
  have z2: "drop_bit 6 ?n AND 63 = 0" if "\<not> 1 < length c"
  proof -
    have "take_bit 6 (drop_bit 6 ?n) = drop_bit 6 (take_bit 12 ?n)" by (simp add: drop_bit_take_bit)
    moreover have "take_bit 12 ?n = 0" using O(5) that by (simp add: n b_def d_def)
    ultimately show ?thesis by (simp add: m)
  qed
  define v0 v1 v2 v3 where v: "v0 = drop_bit 18 ?n AND 63" "v1 = drop_bit 12 ?n AND 63" "v2 = drop_bit 6 ?n AND 63" "v3 = ?n AND 63"
  note V = b64_char_props(1)[of "drop_bit 18 ?n", folded v] b64_char_props(1)[of "drop_bit 12 ?n", folded v]
    b64_char_props(1)[of "drop_bit 6 ?n", folded v] b64_char_props(1)[of ?n, folded v]
  have bits: "b64_decode_bits (as_bytes (b64_encode_chunk c)) 0 0 = Inr ?n"
    using sextets[OF O(1), folded v] z1[folded v] z2[folded v]
    by (auto simp: b64_chunk_encoded[OF assms] as_bytes_def e b64_char_props(2) V or.assoc)
  have len: "length c = 1 \<or> length c = 2 \<or> length c = 3" using assms by linarith
  have pad: "length (filter (\<lambda>c. c = 61) (as_bytes (b64_encode_chunk c))) = 3 - length c"
    using assms len by (auto simp: b64_chunk_encoded as_bytes_def e b64_char_props)
  have "c = c ! 0 # (if 3 - length c < 2 then [b] else []) @ (if 3 - length c < 1 then [d] else [])"
    using len by (auto simp: b_def d_def length_Suc_conv numeral_eq_Suc)
  then show ?thesis unfolding b64_decode_chunk_def Let_def bits pad sum.case O(2-4) by simp
qed


lemma b64_encode_Cons:
  assumes "bs \<noteq> []"
  shows "b64_encode bs = b64_encode_chunk (take 3 bs) @ b64_encode (drop 3 bs)"
  using assms by (simp add: b64_encode_def chunks.simps[of 3 bs])

lemma b64_encode_chars: "c \<in> set (b64_encode bs) \<Longrightarrow> 32 < byte_of c \<and> byte_of c < 128"
proof -
  assume "c \<in> set (b64_encode bs)"
  then obtain ch where ch: "ch \<in> set (chunks 3 bs)" "c \<in> set (b64_encode_chunk ch)" by (auto simp: b64_encode_def)
  have "0 < length ch" "length ch \<le> 3" using chunks_lengths[OF _ ch(1)] by auto
  moreover have "32 < byte_of CHR ''=''" "byte_of CHR ''='' < 128" by (simp_all add: byte_of_def)
  ultimately show ?thesis using ch(2) b64_char_props(3,4) by (auto simp: b64_chunk_encoded split: if_splits)
qed

lemma b64_chunks:
  "b64_decode_chunks (chunks 4 (as_bytes (b64_encode bs))) out = Inr (out @ bs) \<and> length (b64_encode bs) mod 4 = 0"
proof (induction bs arbitrary: out rule: length_induct)
  case (1 bs)
  show ?case
  proof (cases "bs = []")
    case False
    let ?c = "take 3 bs" and ?e = "b64_encode_chunk (take 3 bs)"
    have c: "0 < length ?c" "length ?c \<le> 3" using False by auto
    have l: "length ?e = 4" by (simp add: b64_chunk_encoded[OF c])
    have "length (drop 3 bs) < length bs" using False by simp
    note IH = 1[rule_format, OF this]
    have "chunks 4 (as_bytes (b64_encode bs)) = as_bytes ?e # chunks 4 (as_bytes (b64_encode (drop 3 bs)))"
      using chunks_append[of "as_bytes ?e" 4] l by (simp add: b64_encode_Cons[OF False] as_bytes_def)
    then show ?thesis using IH[of "out @ ?c"] l b64_chunk_roundtrip[OF c] by (simp add: b64_encode_Cons[OF False])
  qed (simp add: b64_encode_def as_bytes_def)
qed

text \<open>C18. Decoding the base64 text of a payload gives back the payload.\<close>

theorem base64_roundtrip: "b64_decode (b64_encode bs) = Inr bs"
proof -
  have "trim_bytes (as_bytes (b64_encode bs)) = as_bytes (b64_encode bs)"
    by (rule trim_printable) (auto simp: as_bytes_def dest: b64_encode_chars)
  then show ?thesis using b64_chunks[of bs "[]"] by (simp add: b64_decode_def as_bytes_def)
qed

end
