(* ===== verification/Rust_Float.thy ===== *)
theory Rust_Float
  imports Rust_Str
begin

unbundle bit_operations_syntax

text \<open>
  IEEE 754 numbers as their bit patterns: \<open>f64\<close> is the 64-bit and \<open>f32\<close> the 32-bit word
  that \<open>to_bits\<close> returns.  Comparison needs no arithmetic: apart from NaN, the order of the
  numbers is the order of the sign-magnitude integers the patterns spell, with both zeros
  at 0.  The casts \<open>i64 as f64\<close>, \<open>f32 as f64\<close> and \<open>f64 as f32\<close> are written out, with rounding to
  nearest, ties to even.  A NaN is cast to a quiet NaN.
\<close>

type_synonym i64 = "64 word"
type_synonym f64 = "64 word"
type_synonym f32 = "32 word"

datatype cmp_ordering = Less | Equal | Greater

definition cmp_of :: "'a::linorder \<Rightarrow> 'a \<Rightarrow> cmp_ordering" where
  "cmp_of a b = (if a < b then Less else if a = b then Equal else Greater)"

definition cmp_reverse :: "cmp_ordering \<Rightarrow> cmp_ordering" where
  "cmp_reverse c = (case c of Less \<Rightarrow> Greater | Equal \<Rightarrow> Equal | Greater \<Rightarrow> Less)"

lemma cmp_of_simps [simp]:
  "cmp_of a b = Less \<longleftrightarrow> a < b" "cmp_of a b = Equal \<longleftrightarrow> a = b" "cmp_of a b = Greater \<longleftrightarrow> b < a"
  by (auto simp: cmp_of_def)

lemma cmp_reverse_cmp_of [simp]: "cmp_reverse (cmp_of a b) = cmp_of b a"
  by (auto simp: cmp_of_def cmp_reverse_def)

section \<open>Comparison\<close>

definition f64_is_nan :: "f64 \<Rightarrow> bool" where
  "f64_is_nan b = (0x7FF0000000000000 < b AND 0x7FFFFFFFFFFFFFFF)"

definition f64_is_finite :: "f64 \<Rightarrow> bool" where
  "f64_is_finite b = (b AND 0x7FFFFFFFFFFFFFFF < 0x7FF0000000000000)"

definition f64_key :: "f64 \<Rightarrow> int" where
  "f64_key b = (let m = uint (b AND 0x7FFFFFFFFFFFFFFF) in if bit b 63 then - m else m)"

definition f64_partial_cmp :: "f64 \<Rightarrow> f64 \<Rightarrow> cmp_ordering option" where
  "f64_partial_cmp a b =
     (if f64_is_nan a \<or> f64_is_nan b then None else Some (cmp_of (f64_key a) (f64_key b)))"

definition f64_eq :: "f64 \<Rightarrow> f64 \<Rightarrow> bool" where
  "f64_eq a b = (f64_partial_cmp a b = Some Equal)"

definition f32_is_nan :: "f32 \<Rightarrow> bool" where
  "f32_is_nan b = (0x7F800000 < b AND 0x7FFFFFFF)"

definition f32_is_finite :: "f32 \<Rightarrow> bool" where
  "f32_is_finite b = (b AND 0x7FFFFFFF < 0x7F800000)"

definition f32_key :: "f32 \<Rightarrow> int" where
  "f32_key b = (let m = uint (b AND 0x7FFFFFFF) in if bit b 31 then - m else m)"

definition f32_partial_cmp :: "f32 \<Rightarrow> f32 \<Rightarrow> cmp_ordering option" where
  "f32_partial_cmp a b =
     (if f32_is_nan a \<or> f32_is_nan b then None else Some (cmp_of (f32_key a) (f32_key b)))"

definition f32_eq :: "f32 \<Rightarrow> f32 \<Rightarrow> bool" where
  "f32_eq a b = (f32_partial_cmp a b = Some Equal)"

section \<open>Rounding\<close>

text \<open>\<open>m / 2 ^ s\<close> rounded to nearest, ties to even.\<close>

definition round_shift :: "int \<Rightarrow> nat \<Rightarrow> int" where
  "round_shift m s =
     (if s = 0 then m
      else (let q = drop_bit s m; r = take_bit s m; h = push_bit (s - 1) 1
            in if h < r \<or> (r = h \<and> odd q) then q + 1 else q))"

text \<open>Number of bits of a non-negative integer.\<close>

function bit_len :: "int \<Rightarrow> nat" where
  "bit_len n = (if n \<le> 0 then 0 else Suc (bit_len (n div 2)))"
  by pat_completeness auto
termination
  by (relation "measure nat") auto

declare bit_len.simps [simp del]

text \<open>The pattern of a finite format with \<open>p\<close> fraction bits and bias \<open>bias\<close>, without the sign, for
  the number \<open>m * 2 ^ e\<close>, \<open>0 \<le> m\<close>.  \<open>q\<close> is the exponent of the last place kept; the rounded
  significand is added to the exponent field, so that a carry out of the fraction moves to
  the next binade and past the largest finite number to the pattern of infinity.\<close>

definition encode_float :: "nat \<Rightarrow> int \<Rightarrow> int \<Rightarrow> int \<Rightarrow> int" where
  "encode_float p bias m e =
     (if m = 0 then 0
      else (let emin = 1 - bias - int p;
                q = max (e + int (bit_len m) - 1 - int p) emin;
                sig = (if q \<le> e then push_bit (nat (e - q)) m else round_shift m (nat (q - e)))
            in min ((q - emin) * 2 ^ p + sig) ((2 * bias + 1) * 2 ^ p)))"

definition f64_of_i64 :: "i64 \<Rightarrow> f64" where
  "f64_of_i64 i =
     (let v = sint i; b = word_of_int (encode_float 52 1023 \<bar>v\<bar> 0)
      in if v < 0 then b OR 0x8000000000000000 else b)"

text \<open>Significand and exponent of a finite pattern.\<close>

definition f32_parts :: "f32 \<Rightarrow> int \<times> int" where
  "f32_parts b =
     (let ex = uint (drop_bit 23 b AND 0xFF); fr = uint (b AND 0x7FFFFF)
      in if ex = 0 then (fr, - 149) else (fr + 8388608, ex - 150))"

definition f64_parts :: "f64 \<Rightarrow> int \<times> int" where
  "f64_parts b =
     (let ex = uint (drop_bit 52 b AND 0x7FF); fr = uint (b AND 0xFFFFFFFFFFFFF)
      in if ex = 0 then (fr, - 1074) else (fr + 4503599627370496, ex - 1075))"

definition f32_to_f64 :: "f32 \<Rightarrow> f64" where
  "f32_to_f64 b =
     (let s = (if bit b 31 then 0x8000000000000000 else 0)
      in if f32_is_nan b then s OR 0x7FF8000000000000 OR push_bit 29 (ucast (b AND 0x3FFFFF))
         else if f32_is_finite b
         then (let (m, e) = f32_parts b in s OR word_of_int (encode_float 52 1023 m e))
         else s OR 0x7FF0000000000000)"

definition f64_to_f32 :: "f64 \<Rightarrow> f32" where
  "f64_to_f32 b =
     (let s = (if bit b 63 then 0x80000000 else 0)
      in if f64_is_nan b then s OR 0x7FC00000 OR ucast (drop_bit 29 (b AND 0x7FFFFFFFFFFFF))
         else if f64_is_finite b
         then (let (m, e) = f64_parts b in s OR word_of_int (encode_float 23 127 m e))
         else s OR 0x7F800000)"

lemma f64_cmp_swap: "f64_partial_cmp b a = map_option cmp_reverse (f64_partial_cmp a b)"
  by (auto simp: f64_partial_cmp_def)

lemma f64_eq_sym: "f64_eq a b \<longleftrightarrow> f64_eq b a"
  by (auto simp: f64_eq_def f64_partial_cmp_def)

lemma f64_eq_trans: "f64_eq a b \<Longrightarrow> f64_eq b c \<Longrightarrow> f64_eq a c"
  by (auto simp: f64_eq_def f64_partial_cmp_def split: if_splits)

lemma f64_eq_refl: "f64_eq a a \<longleftrightarrow> \<not> f64_is_nan a"
  by (simp add: f64_eq_def f64_partial_cmp_def)

end
