(* ===== verification/Core.thy ===== *)
theory Core
  imports Rust_Float
begin

text \<open>
  \<open>crates/auradb-core\<close>: error codes, identifiers, the logical clock, the value model with its
  JSON encoding, records, and collection schemas.

  The payload text of an \<open>Error\<close> is not modelled; its variant is.  \<open>serde_json\<close> is a
  parameter: \<open>'n json\<close> is its document tree over an unknown number type \<open>'n\<close>, and \<open>json_ops\<close>
  holds the functions of \<open>serde_json::Number\<close> and the printer that the code calls.  A
  \<open>BTreeMap\<close>, and \<open>serde_json\<close>'s map, is an \<open>omap\<close>.
\<close>

section \<open>Errors\<close>

datatype error_code =
    CInvalidRequest | CProtocol | CStorage | CCorruption | CConflict | CTransactionTimeout
  | CSchemaViolation | CUniqueViolation | CNotFound | CUnsupported | CNotLeader
  | CUnauthenticated | CInvalidCredentials | CConfig | CIo | CLimitExceeded | CInternal
  | CQueryTimeout

fun error_code_as_str :: "error_code \<Rightarrow> string" where
  "error_code_as_str CInvalidRequest = ''invalid_request''"
| "error_code_as_str CProtocol = ''protocol''"
| "error_code_as_str CStorage = ''storage''"
| "error_code_as_str CCorruption = ''corruption''"
| "error_code_as_str CConflict = ''conflict''"
| "error_code_as_str CTransactionTimeout = ''transaction_timeout''"
| "error_code_as_str CSchemaViolation = ''schema_violation''"
| "error_code_as_str CUniqueViolation = ''unique_violation''"
| "error_code_as_str CNotFound = ''not_found''"
| "error_code_as_str CUnsupported = ''unsupported''"
| "error_code_as_str CNotLeader = ''not_leader''"
| "error_code_as_str CUnauthenticated = ''unauthenticated''"
| "error_code_as_str CInvalidCredentials = ''invalid_credentials''"
| "error_code_as_str CConfig = ''config''"
| "error_code_as_str CIo = ''io''"
| "error_code_as_str CLimitExceeded = ''limit_exceeded''"
| "error_code_as_str CInternal = ''internal''"
| "error_code_as_str CQueryTimeout = ''query_timeout''"

datatype error =
    EInvalidRequest | EProtocol | EStorage | ECorruption | EConflict | ETransactionTimeout
  | ESchemaViolation | EUniqueViolation | ENotFound | EUnsupported | ENotLeader
  | EUnauthenticated | EInvalidCredentials | EConfig | EIo | ELimitExceeded | EInternal
  | EQueryTimeout

text \<open>A panic, or an error value.\<close>

datatype fault = Panic | Err error

type_synonym 'a eresult = "(fault, 'a) result"

definition lift_err :: "(error, 'a) result \<Rightarrow> 'a eresult" where
  "lift_err r = map_sum Err id r"

fun error_to_code :: "error \<Rightarrow> error_code" where
  "error_to_code EInvalidRequest = CInvalidRequest"
| "error_to_code EProtocol = CProtocol"
| "error_to_code EStorage = CStorage"
| "error_to_code ECorruption = CCorruption"
| "error_to_code EConflict = CConflict"
| "error_to_code ETransactionTimeout = CTransactionTimeout"
| "error_to_code ESchemaViolation = CSchemaViolation"
| "error_to_code EUniqueViolation = CUniqueViolation"
| "error_to_code ENotFound = CNotFound"
| "error_to_code EUnsupported = CUnsupported"
| "error_to_code ENotLeader = CNotLeader"
| "error_to_code EUnauthenticated = CUnauthenticated"
| "error_to_code EInvalidCredentials = CInvalidCredentials"
| "error_to_code EConfig = CConfig"
| "error_to_code EIo = CIo"
| "error_to_code ELimitExceeded = CLimitExceeded"
| "error_to_code EInternal = CInternal"
| "error_to_code EQueryTimeout = CQueryTimeout"

text \<open>The \<open>?\<close> operator on a list of checks: the first error is returned.\<close>

fun check_all :: "('a \<Rightarrow> ('e, unit) result) \<Rightarrow> 'a list \<Rightarrow> ('e, unit) result" where
  "check_all f [] = Inr ()"
| "check_all f (x # xs) = (case f x of Inl e \<Rightarrow> Inl e | Inr _ \<Rightarrow> check_all f xs)"

definition guard :: "bool \<Rightarrow> 'e \<Rightarrow> ('e, unit) result" where
  "guard ok e = (if ok then Inr () else Inl e)"

lemma check_all_ok: "check_all f xs = Inr () \<longleftrightarrow> (\<forall>x \<in> set xs. f x = Inr ())"
  by (induction xs) (auto split: sum.splits)

lemma guard_ok [simp]: "guard ok e = Inr () \<longleftrightarrow> ok"
  by (simp add: guard_def)

section \<open>Logical clock\<close>

record logical_clock =
  lc_next :: u64

definition clock_new :: "u64 \<Rightarrow> logical_clock" where
  "clock_new start = \<lparr>lc_next = start\<rparr>"

definition clock_tick :: "logical_clock \<Rightarrow> u64 \<times> logical_clock" where
  "clock_tick c = (lc_next c, c\<lparr>lc_next := lc_next c + 1\<rparr>)"

definition clock_peek :: "logical_clock \<Rightarrow> u64" where
  "clock_peek c = lc_next c"

text \<open>With no concurrent writer the compare-and-exchange of the first round succeeds.\<close>

definition clock_observe :: "u64 \<Rightarrow> logical_clock \<Rightarrow> logical_clock" where
  "clock_observe observed c =
     (let current = lc_next c in if current \<le> observed then c\<lparr>lc_next := observed + 1\<rparr> else c)"

section \<open>Identifiers\<close>

type_synonym record_id = u128
type_synonym txn_id = u64
type_synonym collection_id = string
type_synonym commit_ts = nat

definition TXN_AUTO :: txn_id where
  "TXN_AUTO = 0"

definition record_id_to_bytes :: "record_id \<Rightarrow> u8 list" where
  "record_id_to_bytes i = be_bytes 16 (unat i)"

definition record_id_from_bytes :: "u8 list \<Rightarrow> record_id" where
  "record_id_from_bytes bs = word_of_nat (of_be_bytes bs)"

definition hex_digit :: "nat \<Rightarrow> char" where
  "hex_digit d = (if d < 10 then char_of (48 + d) else char_of (87 + d))"

fun hex_digits :: "nat \<Rightarrow> nat \<Rightarrow> string" where
  "hex_digits 0 v = []"
| "hex_digits (Suc n) v = hex_digits n (v div 16) @ [hex_digit (v mod 16)]"

text \<open>\<open>{:032x}\<close>: a \<open>u128\<close> has at most 32 hexadecimal digits.\<close>

definition record_id_display :: "record_id \<Rightarrow> string" where
  "record_id_display i = hex_digits 32 (unat i)"

definition hex_value :: "char \<Rightarrow> nat option" where
  "hex_value c =
     (let b = (of_char c :: nat) in
      if 48 \<le> b \<and> b \<le> 57 then Some (b - 48)
      else if 97 \<le> b \<and> b \<le> 102 then Some (b - 87)
      else if 65 \<le> b \<and> b \<le> 70 then Some (b - 55)
      else None)"

fun hex_fold :: "string \<Rightarrow> int \<Rightarrow> int option" where
  "hex_fold [] acc = Some acc"
| "hex_fold (c # cs) acc =
     (case hex_value c of
        None \<Rightarrow> None
      | Some d \<Rightarrow>
          (let v = acc * 16 + int d in
           if 340282366920938463463374607431768211455 < v then None else hex_fold cs v))"

text \<open>\<open>u128::from_str_radix(_, 16)\<close>.\<close>

definition u128_from_hex :: "string \<Rightarrow> u128 option" where
  "u128_from_hex s =
     (if s = [] \<or> s = ''+'' \<or> s = ''-'' then None
      else map_option word_of_int (hex_fold (if hd s = CHR ''+'' then tl s else s) 0))"

definition record_id_from_str :: "string \<Rightarrow> (error, record_id) result" where
  "record_id_from_str s =
     (case u128_from_hex (filter (\<lambda>c. c \<noteq> CHR ''-'') s) of
        None \<Rightarrow> Inl EInvalidRequest
      | Some v \<Rightarrow> Inr v)"

section \<open>Values\<close>

datatype aura_value =
    VNull
  | VBool bool
  | VInt i64
  | VFloat f64
  | VText string
  | VBytes "u8 list"
  | VTimestamp i64
  | VVector "f32 list"
  | VArray "aura_value list"
  | VObject "(string \<times> aura_value) list"

type_synonym document = "(string, aura_value) omap"

text \<open>The derived \<open>PartialEq\<close>: floats compare as IEEE numbers.\<close>

fun value_eq :: "aura_value \<Rightarrow> aura_value \<Rightarrow> bool"
and values_eq :: "aura_value list \<Rightarrow> aura_value list \<Rightarrow> bool"
and fields_eq :: "(string \<times> aura_value) list \<Rightarrow> (string \<times> aura_value) list \<Rightarrow> bool" where
  "value_eq VNull w = (case w of VNull \<Rightarrow> True | _ \<Rightarrow> False)"
| "value_eq (VBool a) w = (case w of VBool b \<Rightarrow> a = b | _ \<Rightarrow> False)"
| "value_eq (VInt a) w = (case w of VInt b \<Rightarrow> a = b | _ \<Rightarrow> False)"
| "value_eq (VFloat a) w = (case w of VFloat b \<Rightarrow> f64_eq a b | _ \<Rightarrow> False)"
| "value_eq (VText a) w = (case w of VText b \<Rightarrow> a = b | _ \<Rightarrow> False)"
| "value_eq (VBytes a) w = (case w of VBytes b \<Rightarrow> a = b | _ \<Rightarrow> False)"
| "value_eq (VTimestamp a) w = (case w of VTimestamp b \<Rightarrow> a = b | _ \<Rightarrow> False)"
| "value_eq (VVector a) w = (case w of VVector b \<Rightarrow> list_all2 f32_eq a b | _ \<Rightarrow> False)"
| "value_eq (VArray a) w = (case w of VArray b \<Rightarrow> values_eq a b | _ \<Rightarrow> False)"
| "value_eq (VObject a) w = (case w of VObject b \<Rightarrow> fields_eq a b | _ \<Rightarrow> False)"
| "values_eq [] bs = (bs = [])"
| "values_eq (a # as) bs = (case bs of [] \<Rightarrow> False | b # bs \<Rightarrow> value_eq a b \<and> values_eq as bs)"
| "fields_eq [] bs = (bs = [])"
| "fields_eq (p # as) bs =
     (case bs of [] \<Rightarrow> False
      | (l, b) # bs \<Rightarrow> (case p of (k, a) \<Rightarrow> k = l \<and> value_eq a b \<and> fields_eq as bs))"

definition type_name :: "aura_value \<Rightarrow> string" where
  "type_name v =
     (case v of
        VNull \<Rightarrow> ''null'' | VBool _ \<Rightarrow> ''bool'' | VInt _ \<Rightarrow> ''int'' | VFloat _ \<Rightarrow> ''float''
      | VText _ \<Rightarrow> ''string'' | VBytes _ \<Rightarrow> ''bytes'' | VTimestamp _ \<Rightarrow> ''timestamp''
      | VVector _ \<Rightarrow> ''vector'' | VArray _ \<Rightarrow> ''array'' | VObject _ \<Rightarrow> ''document'')"

definition is_null :: "aura_value \<Rightarrow> bool" where
  "is_null v = (case v of VNull \<Rightarrow> True | _ \<Rightarrow> False)"

definition max_or_zero :: "nat list \<Rightarrow> nat" where
  "max_or_zero xs = fold max xs 0"

fun nesting_depth :: "aura_value \<Rightarrow> nat" where
  "nesting_depth (VObject m) = 1 + max_or_zero (map (\<lambda>(k, v). nesting_depth v) m)"
| "nesting_depth (VArray items) = 1 + max_or_zero (map nesting_depth items)"
| "nesting_depth _ = 1"

fun max_vector_dim :: "aura_value \<Rightarrow> nat" where
  "max_vector_dim (VVector v) = length v"
| "max_vector_dim (VObject m) = max_or_zero (map (\<lambda>(k, v). max_vector_dim v) m)"
| "max_vector_dim (VArray items) = max_or_zero (map max_vector_dim items)"
| "max_vector_dim _ = 0"

definition as_text :: "aura_value \<Rightarrow> string option" where
  "as_text v = (case v of VText s \<Rightarrow> Some s | _ \<Rightarrow> None)"

definition as_vector :: "aura_value \<Rightarrow> f32 list option" where
  "as_vector v = (case v of VVector x \<Rightarrow> Some x | _ \<Rightarrow> None)"

definition as_object :: "aura_value \<Rightarrow> document option" where
  "as_object v = (case v of VObject m \<Rightarrow> Some m | _ \<Rightarrow> None)"

definition as_f64 :: "aura_value \<Rightarrow> f64 option" where
  "as_f64 v = (case v of VInt i \<Rightarrow> Some (f64_of_i64 i) | VFloat f \<Rightarrow> Some f | _ \<Rightarrow> None)"

text \<open>\<open>str::split\<close> on one character: always at least one segment.\<close>

fun split_on :: "char \<Rightarrow> string \<Rightarrow> string list" where
  "split_on d [] = [[]]"
| "split_on d (c # cs) =
     (if c = d then [] # split_on d cs
      else (case split_on d cs of s # ss \<Rightarrow> (c # s) # ss | [] \<Rightarrow> [[c]]))"

fun split_once :: "char \<Rightarrow> string \<Rightarrow> (string \<times> string) option" where
  "split_once d [] = None"
| "split_once d (c # cs) =
     (if c = d then Some ([], cs)
      else map_option (\<lambda>(h, r). (c # h, r)) (split_once d cs))"

fun get_segments :: "aura_value \<Rightarrow> string list \<Rightarrow> aura_value option" where
  "get_segments current [] = Some current"
| "get_segments current (s # ss) =
     (case current of
        VObject m \<Rightarrow> (case om_get m s of None \<Rightarrow> None | Some v \<Rightarrow> get_segments v ss)
      | _ \<Rightarrow> None)"

definition get_path :: "aura_value \<Rightarrow> string \<Rightarrow> aura_value option" where
  "get_path v path = get_segments v (split_on CHR ''.'' path)"

section \<open>JSON\<close>

datatype 'n json =
    JNull
  | JBool bool
  | JNumber 'n
  | JString string
  | JArray "'n json list"
  | JObject "(string \<times> 'n json) list"

record 'n json_ops =
  num_of_i64 :: "i64 \<Rightarrow> 'n"
  num_of_u64 :: "u64 \<Rightarrow> 'n"
  num_from_f64 :: "f64 \<Rightarrow> 'n option"
  num_as_i64 :: "'n \<Rightarrow> i64 option"
  num_as_u64 :: "'n \<Rightarrow> u64 option"
  num_as_f64 :: "'n \<Rightarrow> f64 option"
  json_to_string :: "'n json \<Rightarrow> string option"

text \<open>\<open>serde_json::Value::as_f64\<close> and \<open>as_u64\<close>: the number's, and none on other values.\<close>

definition json_as_f64 :: "'n json_ops \<Rightarrow> 'n json \<Rightarrow> f64 option" where
  "json_as_f64 J j = (case j of JNumber n \<Rightarrow> num_as_f64 J n | _ \<Rightarrow> None)"

definition json_as_u64 :: "'n json_ops \<Rightarrow> 'n json \<Rightarrow> u64 option" where
  "json_as_u64 J j = (case j of JNumber n \<Rightarrow> num_as_u64 J n | _ \<Rightarrow> None)"

definition json_array_to_vector :: "'n json_ops \<Rightarrow> 'n json list \<Rightarrow> f32 list option" where
  "json_array_to_vector J items = those (map (\<lambda>v. map_option f64_to_f32 (json_as_f64 J v)) items)"

definition json_array_to_bytes :: "'n json_ops \<Rightarrow> 'n json list \<Rightarrow> u8 list option" where
  "json_array_to_bytes J items =
     those (map (\<lambda>v. case json_as_u64 J v of
                       None \<Rightarrow> None
                     | Some n \<Rightarrow> if n \<le> 255 then Some (ucast n) else None) items)"

text \<open>The extension encodings of a one-entry object.\<close>

definition json_extension :: "'n json_ops \<Rightarrow> (string \<times> 'n json) list \<Rightarrow> aura_value option" where
  "json_extension J m =
     (if length m \<noteq> 1 then None
      else
        case (case om_get m ''$vector'' of
                Some (JArray items) \<Rightarrow> map_option VVector (json_array_to_vector J items)
              | _ \<Rightarrow> None) of
          Some v \<Rightarrow> Some v
        | None \<Rightarrow>
        (case (case om_get m ''$timestamp'' of
                 Some (JNumber n) \<Rightarrow> map_option VTimestamp (num_as_i64 J n)
               | _ \<Rightarrow> None) of
           Some v \<Rightarrow> Some v
         | None \<Rightarrow>
         (case om_get m ''$bytes'' of
            Some (JArray items) \<Rightarrow> map_option VBytes (json_array_to_bytes J items)
          | _ \<Rightarrow> None)))"

fun from_json :: "'n json_ops \<Rightarrow> 'n json \<Rightarrow> aura_value" where
  "from_json J JNull = VNull"
| "from_json J (JBool b) = VBool b"
| "from_json J (JNumber n) =
     (case num_as_i64 J n of
        Some i \<Rightarrow> VInt i
      | None \<Rightarrow> VFloat (case num_as_f64 J n of Some f \<Rightarrow> f | None \<Rightarrow> 0x7FF8000000000000))"
| "from_json J (JString s) = VText s"
| "from_json J (JArray items) = VArray (map (from_json J) items)"
| "from_json J (JObject m) =
     (case json_extension J m of
        Some v \<Rightarrow> v
      | None \<Rightarrow> VObject (map (\<lambda>(k, v). (k, from_json J v)) m))"

definition json_of_f64 :: "'n json_ops \<Rightarrow> f64 \<Rightarrow> 'n json" where
  "json_of_f64 J f = (case num_from_f64 J f of Some n \<Rightarrow> JNumber n | None \<Rightarrow> JNull)"

fun to_json :: "'n json_ops \<Rightarrow> aura_value \<Rightarrow> 'n json" where
  "to_json J VNull = JNull"
| "to_json J (VBool b) = JBool b"
| "to_json J (VInt i) = JNumber (num_of_i64 J i)"
| "to_json J (VFloat f) = json_of_f64 J f"
| "to_json J (VText s) = JString s"
| "to_json J (VBytes b) = JObject [(''$bytes'', JArray (map (\<lambda>x. JNumber (num_of_u64 J (ucast x))) b))]"
| "to_json J (VTimestamp ms) = JObject [(''$timestamp'', JNumber (num_of_i64 J ms))]"
| "to_json J (VVector v) = JObject [(''$vector'', JArray (map (\<lambda>x. json_of_f64 J (f32_to_f64 x)) v))]"
| "to_json J (VArray items) = JArray (map (to_json J) items)"
| "to_json J (VObject m) = JObject (map (\<lambda>(k, v). (k, to_json J v)) m)"

section \<open>Records\<close>

record record_t =
  rec_id :: record_id
  rec_collection :: collection_id
  rec_fields :: document
  rec_version :: nat
  rec_created_txn :: txn_id

definition record_new :: "record_id \<Rightarrow> collection_id \<Rightarrow> document \<Rightarrow> record_t" where
  "record_new i c f =
     \<lparr>rec_id = i, rec_collection = c, rec_fields = f, rec_version = 1, rec_created_txn = TXN_AUTO\<rparr>"

definition record_get :: "record_t \<Rightarrow> string \<Rightarrow> aura_value option" where
  "record_get r field = om_get (rec_fields r) field"

definition record_get_path :: "record_t \<Rightarrow> string \<Rightarrow> aura_value option" where
  "record_get_path r path =
     (let (head, rest) = (case split_once CHR ''.'' path of
                            Some (h, t) \<Rightarrow> (h, Some t) | None \<Rightarrow> (path, None))
      in case om_get (rec_fields r) head of
           None \<Rightarrow> None
         | Some v \<Rightarrow> (case rest of Some t \<Rightarrow> get_path v t | None \<Rightarrow> Some v))"

section \<open>Schemas\<close>

datatype field_type =
    FUuid | FString | FInt | FFloat | FBool | FTimestamp | FDocument | FBytes | FVector nat

text \<open>The match on the pair of type and value; the type decides which values pass.\<close>

definition field_type_accepts :: "field_type \<Rightarrow> aura_value \<Rightarrow> bool" where
  "field_type_accepts t v =
     (case v of
        VNull \<Rightarrow> True
      | VText _ \<Rightarrow> t = FUuid \<or> t = FString
      | VInt _ \<Rightarrow> t = FInt \<or> t = FFloat \<or> t = FTimestamp
      | VFloat _ \<Rightarrow> t = FFloat
      | VBool _ \<Rightarrow> t = FBool
      | VTimestamp _ \<Rightarrow> t = FTimestamp
      | VObject _ \<Rightarrow> t = FDocument
      | VBytes _ \<Rightarrow> t = FBytes
      | VVector x \<Rightarrow> t = FVector (length x)
      | VArray _ \<Rightarrow> False)"

definition field_type_validate :: "field_type \<Rightarrow> aura_value \<Rightarrow> (error, unit) result" where
  "field_type_validate t v = guard (field_type_accepts t v) ESchemaViolation"

datatype on_delete = Restrict | SetNull

datatype cardinality = ToOne | ToMany

record relationship_t =
  rel_name :: string
  rel_target :: string
  rel_cardinality :: cardinality
  rel_on_delete :: on_delete

record field_def =
  fd_name :: string
  fd_field_type :: field_type
  fd_primary_key :: bool
  fd_unique :: bool
  fd_nullable :: bool
  fd_indexed :: bool

definition field_def_new :: "string \<Rightarrow> field_type \<Rightarrow> field_def" where
  "field_def_new n t =
     \<lparr>fd_name = n, fd_field_type = t, fd_primary_key = False, fd_unique = False,
      fd_nullable = True, fd_indexed = False\<rparr>"

datatype index_kind = DocumentPath | FullText

record index_def =
  ix_path :: string
  ix_kind :: index_kind

record collection_schema =
  cs_name :: string
  cs_fields :: "field_def list"
  cs_relationships :: "relationship_t list"
  cs_indexes :: "index_def list"

definition schema_new :: "string \<Rightarrow> collection_schema" where
  "schema_new n = \<lparr>cs_name = n, cs_fields = [], cs_relationships = [], cs_indexes = []\<rparr>"

definition with_field :: "collection_schema \<Rightarrow> field_def \<Rightarrow> collection_schema" where
  "with_field s f = s\<lparr>cs_fields := cs_fields s @ [f]\<rparr>"

definition with_relationship :: "collection_schema \<Rightarrow> relationship_t \<Rightarrow> collection_schema" where
  "with_relationship s r = s\<lparr>cs_relationships := cs_relationships s @ [r]\<rparr>"

definition with_index :: "collection_schema \<Rightarrow> index_def \<Rightarrow> collection_schema" where
  "with_index s i = s\<lparr>cs_indexes := cs_indexes s @ [i]\<rparr>"

definition document_path_indexes :: "collection_schema \<Rightarrow> string list" where
  "document_path_indexes s = map ix_path (filter (\<lambda>i. ix_kind i = DocumentPath) (cs_indexes s))"

definition full_text_indexes :: "collection_schema \<Rightarrow> string list" where
  "full_text_indexes s = map ix_path (filter (\<lambda>i. ix_kind i = FullText) (cs_indexes s))"

definition schema_primary_key :: "collection_schema \<Rightarrow> field_def option" where
  "schema_primary_key s = List.find fd_primary_key (cs_fields s)"

definition schema_field :: "collection_schema \<Rightarrow> string \<Rightarrow> field_def option" where
  "schema_field s n = List.find (\<lambda>f. fd_name f = n) (cs_fields s)"

definition schema_relationship :: "collection_schema \<Rightarrow> string \<Rightarrow> relationship_t option" where
  "schema_relationship s n = List.find (\<lambda>r. rel_name r = n) (cs_relationships s)"

definition validate_index :: "collection_schema \<Rightarrow> index_def \<Rightarrow> (error, unit) result" where
  "validate_index s index =
     (if trim (ix_path index) = [] then Inl ESchemaViolation
      else
        (let segments = split_on CHR ''.'' (ix_path index) in
         if list_ex (\<lambda>x. x = []) segments then Inl ESchemaViolation
         else
           (case schema_field s (hd segments) of
              None \<Rightarrow> Inl ESchemaViolation
            | Some field \<Rightarrow>
                (case ix_kind index of
                   DocumentPath \<Rightarrow>
                     guard (\<not> (1 < length segments \<and> fd_field_type field \<noteq> FDocument)) ESchemaViolation
                 | FullText \<Rightarrow>
                     if length segments \<noteq> 1 then Inl ESchemaViolation
                     else guard (fd_field_type field = FString) ESchemaViolation))))"

definition validate_definition :: "collection_schema \<Rightarrow> (error, unit) result" where
  "validate_definition s =
     (if trim (cs_name s) = [] then Inl ESchemaViolation
      else if 1 < length (filter fd_primary_key (cs_fields s)) then Inl ESchemaViolation
      else
        (case check_all (\<lambda>rel. guard (schema_field s (rel_name rel) = None) ESchemaViolation)
                (cs_relationships s) of
           Inl e \<Rightarrow> Inl e
         | Inr _ \<Rightarrow> check_all (validate_index s) (cs_indexes s)))"

definition validate_field :: "document \<Rightarrow> field_def \<Rightarrow> (error, unit) result" where
  "validate_field doc def =
     (case (case om_get doc (fd_name def) of Some VNull \<Rightarrow> None | x \<Rightarrow> x) of
        None \<Rightarrow>
          if \<not> fd_nullable def then Inl ESchemaViolation
          else guard (\<not> fd_primary_key def) ESchemaViolation
      | Some v \<Rightarrow> field_type_validate (fd_field_type def) v)"

definition is_text :: "aura_value \<Rightarrow> bool" where
  "is_text v = (case v of VText _ \<Rightarrow> True | _ \<Rightarrow> False)"

definition validate_relationship :: "document \<Rightarrow> relationship_t \<Rightarrow> (error, unit) result" where
  "validate_relationship doc rel =
     (case om_get doc (rel_name rel) of
        None \<Rightarrow> Inr ()
      | Some VNull \<Rightarrow> Inr ()
      | Some v \<Rightarrow>
          (case (rel_cardinality rel, v) of
             (ToOne, VText _) \<Rightarrow> Inr ()
           | (ToMany, VArray items) \<Rightarrow> check_all (\<lambda>item. guard (is_text item) ESchemaViolation) items
           | _ \<Rightarrow> Inl ESchemaViolation))"

definition validate_record :: "collection_schema \<Rightarrow> document \<Rightarrow> (error, unit) result" where
  "validate_record s doc =
     (case check_all (validate_field doc) (cs_fields s) of
        Inl e \<Rightarrow> Inl e
      | Inr _ \<Rightarrow> check_all (validate_relationship doc) (cs_relationships s))"

end
