(* ===== verification/Rust_Cast.thy ===== *)
theory Rust_Cast
  imports Rust_Float
begin

unbundle bit_operations_syntax

text \<open>
  The cast \<open>f32 as f64\<close> is exact and \<open>f64 as f32\<close> undoes it, on every finite pattern: the
  significand and exponent that \<open>encode_float\<close> is given are those that its pattern spells.
\<close>

lemma pattern_split:
  fixes s :: "'a::len word"
  assumes "take_bit n s = 0" "0 \<le> A" "A < 2 ^ n" "n < LENGTH('a)"
  shows "uint (take_bit n (s OR word_of_int A)) = A"
    "p \<le> n \<Longrightarrow> uint (take_bit (n - p) (drop_bit p (s OR word_of_int A))) = A div 2 ^ p"
    "p \<le> n \<Longrightarrow> uint (take_bit p (s OR word_of_int A)) = A mod 2 ^ p"
    "bit (s OR word_of_int A) n = bit s n"
proof -
  have A: "A < 2 ^ LENGTH('a)" using assms(3,4) by (meson dual_order.strict_trans2 less_imp_le numeral_One one_le_numeral power_increasing order_less_le_trans)
  then have u: "uint (word_of_int A :: 'a word) = A" using assms(2) by (simp add: word_uint_eqI uint_word_of_int)
  have tA: "take_bit LENGTH('a) A = A" using A assms(2) by (simp add: take_bit_int_eq_self_iff)
  have t: "take_bit n A = A" using assms(2,3) by (simp add: take_bit_int_eq_self_iff)
  have w: "take_bit n (s OR word_of_int A) = (word_of_int A :: 'a word)"
    unfolding take_bit_or assms(1) or.left_neutral by (rule word_uint_eqI) (simp add: unsigned_take_bit_eq t u)
  show "uint (take_bit n (s OR word_of_int A)) = A" unfolding w by (rule u)
  show "uint (take_bit (n - p) (drop_bit p (s OR word_of_int A))) = A div 2 ^ p" if "p \<le> n"
  proof -
    have "take_bit (n - p) (drop_bit p (s OR word_of_int A)) = drop_bit p (take_bit n (s OR word_of_int A))"
      using that by (simp add: drop_bit_take_bit del: take_bit_or drop_bit_or)
    moreover have "uint (drop_bit p (word_of_int A :: 'a word)) = drop_bit p A" using tA by (simp add: unsigned_drop_bit_eq u)
    ultimately show ?thesis unfolding w by (simp only: drop_bit_eq_div[where 'a = int])
  qed
  show "uint (take_bit p (s OR word_of_int A)) = A mod 2 ^ p" if "p \<le> n"
  proof -
    have "take_bit p (s OR word_of_int A) = take_bit p (take_bit n (s OR word_of_int A))" using that by (simp add: min_absorb1 del: take_bit_or)
    then show ?thesis unfolding w by (simp add: unsigned_take_bit_eq u take_bit_eq_mod[where 'a = int])
  qed
  have "\<not> bit (word_of_int A :: 'a word) n"
    using t by (simp add: bit_word_of_int_iff) (metis bit_take_bit_iff less_irrefl)
  then show "bit (s OR word_of_int A) n = bit s n" by (simp add: bit_or_iff)
qed

lemma bit_len_bounds: "0 < n \<Longrightarrow> 0 < bit_len n \<and> 2 ^ (bit_len n - 1) \<le> n \<and> n < 2 ^ bit_len n"
proof (induction n rule: bit_len.induct)
  case (1 n)
  show ?case
  proof (cases "n = 1")
    case True
    then show ?thesis by (simp add: bit_len.simps[of 1] bit_len.simps[of 0])
  next
    case False
    let ?k = "bit_len (n div 2)"
    have k: "0 < ?k" "2 ^ (?k - 1) \<le> n div 2" "n div 2 < 2 ^ ?k" using 1 False by auto
    have "bit_len n = Suc ?k" using 1 by (simp add: bit_len.simps[of n])
    moreover have "2 * 2 ^ (?k - 1) = (2 :: int) ^ ?k" using k(1) by (metis power_eq_if less_numeral_extra(3))
    then have "2 ^ ?k \<le> n" "n < 2 * 2 ^ ?k" using k(2,3) by linarith+
    ultimately show ?thesis by simp
  qed
qed

lemma bit_len_unique:
  assumes "2 ^ k \<le> n" "n < 2 ^ Suc k"
  shows "bit_len n = Suc k"
proof -
  have n: "0 < n" using assms(1) by (meson less_le_trans zero_less_numeral zero_less_power)
  note b = bit_len_bounds[OF n]
  have "(2::int) ^ k < 2 ^ bit_len n" "(2::int) ^ (bit_len n - 1) < 2 ^ Suc k" using assms b by linarith+
  then have "k < bit_len n" "bit_len n - 1 < Suc k" by (simp_all only: power_strict_increasing_iff[of "2 :: int"] one_less_numeral_iff semiring_norm)
  then show ?thesis by simp
qed

lemma round_shift_exact: "round_shift (m * 2 ^ s) s = m"
  by (simp add: round_shift_def Let_def drop_bit_eq_div take_bit_eq_mod)

text \<open>A number whose last place is representable is encoded exactly.\<close>

lemma encode_wide:
  assumes "0 < m" "bit_len m \<le> 53" "- 149 \<le> e" "e \<le> 104"
  shows "encode_float 52 1023 m e =
      (e + int (bit_len m) + 1022) * 4503599627370496 + (m * 2 ^ (53 - bit_len m) - 4503599627370496)"
    "4503599627370496 \<le> m * 2 ^ (53 - bit_len m)" "m * 2 ^ (53 - bit_len m) < 9007199254740992"
proof -
  let ?L = "bit_len m"
  note b = bit_len_bounds[OF assms(1)]
  have p: "(2 :: int) ^ (?L - 1) * 2 ^ (53 - ?L) = 4503599627370496" "(2 :: int) ^ ?L * 2 ^ (53 - ?L) = 9007199254740992"
    using b assms(2) by (simp_all add: power_add[symmetric])
  show lo: "4503599627370496 \<le> m * 2 ^ (53 - ?L)"
  proof -
    have "2 ^ (?L - 1) * 2 ^ (53 - ?L) \<le> m * 2 ^ (53 - ?L)" by (rule mult_right_mono) (use b in auto)
    then show ?thesis using p(1) by linarith
  qed
  show hi: "m * 2 ^ (53 - ?L) < 9007199254740992"
  proof -
    have "m * 2 ^ (53 - ?L) < 2 ^ ?L * 2 ^ (53 - ?L)" by (rule mult_strict_right_mono) (use b in auto)
    then show ?thesis using p(2) by linarith
  qed
  have "max (e + int ?L - 1 - 52) (1 - 1023 - 52) = e + int ?L - 53" using assms(3) by simp
  moreover have "nat (e - (e + int ?L - 53)) = 53 - ?L" using assms(2) by simp
  ultimately show "encode_float 52 1023 m e =
      (e + int ?L + 1022) * 4503599627370496 + (m * 2 ^ (53 - ?L) - 4503599627370496)"
    using assms lo hi b by (simp add: encode_float_def Let_def push_bit_eq_mult)
qed


lemma encode_narrow:
  assumes "0 < m" "bit_len m \<le> 24" "bit_len m = 24 \<or> e = - 149" "- 149 \<le> e" "e \<le> 104"
  shows "encode_float 23 127 (m * 2 ^ (53 - bit_len m)) (e + int (bit_len m) - 53) = (e + 149) * 8388608 + m"
proof -
  let ?L = "bit_len m"
  note b = bit_len_bounds[OF assms(1)]
  have "bit_len (m * 2 ^ (53 - ?L)) = Suc 52"
    by (rule bit_len_unique) (use encode_wide(2,3)[OF assms(1) _ assms(4,5)] assms(2) in auto)
  then have q: "max (e + int ?L - 53 + int (bit_len (m * 2 ^ (53 - ?L))) - 1 - 23) (1 - 127 - 23) = e"
    using assms(2-4) by auto
  have "m < 16777216" using b assms(2) power_increasing[of ?L 24 "2 :: int"] by simp
  moreover have "nat (e - (e + int ?L - 53)) = 53 - ?L" "\<not> e \<le> e + int ?L - 53" using assms(2) by auto
  moreover have "m * 2 ^ (53 - ?L) \<noteq> 0" using assms(1) by simp
  ultimately show ?thesis
    using assms(4,5) unfolding encode_float_def Let_def by (simp add: q[simplified] round_shift_exact)
qed


lemma f64_masks:
  "b AND 0x7FFFFFFFFFFFFFFF = take_bit 63 (b :: f64)" "b AND 0x7FF = take_bit 11 b" "b AND 0xFFFFFFFFFFFFF = take_bit 52 b"
  by (simp_all add: take_bit_eq_mask mask_eq_exp_minus_1)

lemma f32_masks:
  "b AND 0x7FFFFFFF = take_bit 31 (b :: f32)" "b AND 0xFF = take_bit 8 b" "b AND 0x7FFFFF = take_bit 23 b"
  by (simp_all add: take_bit_eq_mask mask_eq_exp_minus_1)

text \<open>A pattern is its sign and its magnitude, and the magnitude is exponent and fraction.\<close>

lemma f32_pattern: "b = (if bit b 31 then 0x80000000 else 0) OR word_of_int (uint (take_bit 31 b))" for b :: f32
proof -
  have "b = push_bit 31 (drop_bit 31 b) OR take_bit 31 b"
  proof (rule bit_word_eqI)
    fix n assume "n < LENGTH(32)"
    then show "bit b n = bit (push_bit 31 (drop_bit 31 b) OR take_bit 31 b) n" by (cases "n = 31") (auto simp: bit_simps)
  qed
  moreover have "drop_bit 31 b = (if bit b 31 then 1 else 0)"
  proof (rule bit_word_eqI)
    fix n assume "n < LENGTH(32)"
    then show "bit (drop_bit 31 b) n = bit (if bit b 31 then 1 else 0 :: f32) n"
      using bit_imp_le_length[of b "31 + n"] by (cases "n = 0") (auto simp: bit_simps)
  qed
  ultimately show ?thesis by (auto split: if_splits)
qed

lemma f32_magnitude:
  fixes b :: f32
  shows "uint (take_bit 31 b) = uint (take_bit 8 (drop_bit 23 b)) * 8388608 + uint (take_bit 23 b)"
    "uint (take_bit 23 b) < 8388608" "0 \<le> uint (take_bit 23 b)" "0 \<le> uint (take_bit 8 (drop_bit 23 b))"
proof -
  let ?a = "uint b"
  have "take_bit 31 ?a = take_bit 8 (drop_bit 23 ?a) * 8388608 + take_bit 23 ?a"
  proof -
    have "take_bit 31 ?a div 8388608 = take_bit 8 (drop_bit 23 ?a)" "take_bit 31 ?a mod 8388608 = take_bit 23 ?a"
      using drop_bit_take_bit[of 23 31 ?a] take_bit_take_bit[of 23 31 ?a] by (simp_all add: drop_bit_eq_div take_bit_eq_mod)
    then show ?thesis by (metis div_mult_mod_eq)
  qed
  then show "uint (take_bit 31 b) = uint (take_bit 8 (drop_bit 23 b)) * 8388608 + uint (take_bit 23 b)"
    using uint_bounded[of b] by (simp add: unsigned_take_bit_eq unsigned_drop_bit_eq take_bit_int_eq_self)
  show "uint (take_bit 23 b) < 8388608" by (simp add: unsigned_take_bit_eq take_bit_eq_mod[where 'a = int])
qed simp_all

lemma f32_cast_exact:
  assumes "f32_is_finite b"
  shows "f64_is_finite (f32_to_f64 b) \<and> f64_to_f32 (f32_to_f64 b) = b"
proof -
  let ?x = "uint (take_bit 8 (drop_bit 23 b))" and ?f = "uint (take_bit 23 b)"
  let ?s = "if bit b 31 then 0x8000000000000000 else 0 :: f64"
  obtain m e where me: "f32_parts b = (m, e)" by fastforce
  note mag = f32_magnitude[of b]
  have fin: "uint (take_bit 31 b) < 2139095040" using assms by (simp add: f32_is_finite_def f32_masks word_less_def)
  then have x: "?x < 255" using mag by linarith
  have x0: "?x = 0 \<or> 1 \<le> ?x" using mag(4) by linarith
  have nan: "\<not> f32_is_nan b" using assms by (simp add: f32_is_nan_def f32_is_finite_def)
  have me': "(m, e) = (if ?x = 0 then (?f, - 149) else (?f + 8388608, ?x - 150))" using me by (simp add: f32_parts_def f32_masks Let_def)
  have val: "(e + 149) * 8388608 + m = uint (take_bit 31 b)" "- 149 \<le> e" "e \<le> 104" "0 \<le> m"
    using me' mag x x0 by (auto split: if_splits)
  have s: "take_bit 63 ?s = 0" by simp
  have pat: "(if bit b 31 then 0x80000000 else 0) OR word_of_int ((e + 149) * 8388608 + m) = b" using f32_pattern[of b] val(1) by simp
  show ?thesis
  proof (cases "m = 0")
    case True
    have "e = - 149"
    proof (cases "?x = 0")
      case False
      then have "m = ?f + 8388608" using me' by simp
      then show ?thesis using True mag(3) by linarith
    qed (use me' in simp)
    then have "b = (if bit b 31 then 0x80000000 else 0)" using pat True by simp
    moreover have "f32_to_f64 b = ?s OR word_of_int 0" using assms nan me True by (simp add: f32_to_f64_def Let_def encode_float_def)
    ultimately show ?thesis
      by (auto simp: f64_to_f32_def f64_is_nan_def f64_is_finite_def f64_parts_def encode_float_def Let_def)
  next
    case False
    let ?L = "bit_len m"
    define A where "A = encode_float 52 1023 m e"
    have m: "0 < m" "m < 16777216" "?x = 0 \<or> 8388608 \<le> m" "?x = 0 \<longrightarrow> e = - 149" using False val(4) me' mag by (auto split: if_splits)
    note b = bit_len_bounds[OF m(1)]
    have L: "?L \<le> 24"
    proof (rule ccontr)
      assume "\<not> ?L \<le> 24"
      then have "24 \<le> ?L - 1" by simp
      then show False using b m(2) power_increasing[of 24 "?L - 1" "2 :: int"] by simp
    qed
    have L24: "?L = 24 \<or> e = - 149" using m bit_len_unique[of 23 m] by auto
    have W: "A = (e + int ?L + 1022) * 4503599627370496 + (m * 2 ^ (53 - ?L) - 4503599627370496)"
      "4503599627370496 \<le> m * 2 ^ (53 - ?L)" "m * 2 ^ (53 - ?L) < 9007199254740992"
      unfolding A_def using encode_wide[OF m(1) _ val(2,3)] L by auto
    have A: "0 \<le> A" "A < 9218868437227405312" using W val(2,3) L b by auto
    have q: "A div 2 ^ 52 = e + int ?L + 1022" "A mod 2 ^ 52 = m * 2 ^ (53 - ?L) - 4503599627370496"
    proof -
      define K E where "K = m * 2 ^ (53 - ?L) - 4503599627370496" and "E = e + int ?L + 1022"
      have "0 \<le> K" "K < 4503599627370496" "A = K + E * 4503599627370496" using W by (auto simp: K_def E_def)
      then show "A div 2 ^ 52 = e + int ?L + 1022" "A mod 2 ^ 52 = m * 2 ^ (53 - ?L) - 4503599627370496"
        unfolding K_def[symmetric] E_def[symmetric] by simp_all
    qed
    note P = pattern_split[of 63 ?s A, OF s A(1)]
    have w: "f32_to_f64 b = ?s OR word_of_int A" using assms nan me by (simp add: f32_to_f64_def A_def)
    have t: "uint (take_bit 63 (f32_to_f64 b)) = A" unfolding w using P(1) A(2) by simp
    have "f64_parts (f32_to_f64 b) = (m * 2 ^ (53 - ?L), e + int ?L - 53)"
      unfolding f64_parts_def f64_masks w Let_def using P(2)[of 52] P(3)[of 52] q A(2) val(2) b by simp
    moreover have "f64_is_finite (f32_to_f64 b)" "\<not> f64_is_nan (f32_to_f64 b)"
      unfolding f64_is_finite_def f64_is_nan_def f64_masks word_less_def t using A(2) by simp_all
    moreover have "bit (f32_to_f64 b) 63 = bit b 31" unfolding w using P(4) A(2) by simp
    ultimately show ?thesis
      using encode_narrow[OF m(1) L L24 val(2,3)] pat by (simp add: f64_to_f32_def Let_def)
  qed
qed

end
