(* ===== verification/Core_Props.thy ===== *)
theory Core_Props
  imports Core Rust_Cast
begin

text \<open>
  Round trips of the core types: identifiers through text and bytes, and values through
  JSON.  Paths into a record and into a document agree.
\<close>

section \<open>Identifiers\<close>

lemma hex_digit_value: "d < 16 \<Longrightarrow> hex_value (hex_digit d) = Some d" "d < 16 \<Longrightarrow> hex_digit d \<notin> {CHR ''-'', CHR ''+''}"
proof -
  show v: "hex_value (hex_digit d) = Some d" if "d < 16" for d
    using that by (auto simp: hex_value_def hex_digit_def Let_def)
  have "hex_value CHR ''-'' = None" "hex_value CHR ''+'' = None" by (simp_all add: hex_value_def)
  then show "d < 16 \<Longrightarrow> hex_digit d \<notin> {CHR ''-'', CHR ''+''}" using v[of d] by auto
qed

lemma hex_fold_append: "hex_fold (xs @ ys) acc = Option.bind (hex_fold xs acc) (hex_fold ys)"
  by (induction xs arbitrary: acc) (auto simp: Let_def split: option.splits)

lemma hex_fold_digits:
  "v < 16 ^ n \<Longrightarrow> int v \<le> 340282366920938463463374607431768211455 \<Longrightarrow> hex_fold (hex_digits n v) 0 = Some (int v)"
proof (induction n arbitrary: v)
  case (Suc n)
  have "int (v div 16) * 16 + int (v mod 16) = int v" by (metis div_mult_mod_eq of_nat_add of_nat_mult of_nat_numeral)
  moreover have "v div 16 < 16 ^ n" using Suc.prems(1) by (simp add: less_mult_imp_div_less mult.commute)
  moreover have "int (v div 16) \<le> 340282366920938463463374607431768211455" using Suc.prems(2) by (simp add: zdiv_int)
  ultimately show ?case using Suc.IH[of "v div 16"] Suc.prems by (simp add: hex_fold_append hex_digit_value(1) Let_def)
qed simp

lemma hex_digits_chars: "c \<in> set (hex_digits n v) \<Longrightarrow> c \<notin> {CHR ''-'', CHR ''+''}" "length (hex_digits n v) = n"
proof -
  show "c \<in> set (hex_digits n v) \<Longrightarrow> c \<notin> {CHR ''-'', CHR ''+''}"
  proof (induction n arbitrary: v)
    case (Suc n)
    then show ?case using hex_digit_value(2)[of "v mod 16"] by auto
  qed simp
  show "length (hex_digits n v) = n" by (induction n arbitrary: v) auto
qed

lemma u128_hex: "u128_from_hex (record_id_display i) = Some i"
proof -
  let ?s = "record_id_display i"
  have v: "unat i < 16 ^ 32" "int (unat i) \<le> 340282366920938463463374607431768211455"
  proof -
    have b: "unat i < 2 ^ LENGTH(128)" by (rule unsigned_less)
    then show "unat i < 16 ^ 32" by simp
    have "int (unat i) < 2 ^ LENGTH(128)" using b by (metis of_nat_less_iff of_nat_numeral of_nat_power)
    then show "int (unat i) \<le> 340282366920938463463374607431768211455" by simp
  qed
  have ne: "?s \<noteq> []" using hex_digits_chars(2)[of 32 "unat i"] by (auto simp: record_id_display_def simp del: hex_digits.simps)
  then have "hd ?s \<notin> {CHR ''-'', CHR ''+''}" using hex_digits_chars(1)[of "hd ?s" 32 "unat i"] by (simp add: record_id_display_def)
  moreover have "hex_fold ?s 0 = Some (int (unat i))" unfolding record_id_display_def by (rule hex_fold_digits[OF v])
  ultimately show ?thesis using ne by (auto simp: u128_from_hex_def)
qed

text \<open>C19. A record id parses back from its 32 hexadecimal digits, with hyphens anywhere, and from
  its 16 bytes.\<close>

theorem record_id_roundtrip:
  assumes "filter (\<lambda>c. c \<noteq> CHR ''-'') s = record_id_display i"
  shows "record_id_from_str s = Inr i \<and> record_id_from_bytes (record_id_to_bytes i) = i \<and>
    length (record_id_display i) = 32 \<and> length (record_id_to_bytes i) = 16"
proof -
  have "unat i < 2 ^ LENGTH(128)" by (rule unsigned_less)
  then have "unat i < 256 ^ 16" by simp
  then have "record_id_from_bytes (record_id_to_bytes i) = i"
    by (simp add: record_id_from_bytes_def record_id_to_bytes_def of_be_bytes_be_bytes)
  then show ?thesis
    using assms u128_hex[of i] hex_digits_chars(2)[of 32 "unat i"]
    by (simp add: record_id_from_str_def record_id_to_bytes_def record_id_display_def del: hex_digits.simps)
qed

theorem record_id_roundtrip_witness:
  "record_id_from_str (take 8 (record_id_display 42) @ ''-'' @ drop 8 (record_id_display 42)) = Inr 42"
proof -
  have "filter (\<lambda>c. c \<noteq> CHR ''-'') (record_id_display 42) = record_id_display 42"
    by (rule filter_True) (use hex_digits_chars(1) in \<open>auto simp: record_id_display_def simp del: hex_digits.simps\<close>)
  then have "filter (\<lambda>c. c \<noteq> CHR ''-'') (take 8 (record_id_display 42) @ ''-'' @ drop 8 (record_id_display 42)) = record_id_display 42"
    using filter_append[of "\<lambda>c. c \<noteq> CHR ''-''" "take 8 (record_id_display 42)" "drop 8 (record_id_display 42)"] by simp
  then show ?thesis by (rule record_id_roundtrip[THEN conjunct1])
qed

section \<open>Paths\<close>

lemma split_once_split_on:
  "split_on d s = (case split_once d s of None \<Rightarrow> [s] | Some (h, t) \<Rightarrow> h # split_on d t)"
  by (induction s) (auto split: option.splits)

text \<open>A dotted path into a record is the path into the document of its fields.\<close>

lemma record_path_is_document_path:
  "record_get_path r path = get_path (VObject (rec_fields r)) path"
  using split_once_split_on[of "CHR ''.''" path]
  by (auto simp: record_get_path_def get_path_def split: option.splits)

section \<open>JSON\<close>

text \<open>The documented behaviour of \<open>serde_json::Number\<close> the conversions rely on.\<close>

definition json_laws :: "'n json_ops \<Rightarrow> bool" where
  "json_laws J \<longleftrightarrow>
     (\<forall>i. num_as_i64 J (num_of_i64 J i) = Some i) \<and> (\<forall>u. num_as_u64 J (num_of_u64 J u) = Some u) \<and>
     (\<forall>f. f64_is_finite f \<longrightarrow>
        (\<exists>n. num_from_f64 J f = Some n \<and> num_as_f64 J n = Some f \<and> num_as_i64 J n = None))"

text \<open>Values with finite floats and without an object that looks like an extension encoding.\<close>

fun json_safe :: "aura_value \<Rightarrow> bool" where
  "json_safe (VFloat f) = f64_is_finite f"
| "json_safe (VVector v) = list_all f32_is_finite v"
| "json_safe (VArray items) = list_all json_safe items"
| "json_safe (VObject m) =
     (list_all (\<lambda>p. json_safe (snd p)) m \<and> (length m = 1 \<longrightarrow> fst (hd m) \<notin> {''$vector'', ''$timestamp'', ''$bytes''}))"
| "json_safe _ = True"

lemma those_map: "(\<And>x. x \<in> set xs \<Longrightarrow> f x = Some (g x)) \<Longrightarrow> those (map f xs) = Some (map g xs)"
  by (induction xs) auto

lemma json_extension_None:
  "length m = 1 \<longrightarrow> fst (hd m) \<notin> {''$vector'', ''$timestamp'', ''$bytes''} \<Longrightarrow> json_extension J m = None"
  by (cases m) (auto simp: json_extension_def split: prod.splits)

lemma json_vector:
  assumes "json_laws J" "list_all f32_is_finite v"
  shows "json_array_to_vector J (map (\<lambda>x. json_of_f64 J (f32_to_f64 x)) v) = Some v"
proof -
  have "map_option f64_to_f32 (json_as_f64 J (json_of_f64 J (f32_to_f64 x))) = Some x" if "x \<in> set v" for x
  proof -
    have "f64_is_finite (f32_to_f64 x)" "f64_to_f32 (f32_to_f64 x) = x"
      using f32_cast_exact[of x] assms(2) that by (auto simp: list_all_iff)
    moreover obtain n where "num_from_f64 J (f32_to_f64 x) = Some n" "num_as_f64 J n = Some (f32_to_f64 x)"
      using assms(1) calculation(1) unfolding json_laws_def by blast
    ultimately show ?thesis by (simp add: json_of_f64_def json_as_f64_def)
  qed
  then show ?thesis
    using those_map[of v "\<lambda>x. map_option f64_to_f32 (json_as_f64 J (json_of_f64 J (f32_to_f64 x)))" "\<lambda>x. x"]
    by (simp add: json_array_to_vector_def comp_def)
qed

lemma json_bytes:
  assumes "json_laws J"
  shows "json_array_to_bytes J (map (\<lambda>x. JNumber (num_of_u64 J (ucast x))) b) = Some b"
proof -
  have "(case json_as_u64 J (JNumber (num_of_u64 J (ucast x))) of None \<Rightarrow> None
      | Some n \<Rightarrow> if n \<le> 255 then Some (ucast n) else None) = Some x" for x :: u8
  proof -
    have "uint x < 2 ^ LENGTH(8)" by (rule unsigned_less)
    then have "(ucast x :: u64) \<le> 255" by (simp add: word_le_def unsigned_ucast_eq take_bit_eq_mod)
    moreover have "(ucast (ucast x :: u64) :: u8) = x" by (rule bit_word_eqI) (simp add: bit_simps)
    ultimately show ?thesis using assms by (simp add: json_as_u64_def json_laws_def)
  qed
  then show ?thesis
    using those_map[of b "\<lambda>x. case json_as_u64 J (JNumber (num_of_u64 J (ucast x))) of None \<Rightarrow> None
      | Some n \<Rightarrow> if n \<le> 255 then Some (ucast n) else None" "\<lambda>x. x"]
    by (simp add: json_array_to_bytes_def comp_def)
qed

text \<open>C17. A value with finite floats, in which no one-entry object uses a reserved key, survives
  the conversion to JSON and back.\<close>

theorem json_value_roundtrip:
  assumes "json_laws J" "json_safe v"
  shows "from_json J (to_json J v) = v"
  using assms(2)
proof (induction v rule: json_safe.induct)
  case (1 f)
  then show ?case using assms(1) by (auto simp: json_laws_def json_of_f64_def split: option.splits)
next
  case (2 v)
  then show ?case using json_vector[OF assms(1), of v] by (simp add: json_extension_def)
next
  case (3 items)
  then show ?case by (auto simp: list_all_iff intro: map_idI)
next
  case (4 m)
  have "from_json J (to_json J (snd p)) = snd p" if "p \<in> set m" for p
    using 4 that by (auto simp: list_all_iff)
  moreover have "json_extension J (map (\<lambda>(k, v). (k, to_json J v)) m) = None"
    by (rule json_extension_None) (use 4 in \<open>auto simp: length_Suc_conv\<close>)
  ultimately show ?case by (auto simp: intro!: map_idI)
qed (use assms(1) in \<open>auto simp: json_laws_def json_extension_def json_bytes[OF assms(1)]\<close>)

text \<open>A number type with the three cases of \<open>serde_json::Number\<close>.\<close>

datatype demo_num = NumI i64 | NumU u64 | NumF f64

definition demo_json :: "demo_num json_ops" where
  "demo_json =
     \<lparr>num_of_i64 = NumI, num_of_u64 = NumU, num_from_f64 = (\<lambda>f. if f64_is_finite f then Some (NumF f) else None),
      num_as_i64 = (\<lambda>n. case n of NumI i \<Rightarrow> Some i | _ \<Rightarrow> None),
      num_as_u64 = (\<lambda>n. case n of NumU u \<Rightarrow> Some u | _ \<Rightarrow> None),
      num_as_f64 = (\<lambda>n. case n of NumF f \<Rightarrow> Some f | _ \<Rightarrow> None), json_to_string = (\<lambda>_. None)\<rparr>"

theorem json_value_roundtrip_witness:
  "let v = VObject [(''a'', VArray [VInt (- 7), VFloat 0x3FF8000000000000]), (''b'', VVector [0x3DCCCCCD, 0x80000001]), (''c'', VBytes [0, 255])]
   in from_json demo_json (to_json demo_json v) = v"
proof -
  let ?v = "VObject [(''a'', VArray [VInt (- 7), VFloat 0x3FF8000000000000]), (''b'', VVector [0x3DCCCCCD, 0x80000001]), (''c'', VBytes [0, 255])]"
  have "json_laws demo_json" by (simp add: json_laws_def demo_json_def)
  moreover have "json_safe ?v" by code_simp
  ultimately show ?thesis using json_value_roundtrip[of demo_json ?v] by (simp add: Let_def del: from_json.simps to_json.simps)
qed

end
