(* ===== verification/Rust_Io.thy ===== *)
theory Rust_Io
  imports Core
begin

text \<open>
  A directory of files with scripted faults.  Every file-system call takes the next outcome of
  the script; past its end calls succeed.  A failed write leaves a prefix of its data in the
  file, a failed rename or removal changes nothing.  A crash is a directory left behind: since
  every caller returns on the first error, the directory after a failed call is the one a
  crash during that call leaves.  A power loss moreover cuts each file down to any length not
  below the one it had at its last sync (\<open>dir_synced\<close>); names, that is creation, renaming and
  removal, are taken to be durable at once.

  An I/O action is a function from the directory to a result and the new directory;
  \<open>io_bind\<close> is the \<open>?\<close> operator.
\<close>

record dir =
  dir_files :: "(string, u8 list) omap"
  dir_synced :: "(string, nat) omap"
  dir_script :: "io_outcome list"

type_synonym 'a io = "dir \<Rightarrow> (error, 'a, dir) result_st"

definition io_pop :: "dir \<Rightarrow> io_outcome \<times> dir" where
  "io_pop d = (case dir_script d of [] \<Rightarrow> (IoOk, d) | x # xs \<Rightarrow> (x, d\<lparr>dir_script := xs\<rparr>))"

definition io_return :: "'a \<Rightarrow> 'a io" where
  "io_return x d = (Inr x, d)"

definition io_error :: "error \<Rightarrow> 'a io" where
  "io_error e d = (Inl e, d)"

definition io_bind :: "'a io \<Rightarrow> ('a \<Rightarrow> 'b io) \<Rightarrow> 'b io" where
  "io_bind m f d = (case m d of (Inl e, d) \<Rightarrow> (Inl e, d) | (Inr x, d) \<Rightarrow> f x d)"

text \<open>\<open>let _ = call\<close>: the error is dropped.\<close>

definition io_ignore :: "'a io \<Rightarrow> unit io" where
  "io_ignore m d = (Inr (), snd (m d))"

definition om_touch :: "string \<Rightarrow> (string, u8 list) omap \<Rightarrow> (string, u8 list) omap" where
  "om_touch p m = (case om_get m p of None \<Rightarrow> om_insert p [] m | Some _ \<Rightarrow> m)"

text \<open>A call without effect on the files: creating the directory, opening.\<close>

definition fs_call :: "unit io" where
  "fs_call d = (case io_pop d of (IoOk, d) \<Rightarrow> (Inr (), d) | (IoFail _, d) \<Rightarrow> (Inl EIo, d))"

text \<open>\<open>sync_all\<close> on a handle; a file that was removed is out of reach.\<close>

definition fs_sync :: "string \<Rightarrow> unit io" where
  "fs_sync p d =
     (case io_pop d of
        (IoOk, d) \<Rightarrow>
          (Inr (), case om_get (dir_files d) p of
             None \<Rightarrow> d
           | Some b \<Rightarrow> d\<lparr>dir_synced := om_insert p (length b) (dir_synced d)\<rparr>)
      | (IoFail _, d) \<Rightarrow> (Inl EIo, d))"

text \<open>\<open>Path::exists\<close> answers no when the query fails.\<close>

definition fs_exists :: "string \<Rightarrow> bool io" where
  "fs_exists p d =
     (case io_pop d of
        (IoOk, d) \<Rightarrow> (Inr (om_get (dir_files d) p \<noteq> None), d)
      | (IoFail _, d) \<Rightarrow> (Inr False, d))"

definition fs_read :: "string \<Rightarrow> (u8 list) io" where
  "fs_read p d =
     (case io_pop d of
        (IoOk, d) \<Rightarrow> (case om_get (dir_files d) p of None \<Rightarrow> (Inl EIo, d) | Some b \<Rightarrow> (Inr b, d))
      | (IoFail _, d) \<Rightarrow> (Inl EIo, d))"

text \<open>\<open>metadata(p).ok()\<close>, the length.\<close>

definition fs_len :: "string \<Rightarrow> (nat option) io" where
  "fs_len p d =
     (case io_pop d of
        (IoOk, d) \<Rightarrow> (Inr (map_option length (om_get (dir_files d) p)), d)
      | (IoFail _, d) \<Rightarrow> (Inr None, d))"

text \<open>\<open>fs::write\<close>: create or truncate, then write.\<close>

definition fs_write :: "string \<Rightarrow> u8 list \<Rightarrow> unit io" where
  "fs_write p bytes d =
     (case io_pop d of
        (IoOk, d) \<Rightarrow>
          (Inr (), d\<lparr>dir_files := om_insert p bytes (dir_files d), dir_synced := om_insert p 0 (dir_synced d)\<rparr>)
      | (IoFail k, d) \<Rightarrow>
          (Inl EIo, d\<lparr>dir_files := om_insert p (take k bytes) (dir_files d), dir_synced := om_insert p 0 (dir_synced d)\<rparr>))"

text \<open>\<open>write_all\<close> on a handle open for appending; when the file was removed, the bytes go to no name.\<close>

definition file_append :: "string \<Rightarrow> u8 list \<Rightarrow> dir \<Rightarrow> dir" where
  "file_append p bytes d =
     (case om_get (dir_files d) p of
        None \<Rightarrow> d
      | Some old \<Rightarrow> d\<lparr>dir_files := om_insert p (old @ bytes) (dir_files d)\<rparr>)"

definition fs_append_all :: "string \<Rightarrow> u8 list \<Rightarrow> unit io" where
  "fs_append_all p bytes d =
     (case io_pop d of
        (IoOk, d) \<Rightarrow> (Inr (), file_append p bytes d)
      | (IoFail k, d) \<Rightarrow> (Inl EIo, file_append p (take k bytes) d))"

text \<open>Opening with \<open>create(true)\<close>, keeping the contents or truncating.\<close>

definition fs_open_append :: "string \<Rightarrow> unit io" where
  "fs_open_append p d =
     (case io_pop d of
        (IoOk, d) \<Rightarrow> (Inr (), d\<lparr>dir_files := om_touch p (dir_files d)\<rparr>)
      | (IoFail _, d) \<Rightarrow> (Inl EIo, d))"

definition fs_create :: "string \<Rightarrow> unit io" where
  "fs_create p d =
     (case io_pop d of
        (IoOk, d) \<Rightarrow>
          (Inr (), d\<lparr>dir_files := om_insert p [] (dir_files d), dir_synced := om_insert p 0 (dir_synced d)\<rparr>)
      | (IoFail _, d) \<Rightarrow> (Inl EIo, d))"

definition fs_set_len :: "string \<Rightarrow> nat \<Rightarrow> unit io" where
  "fs_set_len p n d =
     (case io_pop d of
        (IoOk, d) \<Rightarrow>
          (case om_get (dir_files d) p of
             None \<Rightarrow> (Inl EIo, d)
           | Some b \<Rightarrow>
               (Inr (), d\<lparr>dir_files := om_insert p (take n b) (dir_files d),
                          dir_synced := om_entry p 0 (min n) (dir_synced d)\<rparr>))
      | (IoFail _, d) \<Rightarrow> (Inl EIo, d))"

definition synced_len :: "dir \<Rightarrow> string \<Rightarrow> nat" where
  "synced_len d p = (case om_get (dir_synced d) p of None \<Rightarrow> 0 | Some n \<Rightarrow> n)"

definition fs_rename :: "string \<Rightarrow> string \<Rightarrow> unit io" where
  "fs_rename p q d =
     (case io_pop d of
        (IoOk, d) \<Rightarrow>
          (case om_get (dir_files d) p of
             None \<Rightarrow> (Inl EIo, d)
           | Some b \<Rightarrow>
               (Inr (), d\<lparr>dir_files := om_insert q b (om_remove p (dir_files d)),
                          dir_synced := om_insert q (synced_len d p) (om_remove p (dir_synced d))\<rparr>))
      | (IoFail _, d) \<Rightarrow> (Inl EIo, d))"

definition fs_remove :: "string \<Rightarrow> unit io" where
  "fs_remove p d =
     (case io_pop d of
        (IoOk, d) \<Rightarrow>
          (case om_get (dir_files d) p of
             None \<Rightarrow> (Inl EIo, d)
           | Some _ \<Rightarrow>
               (Inr (), d\<lparr>dir_files := om_remove p (dir_files d), dir_synced := om_remove p (dir_synced d)\<rparr>))
      | (IoFail _, d) \<Rightarrow> (Inl EIo, d))"

text \<open>The atomic replacement both \<open>Manifest::save\<close> and \<open>Catalog::save\<close> use: write a temporary
  file, sync it, rename it over the target.\<close>

definition fs_replace :: "string \<Rightarrow> string \<Rightarrow> u8 list \<Rightarrow> unit io" where
  "fs_replace tmp p bytes =
     io_bind (fs_write tmp bytes) (\<lambda>_. io_bind fs_call (\<lambda>_. io_bind (fs_sync tmp) (\<lambda>_. fs_rename tmp p)))"

text \<open>The same without the sync, for the files that can be rebuilt.\<close>

definition fs_swap :: "string \<Rightarrow> string \<Rightarrow> u8 list \<Rightarrow> unit io" where
  "fs_swap tmp p bytes = io_bind (fs_write tmp bytes) (\<lambda>_. fs_rename tmp p)"

section \<open>Reasoning about actions\<close>

text \<open>The contents of a file; every action below is described by what it may do to them.\<close>

definition file_of :: "dir \<Rightarrow> string \<Rightarrow> u8 list option" where
  "file_of d = om_get (dir_files d)"

definition no_faults :: "dir \<Rightarrow> bool" where
  "no_faults d = (dir_script d = [])"

text \<open>What a power loss can leave, and a directory it cannot change.\<close>

definition power_loss :: "dir \<Rightarrow> dir \<Rightarrow> bool" where
  "power_loss d d' \<longleftrightarrow>
     (\<forall>p. case file_of d p of
            None \<Rightarrow> file_of d' p = None
          | Some b \<Rightarrow> \<exists>n \<ge> synced_len d p. file_of d' p = Some (take n b))"

definition all_synced :: "dir \<Rightarrow> bool" where
  "all_synced d \<longleftrightarrow> (\<forall>p b. file_of d p = Some b \<longrightarrow> length b \<le> synced_len d p)"

lemma io_pop_fields: "io_pop d = (x, d') \<Longrightarrow> dir_files d' = dir_files d \<and> dir_synced d' = dir_synced d"
  by (auto simp: io_pop_def split: list.splits)

lemmas io_pop_files [simp] = io_pop_fields[THEN conjunct1]

lemma io_pop_ok [simp]: "no_faults d \<Longrightarrow> io_pop d = (IoOk, d)"
  by (simp add: io_pop_def no_faults_def)

lemma no_faults_upd [simp]:
  "no_faults (d\<lparr>dir_files := f\<rparr>) = no_faults d" "no_faults (d\<lparr>dir_synced := g\<rparr>) = no_faults d"
  by (simp_all add: no_faults_def)

lemma file_of_upd [simp]:
  "file_of (d\<lparr>dir_synced := g\<rparr>) = file_of d" "synced_len (d\<lparr>dir_files := f\<rparr>) = synced_len d"
  by (simp_all add: file_of_def synced_len_def fun_eq_iff)

lemma io_pop_dir: "io_pop d = (x, d') \<Longrightarrow> file_of d' = file_of d \<and> synced_len d' = synced_len d"
  using io_pop_fields[of d x d'] by (simp add: file_of_def synced_len_def fun_eq_iff)

lemma io_bind_ok: "io_bind m f d = (Inr y, d') \<longleftrightarrow> (\<exists>x d1. m d = (Inr x, d1) \<and> f x d1 = (Inr y, d'))"
  by (auto simp: io_bind_def split: sum.splits prod.splits)

lemma io_bind_step: "m d = (Inr x, d1) \<Longrightarrow> io_bind m f d = f x d1"
  by (simp add: io_bind_def)

lemma io_bind_cases:
  assumes "io_bind m f d = (r, d')"
  obtains (err) e where "m d = (Inl e, d')" "r = Inl e"
  | (ok) x d1 where "m d = (Inr x, d1)" "f x d1 = (r, d')"
  using assms by (auto simp: io_bind_def split: sum.splits prod.splits)

lemma fs_call_file: "fs_call d = (r, d') \<Longrightarrow> file_of d' = file_of d"
  by (auto simp: fs_call_def file_of_def split: prod.splits io_outcome.splits)

lemma fs_sync_file:
  assumes "fs_sync p d = (r, d')"
  shows "file_of d' = file_of d \<and> (r = Inr () \<or> r = Inl EIo) \<and>
   synced_len d' = (case file_of d p of Some b \<Rightarrow> if r = Inr () then (synced_len d)(p := length b) else synced_len d | None \<Rightarrow> synced_len d)"
proof -
  obtain x d1 where x: "io_pop d = (x, d1)" by fastforce
  show ?thesis using assms x io_pop_fields[OF x]
    by (cases x; cases "om_get (dir_files d) p") (auto simp: fs_sync_def synced_len_def file_of_def fun_eq_iff)
qed

lemma fs_sync_ok [simp]: "no_faults d \<Longrightarrow> \<exists>d'. fs_sync p d = (Inr (), d') \<and> no_faults d' \<and> file_of d' = file_of d"
  by (auto simp: fs_sync_def file_of_def split: option.splits)

lemma fs_call_ok [simp]: "no_faults d \<Longrightarrow> fs_call d = (Inr (), d)"
  by (simp add: fs_call_def)

lemma fs_exists_ok [simp]: "no_faults d \<Longrightarrow> fs_exists p d = (Inr (file_of d p \<noteq> None), d)"
  by (simp add: fs_exists_def file_of_def)

lemma fs_read_ok [simp]: "no_faults d \<Longrightarrow> file_of d p = Some b \<Longrightarrow> fs_read p d = (Inr b, d)"
  by (simp add: fs_read_def file_of_def)

lemma fs_write_file:
  "fs_write p b d = (r, d') \<Longrightarrow>
   (r = Inr () \<and> file_of d' = (file_of d)(p \<mapsto> b)) \<or>
   (r = Inl EIo \<and> (\<exists>k. file_of d' = (file_of d)(p \<mapsto> take k b)))"
  by (auto simp: fs_write_def file_of_def fun_eq_iff split: prod.splits io_outcome.splits)

lemma fs_append_file:
  "fs_append_all p b d = (r, d') \<Longrightarrow> file_of d p = Some old \<Longrightarrow>
   (r = Inr () \<and> file_of d' = (file_of d)(p \<mapsto> old @ b)) \<or>
   (r = Inl EIo \<and> (\<exists>k. file_of d' = (file_of d)(p \<mapsto> old @ take k b)))"
  by (auto simp: fs_append_all_def file_append_def file_of_def fun_eq_iff split: prod.splits io_outcome.splits option.splits)

lemma fs_append_synced: "fs_append_all p b d = (r, d') \<Longrightarrow> synced_len d' = synced_len d"
  by (auto simp: fs_append_all_def file_append_def split: prod.splits io_outcome.splits option.splits dest!: io_pop_dir)

lemma om_get_touch: "om_get (om_touch p m) = (om_get m)(p := Some (case om_get m p of None \<Rightarrow> [] | Some b \<Rightarrow> b))"
  by (auto simp: om_touch_def split: option.splits)

lemma fs_open_append_file:
  "fs_open_append p d = (r, d') \<Longrightarrow>
   (r = Inr () \<and> file_of d' = (file_of d)(p := Some (case file_of d p of None \<Rightarrow> [] | Some b \<Rightarrow> b))) \<or>
   (r = Inl EIo \<and> file_of d' = file_of d)"
  by (auto simp: fs_open_append_def file_of_def om_get_touch fun_eq_iff split: prod.splits io_outcome.splits)

lemma fs_open_append_ok:
  assumes "no_faults d"
  obtains d' where "fs_open_append p d = (Inr (), d')" "no_faults d'"
    "file_of d' = (file_of d)(p := Some (case file_of d p of None \<Rightarrow> [] | Some b \<Rightarrow> b))"
  using assms by (auto simp: fs_open_append_def file_of_def om_get_touch)

lemma fs_create_file:
  "fs_create p d = (r, d') \<Longrightarrow>
   (r = Inr () \<and> file_of d' = (file_of d)(p \<mapsto> [])) \<or> (r = Inl EIo \<and> file_of d' = file_of d)"
  by (auto simp: fs_create_def file_of_def fun_eq_iff split: prod.splits io_outcome.splits)

lemma fs_rename_file:
  "fs_rename p q d = (r, d') \<Longrightarrow> file_of d p = Some b \<Longrightarrow>
   (r = Inr () \<and> file_of d' = (file_of d)(p := None, q := Some b)) \<or> (r = Inl EIo \<and> file_of d' = file_of d)"
  by (auto simp: fs_rename_def file_of_def fun_eq_iff split: prod.splits io_outcome.splits)

lemma fs_remove_file:
  "fs_remove p d = (r, d') \<Longrightarrow> file_of d' = file_of d \<or> file_of d' = (file_of d)(p := None)"
  by (auto simp: fs_remove_def file_of_def fun_eq_iff split: prod.splits io_outcome.splits option.splits)

lemma fs_replace_file:
  assumes "fs_replace tmp p b d = (r, d')"
  shows "(r = Inr () \<and> file_of d' = (file_of d)(tmp := None, p := Some b)) \<or>
    (r = Inl EIo \<and> (\<exists>x. file_of d' = (file_of d)(tmp := x)))"
proof -
  obtain r1 d1 where 1: "fs_write tmp b d = (r1, d1)" by fastforce
  show ?thesis
  proof (cases r1)
    case (Inl e)
    then show ?thesis using assms 1 fs_write_file[OF 1] by (auto simp: fs_replace_def io_bind_def)
  next
    case (Inr u)
    then have d1: "file_of d1 = (file_of d)(tmp \<mapsto> b)" using fs_write_file[OF 1] by auto
    obtain r2 d2 where 2: "fs_call d1 = (r2, d2)" by fastforce
    obtain r3 d3 where 3: "fs_sync tmp d2 = (r3, d3)" by fastforce
    have r: "fs_replace tmp p b d = (case r2 of Inl e \<Rightarrow> (Inl e, d2) | Inr _ \<Rightarrow>
        (case r3 of Inl e \<Rightarrow> (Inl e, d3) | Inr _ \<Rightarrow> fs_rename tmp p d3))"
      using 1 2 3 Inr by (auto simp: fs_replace_def io_bind_def split: sum.splits)
    have f: "file_of d2 = file_of d1" "file_of d3 = file_of d1"
      using fs_call_file[OF 2] fs_sync_file[OF 3] by simp_all
    have e: "r2 = Inl e \<Longrightarrow> e = EIo" "r3 = Inl e \<Longrightarrow> e = EIo" for e
      using 2 fs_sync_file[OF 3] by (auto simp: fs_call_def split: prod.splits io_outcome.splits)
    have "\<exists>x. (file_of d)(tmp \<mapsto> b) = (file_of d)(tmp := x)" by blast
    then show ?thesis
      using assms f d1 e fs_rename_file[of tmp p d3 r d' b] unfolding r by (auto split: sum.splits)
  qed
qed

lemma fs_replace_ok:
  assumes "no_faults d"
  obtains d' where "fs_replace tmp p b d = (Inr (), d')" "no_faults d'"
    "file_of d' = (file_of d)(tmp := None, p := Some b)"
  using assms by (auto simp: fs_replace_def io_bind_def fs_write_def fs_sync_def fs_rename_def file_of_def)

lemma fs_swap_file:
  assumes "fs_swap tmp p b d = (r, d')" "tmp \<noteq> p"
  shows "(r = Inr () \<and> file_of d' p = Some b) \<or> (r = Inl EIo \<and> file_of d' p = file_of d p)"
proof -
  obtain r1 d1 where 1: "fs_write tmp b d = (r1, d1)" by fastforce
  show ?thesis
  proof (cases r1)
    case (Inl e)
    then show ?thesis using assms 1 fs_write_file[OF 1] by (auto simp: fs_swap_def io_bind_def)
  next
    case (Inr u)
    then have "file_of d1 = (file_of d)(tmp \<mapsto> b)" using fs_write_file[OF 1] by auto
    then show ?thesis using assms 1 Inr fs_rename_file[of tmp p d1 r d' b] by (auto simp: fs_swap_def io_bind_def)
  qed
qed

end
