(* ===== verification/Store_Format.thy ===== *)
theory Store_Format
  imports Rust_Io
begin

text \<open>
  \<open>crates/auradb-storage/src/format.rs\<close>, \<open>manifest.rs\<close> and \<open>catalog.rs\<close>: the operations of the
  log, the checksummed batch frames of a segment file, the manifest and the schema catalog.
  \<open>serde_json\<close> and \<open>crc32fast\<close> are the parameter \<open>store_codec\<close>.
\<close>

section \<open>Log operations and batches\<close>

datatype log_op =
    OpPut commit_ts record_t
  | OpDelete commit_ts collection_id record_id

definition op_commit_ts :: "log_op \<Rightarrow> commit_ts" where
  "op_commit_ts op = (case op of OpPut ts _ \<Rightarrow> ts | OpDelete ts _ _ \<Rightarrow> ts)"

definition op_set_commit_ts :: "commit_ts \<Rightarrow> log_op \<Rightarrow> log_op" where
  "op_set_commit_ts ts op = (case op of OpPut _ r \<Rightarrow> OpPut ts r | OpDelete _ c i \<Rightarrow> OpDelete ts c i)"

record batch =
  b_txn_id :: txn_id
  b_ops :: "log_op list"

section \<open>Manifest and catalog\<close>

definition FORMAT_VERSION :: u32 where
  "FORMAT_VERSION = 2"

definition MIN_READABLE_FORMAT_VERSION :: u32 where
  "MIN_READABLE_FORMAT_VERSION = 1"

record segment_ref =
  seg_id :: nat

fun dec_digits :: "nat \<Rightarrow> nat \<Rightarrow> string" where
  "dec_digits 0 v = []"
| "dec_digits (Suc n) v = dec_digits n (v div 10) @ [char_of (48 + v mod 10)]"

function dec_len :: "nat \<Rightarrow> nat" where
  "dec_len v = (if v < 10 then 1 else Suc (dec_len (v div 10)))"
  by pat_completeness auto
termination
  by (relation "measure id") auto

declare dec_len.simps [simp del]

text \<open>\<open>{:010}.seg\<close>: at least ten decimal digits.\<close>

definition segment_file_name :: "segment_ref \<Rightarrow> string" where
  "segment_file_name s = dec_digits (max 10 (dec_len (seg_id s))) (seg_id s) @ ''.seg''"

record manifest =
  mf_format_version :: u32
  mf_segments :: "segment_ref list"
  mf_next_segment_id :: nat
  mf_last_txn_id :: txn_id
  mf_last_commit_ts :: commit_ts

definition manifest_default :: manifest where
  "manifest_default =
     \<lparr>mf_format_version = FORMAT_VERSION, mf_segments = [\<lparr>seg_id = 1\<rparr>], mf_next_segment_id = 2,
      mf_last_txn_id = 0, mf_last_commit_ts = 0\<rparr>"

record catalog =
  cat_schemas :: "(string, collection_schema) omap"
  cat_schema_version :: nat

definition catalog_default :: catalog where
  "catalog_default = \<lparr>cat_schemas = [], cat_schema_version = 0\<rparr>"

record store_codec =
  batch_to_vec :: "batch \<Rightarrow> u8 list"
  batch_from_slice :: "u8 list \<Rightarrow> batch option"
  manifest_to_vec :: "manifest \<Rightarrow> u8 list option"
  manifest_from_slice :: "u8 list \<Rightarrow> manifest option"
  catalog_to_vec :: "catalog \<Rightarrow> u8 list option"
  catalog_from_slice :: "u8 list \<Rightarrow> catalog option"
  crc32_hash :: "u8 list \<Rightarrow> u32"

definition MANIFEST_FILE :: string where
  "MANIFEST_FILE = ''MANIFEST''"

definition CATALOG_FILE :: string where
  "CATALOG_FILE = ''catalog.json''"

text \<open>\<open>path.with_extension("tmp")\<close> of the two names.\<close>

definition MANIFEST_TMP :: string where
  "MANIFEST_TMP = ''MANIFEST.tmp''"

definition CATALOG_TMP :: string where
  "CATALOG_TMP = ''catalog.tmp''"

definition manifest_active :: "manifest \<Rightarrow> segment_ref option" where
  "manifest_active m = (if mf_segments m = [] then None else Some (last (mf_segments m)))"

definition manifest_load :: "store_codec \<Rightarrow> manifest io" where
  "manifest_load c =
     io_bind (fs_read MANIFEST_FILE) (\<lambda>bytes.
       case manifest_from_slice c bytes of
         None \<Rightarrow> io_error ECorruption
       | Some m \<Rightarrow>
           if FORMAT_VERSION < mf_format_version m \<or> mf_format_version m < MIN_READABLE_FORMAT_VERSION
           then io_error EUnsupported
           else if mf_segments m = [] then io_error ECorruption
           else io_return m)"

definition manifest_save :: "store_codec \<Rightarrow> manifest \<Rightarrow> unit io" where
  "manifest_save c m =
     (case manifest_to_vec c m of
        None \<Rightarrow> io_error EStorage
      | Some bytes \<Rightarrow> fs_replace MANIFEST_TMP MANIFEST_FILE bytes)"

definition catalog_load :: "store_codec \<Rightarrow> catalog io" where
  "catalog_load c =
     io_bind (fs_exists CATALOG_FILE) (\<lambda>present.
       if \<not> present then io_return catalog_default
       else io_bind (fs_read CATALOG_FILE) (\<lambda>bytes.
         case catalog_from_slice c bytes of
           None \<Rightarrow> io_error ECorruption
         | Some cat \<Rightarrow> io_return cat))"

definition catalog_save :: "store_codec \<Rightarrow> catalog \<Rightarrow> unit io" where
  "catalog_save c cat =
     (case catalog_to_vec c cat of
        None \<Rightarrow> io_error EStorage
      | Some bytes \<Rightarrow> fs_replace CATALOG_TMP CATALOG_FILE bytes)"

definition catalog_put :: "collection_schema \<Rightarrow> catalog \<Rightarrow> catalog" where
  "catalog_put s cat =
     cat\<lparr>cat_schema_version := cat_schema_version cat + 1,
         cat_schemas := om_insert (cs_name s) s (cat_schemas cat)\<rparr>"

definition catalog_remove :: "string \<Rightarrow> catalog \<Rightarrow> bool \<times> catalog" where
  "catalog_remove name cat =
     (let existed = om_get (cat_schemas cat) name \<noteq> None;
          cat = cat\<lparr>cat_schemas := om_remove name (cat_schemas cat)\<rparr>
      in (existed, if existed then cat\<lparr>cat_schema_version := cat_schema_version cat + 1\<rparr> else cat))"

section \<open>Batch frames\<close>

definition batch_encode :: "store_codec \<Rightarrow> batch \<Rightarrow> u8 list" where
  "batch_encode c b =
     (let payload = batch_to_vec c b
      in be_bytes 8 (length payload) @ be_bytes 4 (unat (crc32_hash c payload)) @ payload)"

record parsed_segment =
  ps_batches :: "batch list"
  ps_valid_len :: nat
  ps_truncated :: bool

text \<open>The loop of \<open>parse_segment\<close>; \<open>usize\<close> is 64 bits wide.\<close>

function parse_loop ::
  "store_codec \<Rightarrow> u8 list \<Rightarrow> nat \<Rightarrow> batch list \<Rightarrow> (error, parsed_segment) result" where
  "parse_loop c buf offset batches =
     (if length buf \<le> offset
      then Inr \<lparr>ps_batches = batches, ps_valid_len = offset, ps_truncated = False\<rparr>
      else if length buf < offset + 12
      then Inr \<lparr>ps_batches = batches, ps_valid_len = offset, ps_truncated = True\<rparr>
      else
        (let len = of_be_bytes (take 8 (drop offset buf));
             crc = of_be_bytes (take 4 (drop (offset + 8) buf));
             body_start = offset + 12;
             body_end = body_start + len
         in if (18446744073709551615 :: int) < int body_end then Inl ECorruption
            else if length buf < body_end
            then Inr \<lparr>ps_batches = batches, ps_valid_len = offset, ps_truncated = True\<rparr>
            else
              (let payload = take len (drop body_start buf) in
               if unat (crc32_hash c payload) \<noteq> crc then Inl ECorruption
               else case batch_from_slice c payload of
                 None \<Rightarrow> Inl ECorruption
               | Some b \<Rightarrow> parse_loop c buf body_end (batches @ [b]))))"
  by pat_completeness auto
termination
  by (relation "measure (\<lambda>(c, buf, offset, bs). length buf - offset)") auto

declare parse_loop.simps [simp del]

definition parse_segment :: "store_codec \<Rightarrow> u8 list \<Rightarrow> (error, parsed_segment) result" where
  "parse_segment c buf = parse_loop c buf 0 []"

end
