(* ===== verification/Store.thy ===== *)
theory Store
  imports Store_Format
begin

text \<open>
  \<open>crates/auradb-storage/src/lib.rs\<close>: the multi-version record store.  \<open>storage\<close> holds the
  directory it writes to, so that a method with \<open>&mut self\<close> is a function from the storage to
  its result and the new storage; \<open>st_active\<close> is the name of the file the append handle is
  open on.  Commit timestamps and record versions are natural numbers: both grow by one per
  commit, and reaching \<open>2 ^ 64\<close> is not modelled.
\<close>

section \<open>State\<close>

record version_t =
  v_commit_ts :: commit_ts
  v_value :: "record_t option"

type_synonym chain = "version_t list"
type_synonym record_map = "(collection_id, (record_id, chain) omap) omap"

record storage =
  st_dir :: dir
  st_sync_on_commit :: bool
  st_manifest :: manifest
  st_catalog :: catalog
  st_records :: record_map
  st_active :: string
  st_max_txn_id :: txn_id
  st_last_commit_ts :: commit_ts

record compaction_report =
  cr_segments_before :: nat
  cr_segments_after :: nat
  cr_live_records :: nat

record gc_report =
  gr_versions_reclaimed :: nat
  gr_records_removed :: nat
  gr_versions_after :: nat
  gr_bytes_reclaimed :: nat

section \<open>Version chains\<close>

definition visible_at :: "chain \<Rightarrow> commit_ts \<Rightarrow> version_t option" where
  "visible_at ch read_ts = List.find (\<lambda>v. v_commit_ts v \<le> read_ts) (rev ch)"

definition chain_latest :: "chain \<Rightarrow> version_t option" where
  "chain_latest ch = (if ch = [] then None else Some (last ch))"

text \<open>\<open>binary_search_by\<close> on the ascending chain: the slot of the timestamp, or where it goes.\<close>

fun insert_version :: "chain \<Rightarrow> version_t \<Rightarrow> chain" where
  "insert_version [] v = [v]"
| "insert_version (w # ch) v =
     (if v_commit_ts w < v_commit_ts v then w # insert_version ch v
      else if v_commit_ts w = v_commit_ts v then v # ch
      else v # w # ch)"

definition apply_op :: "log_op \<Rightarrow> record_map \<Rightarrow> record_map" where
  "apply_op op recs =
     (case op of
        OpPut ts r \<Rightarrow>
          om_entry (rec_collection r) []
            (om_entry (rec_id r) [] (\<lambda>ch. insert_version ch \<lparr>v_commit_ts = ts, v_value = Some r\<rparr>)) recs
      | OpDelete ts c i \<Rightarrow>
          om_entry c [] (om_entry i [] (\<lambda>ch. insert_version ch \<lparr>v_commit_ts = ts, v_value = None\<rparr>)) recs)"

definition apply_batch :: "batch \<Rightarrow> record_map \<Rightarrow> record_map" where
  "apply_batch b recs = fold apply_op (b_ops b) recs"

section \<open>Rewriting into one segment\<close>

definition rewrite_ops :: "record_map \<Rightarrow> log_op list" where
  "rewrite_ops recs =
     concat (map (\<lambda>(c, chains).
       concat (map (\<lambda>(i, ch).
         map (\<lambda>v. case v_value v of
                    Some r \<Rightarrow> OpPut (v_commit_ts v) r
                  | None \<Rightarrow> OpDelete (v_commit_ts v) c i) ch) chains)) recs)"

text \<open>The removal loop over the old segments.\<close>

fun remove_segments :: "nat \<Rightarrow> segment_ref list \<Rightarrow> unit io" where
  "remove_segments new_id [] = io_return ()"
| "remove_segments new_id (s # ss) =
     io_bind (if seg_id s \<noteq> new_id then io_ignore (fs_remove (segment_file_name s)) else io_return ())
       (\<lambda>_. remove_segments new_id ss)"

text \<open>\<open>mem::replace\<close> and the assignments change the manifest in memory before it is saved, so they
  stay when the save fails.\<close>

definition rewrite_segment :: "store_codec \<Rightarrow> storage \<Rightarrow> (error, unit, storage) result_st" where
  "rewrite_segment c st =
     (let ops = rewrite_ops (st_records st);
          new_id = mf_next_segment_id (st_manifest st);
          new_seg = \<lparr>seg_id = new_id\<rparr>;
          new_path = segment_file_name new_seg;
          write_new =
            io_bind (fs_create new_path) (\<lambda>_.
            io_bind (if ops = [] then io_return ()
                     else fs_append_all new_path
                            (batch_encode c \<lparr>b_txn_id = st_max_txn_id st, b_ops = ops\<rparr>)) (\<lambda>_.
            fs_sync new_path))
      in case write_new (st_dir st) of
           (Inl e, d) \<Rightarrow> (Inl e, st\<lparr>st_dir := d\<rparr>)
         | (Inr _, d) \<Rightarrow>
             (let old_segments = mf_segments (st_manifest st);
                  m = \<lparr>mf_format_version = FORMAT_VERSION, mf_segments = [new_seg],
                       mf_next_segment_id = new_id + 1, mf_last_txn_id = st_max_txn_id st,
                       mf_last_commit_ts = st_last_commit_ts st\<rparr>;
                  st = st\<lparr>st_manifest := m\<rparr>
              in case manifest_save c m d of
                   (Inl e, d) \<Rightarrow> (Inl e, st\<lparr>st_dir := d\<rparr>)
                 | (Inr _, d) \<Rightarrow>
                     (case io_bind (remove_segments new_id old_segments)
                             (\<lambda>_. fs_open_append new_path) d of
                        (Inl e, d) \<Rightarrow> (Inl e, st\<lparr>st_dir := d\<rparr>)
                      | (Inr _, d) \<Rightarrow> (Inr (), st\<lparr>st_dir := d, st_active := new_path\<rparr>))))"

section \<open>Opening\<close>

record replay_state =
  rs_records :: record_map
  rs_max_txn_id :: txn_id
  rs_last_commit_ts :: commit_ts
  rs_migrate_ts :: commit_ts

fun stamp_ops :: "log_op list \<Rightarrow> commit_ts \<Rightarrow> log_op list \<times> commit_ts" where
  "stamp_ops [] ts = ([], ts)"
| "stamp_ops (op # ops) ts =
     (let (ops', ts') = stamp_ops ops (ts + 1) in (op_set_commit_ts (ts + 1) op # ops', ts'))"

definition replay_batch :: "bool \<Rightarrow> batch \<Rightarrow> replay_state \<Rightarrow> replay_state" where
  "replay_batch migrating b rs =
     (let rs = rs\<lparr>rs_max_txn_id := max (rs_max_txn_id rs) (b_txn_id b)\<rparr>;
          (b, rs) = (if migrating
                     then (let (ops, ts) = stamp_ops (b_ops b) (rs_migrate_ts rs)
                           in (b\<lparr>b_ops := ops\<rparr>, rs\<lparr>rs_migrate_ts := ts\<rparr>))
                     else (b, rs));
          rs = rs\<lparr>rs_last_commit_ts := fold (\<lambda>op ts. max ts (op_commit_ts op)) (b_ops b) (rs_last_commit_ts rs)\<rparr>
      in rs\<lparr>rs_records := apply_batch b (rs_records rs)\<rparr>)"

definition read_or_empty :: "string \<Rightarrow> (u8 list) io" where
  "read_or_empty p = io_bind (fs_exists p) (\<lambda>present. if present then fs_read p else io_return [])"

fun replay_segments ::
  "store_codec \<Rightarrow> bool \<Rightarrow> segment_ref list \<Rightarrow> replay_state \<Rightarrow> replay_state io" where
  "replay_segments c migrating [] rs = io_return rs"
| "replay_segments c migrating (seg # segs) rs =
     io_bind (read_or_empty (segment_file_name seg)) (\<lambda>buf.
       case parse_segment c buf of
         Inl e \<Rightarrow> io_error e
       | Inr parsed \<Rightarrow>
           io_bind
             (if ps_truncated parsed then
                (if segs \<noteq> [] then io_error ECorruption
                 else io_bind fs_call (\<lambda>_.
                      io_bind (fs_set_len (segment_file_name seg) (ps_valid_len parsed)) (\<lambda>_.
                      fs_sync (segment_file_name seg))))
              else io_return ())
             (\<lambda>_. replay_segments c migrating segs
                (fold (replay_batch migrating) (ps_batches parsed) rs)))"

text \<open>\<open>entry(name).or_default()\<close>.\<close>

definition ensure_collection :: "string \<Rightarrow> record_map \<Rightarrow> record_map" where
  "ensure_collection name recs = om_entry name [] (\<lambda>m. m) recs"

definition open_with :: "store_codec \<Rightarrow> bool \<Rightarrow> storage io" where
  "open_with c sync =
     io_bind fs_call (\<lambda>_.
     io_bind (fs_exists MANIFEST_FILE) (\<lambda>present.
     io_bind (if present then manifest_load c
              else io_bind (manifest_save c manifest_default) (\<lambda>_. io_return manifest_default)) (\<lambda>m.
     io_bind (catalog_load c) (\<lambda>cat.
     (let migrating = mf_format_version m < FORMAT_VERSION in
     io_bind (replay_segments c migrating (mf_segments m)
                \<lparr>rs_records = [], rs_max_txn_id = 0, rs_last_commit_ts = mf_last_commit_ts m,
                 rs_migrate_ts = 0\<rparr>) (\<lambda>rs.
     (let recs = fold ensure_collection (om_keys (cat_schemas cat)) (rs_records rs);
          active = (case manifest_active m of Some s \<Rightarrow> segment_file_name s | None \<Rightarrow> [])
      in io_bind (fs_open_append active) (\<lambda>_ d.
           (let st = \<lparr>st_dir = d, st_sync_on_commit = sync, st_manifest = m, st_catalog = cat,
                      st_records = recs, st_active = active, st_max_txn_id = rs_max_txn_id rs,
                      st_last_commit_ts = rs_last_commit_ts rs\<rparr>
            in if migrating
               then (case rewrite_segment c st of
                       (Inl e, st) \<Rightarrow> (Inl e, st_dir st)
                     | (Inr _, st) \<Rightarrow> (Inr st, st_dir st))
               else (Inr st, d))))))))))"

definition storage_open :: "store_codec \<Rightarrow> storage io" where
  "storage_open c = open_with c True"

section \<open>Reading\<close>

definition commit_watermark :: "storage \<Rightarrow> commit_ts" where
  "commit_watermark st = st_last_commit_ts st"

definition chain_get :: "record_map \<Rightarrow> collection_id \<Rightarrow> record_id \<Rightarrow> chain option" where
  "chain_get recs c i = (case om_get recs c of None \<Rightarrow> None | Some m \<Rightarrow> om_get m i)"

definition storage_get :: "storage \<Rightarrow> collection_id \<Rightarrow> record_id \<Rightarrow> record_t option" where
  "storage_get st c i =
     (case chain_get (st_records st) c i of
        None \<Rightarrow> None
      | Some ch \<Rightarrow> (case chain_latest ch of None \<Rightarrow> None | Some v \<Rightarrow> v_value v))"

definition chains_in :: "record_map \<Rightarrow> collection_id \<Rightarrow> chain list" where
  "chains_in recs c = (case om_get recs c of None \<Rightarrow> [] | Some m \<Rightarrow> om_values m)"

definition storage_scan :: "storage \<Rightarrow> collection_id \<Rightarrow> record_t list" where
  "storage_scan st c =
     List.map_filter (\<lambda>ch. case chain_latest ch of None \<Rightarrow> None | Some v \<Rightarrow> v_value v)
       (chains_in (st_records st) c)"

definition get_as_of :: "storage \<Rightarrow> collection_id \<Rightarrow> record_id \<Rightarrow> commit_ts \<Rightarrow> record_t option" where
  "get_as_of st c i read_ts =
     (case chain_get (st_records st) c i of
        None \<Rightarrow> None
      | Some ch \<Rightarrow> (case visible_at ch read_ts of None \<Rightarrow> None | Some v \<Rightarrow> v_value v))"

definition scan_as_of :: "storage \<Rightarrow> collection_id \<Rightarrow> commit_ts \<Rightarrow> record_t list" where
  "scan_as_of st c read_ts =
     List.map_filter (\<lambda>ch. case visible_at ch read_ts of None \<Rightarrow> None | Some v \<Rightarrow> v_value v)
       (chains_in (st_records st) c)"

definition latest_commit_ts :: "storage \<Rightarrow> collection_id \<Rightarrow> record_id \<Rightarrow> commit_ts option" where
  "latest_commit_ts st c i =
     (case chain_get (st_records st) c i of
        None \<Rightarrow> None
      | Some ch \<Rightarrow> map_option v_commit_ts (chain_latest ch))"

definition chain_live :: "chain \<Rightarrow> bool" where
  "chain_live ch = (case chain_latest ch of None \<Rightarrow> False | Some v \<Rightarrow> v_value v \<noteq> None)"

definition storage_count :: "storage \<Rightarrow> collection_id \<Rightarrow> nat" where
  "storage_count st c = length (filter chain_live (chains_in (st_records st) c))"

definition total_records :: "storage \<Rightarrow> nat" where
  "total_records st = sum_list (map (storage_count st) (om_keys (st_records st)))"

definition total_versions :: "record_map \<Rightarrow> nat" where
  "total_versions recs = sum_list (map length (concat (map om_values (om_values recs))))"

definition collection_count :: "storage \<Rightarrow> nat" where
  "collection_count st = length (cat_schemas (st_catalog st))"

section \<open>Writing\<close>

text \<open>The durable append shared by both commit paths: write, sync when asked to, then update the
  memory.\<close>

definition append_batch ::
  "store_codec \<Rightarrow> batch \<Rightarrow> commit_ts \<Rightarrow> storage \<Rightarrow> (error, unit, storage) result_st" where
  "append_batch c b ts st =
     (let b = b\<lparr>b_ops := map (op_set_commit_ts ts) (b_ops b)\<rparr>
      in case io_bind (fs_append_all (st_active st) (batch_encode c b))
                (\<lambda>_. if st_sync_on_commit st then fs_sync (st_active st) else io_return ()) (st_dir st) of
           (Inl e, d) \<Rightarrow> (Inl e, st\<lparr>st_dir := d\<rparr>)
         | (Inr _, d) \<Rightarrow>
             (Inr (), st\<lparr>st_dir := d, st_max_txn_id := max (st_max_txn_id st) (b_txn_id b),
                         st_last_commit_ts := ts, st_records := apply_batch b (st_records st)\<rparr>))"

definition commit_batch ::
  "store_codec \<Rightarrow> batch \<Rightarrow> storage \<Rightarrow> (error, commit_ts, storage) result_st" where
  "commit_batch c b st =
     (if b_ops b = [] then (Inr (st_last_commit_ts st), st)
      else
        (let ts = st_last_commit_ts st + 1
         in case append_batch c b ts st of
              (Inl e, st) \<Rightarrow> (Inl e, st)
            | (Inr _, st) \<Rightarrow> (Inr ts, st)))"

definition apply_committed_batch ::
  "store_codec \<Rightarrow> batch \<Rightarrow> commit_ts \<Rightarrow> storage \<Rightarrow> (error, unit, storage) result_st" where
  "apply_committed_batch c b ts st =
     (if ts \<le> st_last_commit_ts st then (Inr (), st)
      else if b_ops b = [] then (Inr (), st\<lparr>st_last_commit_ts := ts\<rparr>)
      else append_batch c b ts st)"

definition storage_put :: "store_codec \<Rightarrow> record_t \<Rightarrow> storage \<Rightarrow> (error, commit_ts, storage) result_st" where
  "storage_put c r = commit_batch c \<lparr>b_txn_id = TXN_AUTO, b_ops = [OpPut 0 r]\<rparr>"

definition storage_delete ::
  "store_codec \<Rightarrow> collection_id \<Rightarrow> record_id \<Rightarrow> storage \<Rightarrow> (error, commit_ts, storage) result_st" where
  "storage_delete c col i = commit_batch c \<lparr>b_txn_id = TXN_AUTO, b_ops = [OpDelete 0 col i]\<rparr>"

definition storage_flush :: "store_codec \<Rightarrow> storage \<Rightarrow> (error, unit, storage) result_st" where
  "storage_flush c st =
     (case io_bind (fs_sync (st_active st)) (\<lambda>_. manifest_save c (st_manifest st)) (st_dir st) of
        (r, d) \<Rightarrow> (r, st\<lparr>st_dir := d\<rparr>))"

section \<open>Schemas\<close>

definition put_schema ::
  "store_codec \<Rightarrow> collection_schema \<Rightarrow> storage \<Rightarrow> (error, unit, storage) result_st" where
  "put_schema c s st =
     (case validate_definition s of
        Inl e \<Rightarrow> (Inl e, st)
      | Inr _ \<Rightarrow>
          (let st = st\<lparr>st_catalog := catalog_put s (st_catalog st)\<rparr>
           in case catalog_save c (st_catalog st) (st_dir st) of
                (Inl e, d) \<Rightarrow> (Inl e, st\<lparr>st_dir := d\<rparr>)
              | (Inr _, d) \<Rightarrow>
                  (Inr (), st\<lparr>st_dir := d, st_records := ensure_collection (cs_name s) (st_records st)\<rparr>)))"

definition get_schema :: "storage \<Rightarrow> string \<Rightarrow> collection_schema option" where
  "get_schema st name = om_get (cat_schemas (st_catalog st)) name"

definition list_schemas :: "storage \<Rightarrow> collection_schema list" where
  "list_schemas st = om_values (cat_schemas (st_catalog st))"

definition live_ids :: "record_map \<Rightarrow> collection_id \<Rightarrow> record_id list" where
  "live_ids recs c =
     (case om_get recs c of
        None \<Rightarrow> []
      | Some m \<Rightarrow> map fst (filter (\<lambda>(i, ch). chain_live ch) m))"

definition drop_schema :: "store_codec \<Rightarrow> string \<Rightarrow> storage \<Rightarrow> (error, unit, storage) result_st" where
  "drop_schema c name st =
     (if om_get (cat_schemas (st_catalog st)) name = None then (Inl ENotFound, st)
      else
        (let ids = live_ids (st_records st) name;
             (r, st) = (if ids = [] then (Inr 0, st)
                        else commit_batch c \<lparr>b_txn_id = TXN_AUTO, b_ops = map (OpDelete 0 name) ids\<rparr> st)
         in case r of
              Inl e \<Rightarrow> (Inl e, st)
            | Inr _ \<Rightarrow>
                (let st = st\<lparr>st_records := om_remove name (st_records st),
                             st_catalog := snd (catalog_remove name (st_catalog st))\<rparr>
                 in case catalog_save c (st_catalog st) (st_dir st) of
                      (r, d) \<Rightarrow> (r, st\<lparr>st_dir := d\<rparr>))))"

section \<open>Compaction and garbage collection\<close>

definition storage_compact :: "store_codec \<Rightarrow> storage \<Rightarrow> (error, compaction_report, storage) result_st" where
  "storage_compact c st =
     (let before_segments = length (mf_segments (st_manifest st));
          live_records = total_records st
      in case rewrite_segment c st of
           (Inl e, st) \<Rightarrow> (Inl e, st)
         | (Inr _, st) \<Rightarrow>
             (Inr \<lparr>cr_segments_before = before_segments, cr_segments_after = 1,
                   cr_live_records = live_records\<rparr>, st))"

definition chain_dead :: "commit_ts \<Rightarrow> chain \<Rightarrow> bool" where
  "chain_dead cutoff ch =
     (case chain_latest ch of
        None \<Rightarrow> False
      | Some v \<Rightarrow> v_value v = None \<and> v_commit_ts v \<le> cutoff)"

text \<open>\<open>rposition\<close>: the index of the last version at or before the cutoff.\<close>

definition chain_floor :: "commit_ts \<Rightarrow> chain \<Rightarrow> nat option" where
  "chain_floor cutoff ch =
     (let n = length (takeWhile (\<lambda>v. \<not> v_commit_ts v \<le> cutoff) (rev ch))
      in if n = length ch then None else Some (length ch - 1 - n))"

definition removable :: "commit_ts \<Rightarrow> nat \<Rightarrow> chain \<Rightarrow> nat" where
  "removable cutoff keep ch =
     (case chain_floor cutoff ch of None \<Rightarrow> 0 | Some f \<Rightarrow> min f (length ch - keep))"

text \<open>\<open>retain\<close> over the chains of one collection, with the two counters of the closure.\<close>

fun gc_chains ::
  "commit_ts \<Rightarrow> nat \<Rightarrow> (record_id, chain) omap \<Rightarrow> nat \<Rightarrow> nat \<Rightarrow>
   (record_id, chain) omap \<times> nat \<times> nat" where
  "gc_chains cutoff keep [] reclaimed removed = ([], reclaimed, removed)"
| "gc_chains cutoff keep ((i, ch) # m) reclaimed removed =
     (if chain_dead cutoff ch
      then gc_chains cutoff keep m (reclaimed + length ch) (removed + 1)
      else
        (let n = removable cutoff keep ch;
             (m', counts) = gc_chains cutoff keep m (reclaimed + n) removed
         in ((i, drop n ch) # m', counts)))"

fun gc_records ::
  "commit_ts \<Rightarrow> nat \<Rightarrow> record_map \<Rightarrow> nat \<Rightarrow> nat \<Rightarrow> record_map \<times> nat \<times> nat" where
  "gc_records cutoff keep [] reclaimed removed = ([], reclaimed, removed)"
| "gc_records cutoff keep ((c, m) # recs) reclaimed removed =
     (let (m', reclaimed, removed) = gc_chains cutoff keep m reclaimed removed;
          (recs', counts) = gc_records cutoff keep recs reclaimed removed
      in ((c, m') # recs', counts))"

text \<open>The body of the double loop of \<open>gc_preview\<close>.\<close>

definition preview_chain :: "commit_ts \<Rightarrow> nat \<Rightarrow> chain \<Rightarrow> nat \<times> nat \<Rightarrow> nat \<times> nat" where
  "preview_chain cutoff keep ch counts =
     (case counts of (reclaimed, removed) \<Rightarrow>
        if chain_dead cutoff ch then (reclaimed + length ch, removed + 1)
        else (reclaimed + removable cutoff keep ch, removed))"

fun segment_bytes :: "segment_ref list \<Rightarrow> nat io" where
  "segment_bytes [] = io_return 0"
| "segment_bytes (s # ss) =
     io_bind (fs_len (segment_file_name s)) (\<lambda>n.
     io_bind (segment_bytes ss) (\<lambda>rest. io_return ((case n of None \<Rightarrow> 0 | Some k \<Rightarrow> k) + rest)))"

definition storage_gc ::
  "store_codec \<Rightarrow> commit_ts \<Rightarrow> nat \<Rightarrow> storage \<Rightarrow> (error, gc_report, storage) result_st" where
  "storage_gc c cutoff min_retained st =
     (let keep = max min_retained 1 in
      case segment_bytes (mf_segments (st_manifest st)) (st_dir st) of
        (Inl e, d) \<Rightarrow> (Inl e, st\<lparr>st_dir := d\<rparr>)
      | (Inr bytes_before, d) \<Rightarrow>
          (let (recs, reclaimed, removed) = gc_records cutoff keep (st_records st) 0 0;
               st = st\<lparr>st_dir := d, st_records := recs\<rparr>
           in case rewrite_segment c st of
                (Inl e, st) \<Rightarrow> (Inl e, st)
              | (Inr _, st) \<Rightarrow>
                  (case segment_bytes (mf_segments (st_manifest st)) (st_dir st) of
                     (Inl e, d) \<Rightarrow> (Inl e, st\<lparr>st_dir := d\<rparr>)
                   | (Inr bytes_after, d) \<Rightarrow>
                       (Inr \<lparr>gr_versions_reclaimed = reclaimed, gr_records_removed = removed,
                             gr_versions_after = total_versions (st_records st),
                             gr_bytes_reclaimed = bytes_before - bytes_after\<rparr>,
                        st\<lparr>st_dir := d\<rparr>))))"

definition gc_preview :: "storage \<Rightarrow> commit_ts \<Rightarrow> nat \<Rightarrow> gc_report" where
  "gc_preview st cutoff min_retained =
     (let keep = max min_retained 1;
          (reclaimed, removed) =
            fold (\<lambda>(c, m). fold (\<lambda>(i, ch). preview_chain cutoff keep ch) m) (st_records st) (0, 0)
      in \<lparr>gr_versions_reclaimed = reclaimed, gr_records_removed = removed,
          gr_versions_after = total_versions (st_records st) - reclaimed,
          gr_bytes_reclaimed = 0\<rparr>)"

end
