(* ===== verification/Store_Mvcc.thy ===== *)
theory Store_Mvcc
  imports Store
begin

text \<open>
  The in-memory side of the storage engine.  A version chain is ascending; inserting a version
  later than all others appends it; a reader at a timestamp sees the last version at or before
  it.  \<open>chain_of\<close> abstracts the nested maps to the chain of a key, every read is a function of
  it, and the operations are described by what they do to it: applying a batch, collecting
  garbage, and replaying a rewritten segment.
\<close>

section \<open>Chains\<close>

definition chain_sorted :: "chain \<Rightarrow> bool" where
  "chain_sorted ch \<longleftrightarrow> sorted_wrt (<) (map v_commit_ts ch)"

lemma chain_sorted_simps [simp]:
  "chain_sorted []" "chain_sorted (v # ch) \<longleftrightarrow> (\<forall>w \<in> set ch. v_commit_ts v < v_commit_ts w) \<and> chain_sorted ch"
  "chain_sorted (ch @ ch') \<longleftrightarrow> chain_sorted ch \<and> chain_sorted ch' \<and>
     (\<forall>v \<in> set ch. \<forall>w \<in> set ch'. v_commit_ts v < v_commit_ts w)"
  by (auto simp: chain_sorted_def sorted_wrt_append sorted_wrt_map)

lemma insert_version_set: "set (insert_version ch v) \<subseteq> insert v (set ch)"
  by (induction ch v rule: insert_version.induct) auto

lemma insert_version_sorted: "chain_sorted ch \<Longrightarrow> chain_sorted (insert_version ch v)"
proof (induction ch v rule: insert_version.induct)
  case (2 w ch v)
  then show ?case using insert_version_set[of ch v] by fastforce
qed simp

lemma insert_version_last: "\<forall>w \<in> set ch. v_commit_ts w < v_commit_ts v \<Longrightarrow> insert_version ch v = ch @ [v]"
  by (induction ch v rule: insert_version.induct) auto

lemma insert_version_replace:
  "\<forall>w \<in> set ch. v_commit_ts w < v_commit_ts v \<Longrightarrow> v_commit_ts u = v_commit_ts v \<Longrightarrow>
   insert_version (ch @ [u]) v = ch @ [v]"
  by (induction ch v rule: insert_version.induct) auto

lemma foldl_insert_sorted: "chain_sorted (acc @ ch) \<Longrightarrow> foldl insert_version acc ch = acc @ ch"
proof (induction ch arbitrary: acc)
  case (Cons v ch)
  then have "insert_version acc v = acc @ [v]" by (intro insert_version_last) auto
  then show ?case using Cons.IH[of "acc @ [v]"] Cons.prems by simp
qed simp

lemma foldl_insert_same_ts:
  assumes "\<forall>w \<in> set ch. v_commit_ts w < ts" "\<forall>v \<in> set vs. v_commit_ts v = ts"
  shows "foldl insert_version ch vs = (if vs = [] then ch else ch @ [last vs])"
  using assms(2)
proof (induction vs rule: rev_induct)
  case (snoc v vs)
  then have IH: "foldl insert_version ch vs = (if vs = [] then ch else ch @ [last vs])" by simp
  have "insert_version ch v = ch @ [v]" using assms(1) snoc.prems by (intro insert_version_last) auto
  moreover have "insert_version (ch @ [last vs]) v = ch @ [v]" if "vs \<noteq> []"
    using assms(1) snoc.prems that by (intro insert_version_replace) auto
  ultimately show ?case using IH by simp
qed simp

lemma visible_at_snoc: "visible_at (ch @ [v]) t = (if v_commit_ts v \<le> t then Some v else visible_at ch t)"
  by (simp add: visible_at_def)

lemma visible_at_append: "visible_at (ch @ ch') t = (case visible_at ch' t of Some v \<Rightarrow> Some v | None \<Rightarrow> visible_at ch t)"
proof (induction ch' rule: rev_induct)
  case Nil
  then show ?case by (simp add: visible_at_def)
next
  case (snoc v ch')
  then show ?case using visible_at_snoc[of "ch @ ch'" v t] visible_at_snoc[of ch' v t] by simp
qed

lemma visible_at_latest:
  assumes "\<forall>v \<in> set ch. v_commit_ts v \<le> t"
  shows "visible_at ch t = chain_latest ch"
proof (cases ch rule: rev_cases)
  case Nil
  then show ?thesis by (simp add: visible_at_def chain_latest_def)
next
  case (snoc ys y)
  then show ?thesis using assms by (simp add: visible_at_snoc chain_latest_def)
qed

section \<open>The record map as a history\<close>

text \<open>The versions of a key, and the record a reader at a timestamp sees.\<close>

definition chain_of :: "record_map \<Rightarrow> collection_id \<Rightarrow> record_id \<Rightarrow> chain" where
  "chain_of recs c i = (case chain_get recs c i of None \<Rightarrow> [] | Some ch \<Rightarrow> ch)"

definition op_key :: "log_op \<Rightarrow> collection_id \<times> record_id" where
  "op_key op = (case op of OpPut _ r \<Rightarrow> (rec_collection r, rec_id r) | OpDelete _ c i \<Rightarrow> (c, i))"

definition op_value :: "log_op \<Rightarrow> record_t option" where
  "op_value op = (case op of OpPut _ r \<Rightarrow> Some r | OpDelete _ _ _ \<Rightarrow> None)"

definition op_version :: "log_op \<Rightarrow> version_t" where
  "op_version op = \<lparr>v_commit_ts = op_commit_ts op, v_value = op_value op\<rparr>"

lemma op_set_simps [simp]:
  "op_key (op_set_commit_ts ts op) = op_key op" "op_value (op_set_commit_ts ts op) = op_value op"
  "op_commit_ts (op_set_commit_ts ts op) = ts"
  by (cases op; simp add: op_set_commit_ts_def op_key_def op_value_def op_commit_ts_def)+

lemma op_version_simps [simp]:
  "v_commit_ts (op_version op) = op_commit_ts op" "v_value (op_version op) = op_value op"
  by (simp_all add: op_version_def)

definition rec_view :: "record_map \<Rightarrow> collection_id \<Rightarrow> record_id \<Rightarrow> commit_ts \<Rightarrow> record_t option" where
  "rec_view recs c i t = (case visible_at (chain_of recs c i) t of None \<Rightarrow> None | Some v \<Rightarrow> v_value v)"

lemma get_as_of_view: "get_as_of st c i t = rec_view (st_records st) c i t"
  by (simp add: get_as_of_def rec_view_def chain_of_def visible_at_def split: option.splits)

lemma chain_of_apply_op:
  "chain_of (apply_op op recs) c i =
     (if op_key op = (c, i) then insert_version (chain_of recs c i) (op_version op) else chain_of recs c i)"
  by (auto simp: apply_op_def chain_of_def chain_get_def op_key_def op_version_def op_commit_ts_def op_value_def
      split: log_op.splits option.splits)

lemma chain_of_fold_ops:
  "chain_of (fold apply_op ops recs) c i =
     foldl insert_version (chain_of recs c i) (map op_version (filter (\<lambda>op. op_key op = (c, i)) ops))"
  by (induction ops arbitrary: recs) (auto simp: chain_of_apply_op)

text \<open>The last write of a batch to a key.\<close>

definition last_write :: "log_op list \<Rightarrow> collection_id \<times> record_id \<Rightarrow> record_t option option" where
  "last_write ops k =
     (let w = filter (\<lambda>op. op_key op = k) ops in if w = [] then None else Some (op_value (last w)))"

lemma chain_of_apply_batch:
  assumes "\<forall>v \<in> set (chain_of recs c i). v_commit_ts v < ts" "\<forall>op \<in> set ops. op_commit_ts op = ts"
  shows "chain_of (fold apply_op ops recs) c i =
    (case last_write ops (c, i) of None \<Rightarrow> chain_of recs c i
     | Some w \<Rightarrow> chain_of recs c i @ [\<lparr>v_commit_ts = ts, v_value = w\<rparr>])"
proof -
  let ?w = "filter (\<lambda>op. op_key op = (c, i)) ops"
  have "foldl insert_version (chain_of recs c i) (map op_version ?w) =
      (if map op_version ?w = [] then chain_of recs c i else chain_of recs c i @ [last (map op_version ?w)])"
    by (rule foldl_insert_same_ts) (use assms in auto)
  moreover have "op_commit_ts (last ?w) = ts" if "?w \<noteq> []"
    using last_in_set[OF that] assms(2) by simp
  ultimately show ?thesis
    by (simp add: chain_of_fold_ops last_write_def Let_def last_map op_version_def)
qed

section \<open>Well-formed record maps\<close>

definition rec_wf :: "record_map \<Rightarrow> commit_ts \<Rightarrow> bool" where
  "rec_wf recs ts \<longleftrightarrow>
     om_wf recs \<and> (\<forall>c m. om_get recs c = Some m \<longrightarrow> om_wf m) \<and>
     (\<forall>c i. chain_sorted (chain_of recs c i) \<and>
        (\<forall>v \<in> set (chain_of recs c i). v_commit_ts v \<le> ts \<and>
           (\<forall>r. v_value v = Some r \<longrightarrow> rec_collection r = c \<and> rec_id r = i)))"

lemma rec_wfD:
  assumes "rec_wf recs ts"
  shows "om_wf recs" "om_get recs c = Some m \<Longrightarrow> om_wf m" "chain_sorted (chain_of recs c i)"
    "v \<in> set (chain_of recs c i) \<Longrightarrow> v_commit_ts v \<le> ts"
    "v \<in> set (chain_of recs c i) \<Longrightarrow> v_value v = Some r \<Longrightarrow> rec_collection r = c \<and> rec_id r = i"
  using assms by (auto simp: rec_wf_def)

lemma rec_wf_Nil [simp]: "rec_wf [] ts"
  by (simp add: rec_wf_def chain_of_def chain_get_def)

lemma rec_wf_mono:
  assumes "rec_wf recs ts" "ts \<le> ts'"
  shows "rec_wf recs ts'"
proof -
  have "v_commit_ts v \<le> ts'" if "v \<in> set (chain_of recs c i)" for c i v
    using rec_wfD(4)[OF assms(1) that] assms(2) by simp
  then show ?thesis using assms(1) by (simp add: rec_wf_def)
qed

lemma om_wf_apply_op:
  assumes "om_wf recs" "\<forall>c m. om_get recs c = Some m \<longrightarrow> om_wf m"
  shows "om_wf (apply_op op recs)" "om_get (apply_op op recs) c = Some m \<Longrightarrow> om_wf m"
  using assms by (auto simp: apply_op_def split: log_op.splits if_splits option.splits)

lemma chain_of_apply_op_set:
  "v \<in> set (chain_of (apply_op op recs) c i) \<Longrightarrow>
   v \<in> set (chain_of recs c i) \<or> (op_key op = (c, i) \<and> v = op_version op)"
  using insert_version_set[of "chain_of recs c i" "op_version op"] by (auto simp: chain_of_apply_op split: if_splits)

lemma op_value_key: "op_value op = Some r \<Longrightarrow> op_key op = (rec_collection r, rec_id r)"
  by (cases op) (simp_all add: op_value_def op_key_def)

lemma rec_wf_apply_op:
  assumes "rec_wf recs ts"
  shows "rec_wf (apply_op op recs) (max ts (op_commit_ts op))"
proof -
  have 1: "om_wf (apply_op op recs)" by (rule om_wf_apply_op(1)) (use rec_wfD(1,2)[OF assms] in auto)
  have 2: "om_wf m" if "om_get (apply_op op recs) c = Some m" for c m
    by (rule om_wf_apply_op(2)[OF _ _ that]) (use rec_wfD(1,2)[OF assms] in auto)
  have 3: "chain_sorted (chain_of (apply_op op recs) c i)" for c i
    using rec_wfD(3)[OF assms, of c i] by (simp add: chain_of_apply_op insert_version_sorted)
  have 4: "v_commit_ts v \<le> max ts (op_commit_ts op)" if "v \<in> set (chain_of (apply_op op recs) c i)" for v c i
    using chain_of_apply_op_set[OF that] rec_wfD(4)[OF assms, of v c i] by auto
  have 5: "rec_collection r = c \<and> rec_id r = i"
    if "v \<in> set (chain_of (apply_op op recs) c i)" "v_value v = Some r" for v c i r
    using chain_of_apply_op_set[OF that(1)]
  proof
    assume "v \<in> set (chain_of recs c i)"
    then show ?thesis using rec_wfD(5)[OF assms _ that(2)] by simp
  next
    assume "op_key op = (c, i) \<and> v = op_version op"
    then show ?thesis using op_value_key[of op r] that(2) by simp
  qed
  show ?thesis unfolding rec_wf_def using 1 2 3 4 5 by simp
qed

lemma rec_wf_fold_ops:
  "rec_wf recs ts \<Longrightarrow> \<forall>op \<in> set ops. op_commit_ts op \<le> ts \<Longrightarrow> rec_wf (fold apply_op ops recs) ts"
proof (induction ops arbitrary: recs)
  case (Cons op ops)
  then have "rec_wf (apply_op op recs) ts" using rec_wf_apply_op[of recs ts op] by (simp add: max_absorb1)
  then show ?case using Cons by simp
qed simp


section \<open>Scans\<close>

lemma om_wf_lookup: "om_wf m \<Longrightarrow> (k, v) \<in> set m \<longleftrightarrow> om_get m k = Some v"
  by (induction m) force+

lemma map_filter_set: "y \<in> set (List.map_filter f xs) \<longleftrightarrow> (\<exists>x \<in> set xs. f x = Some y)"
  by (induction xs) (auto simp: map_filter_simps split: option.splits)

lemma chains_in_lookup:
  "om_get recs c = Some m \<Longrightarrow> chains_in recs c = om_values m" "om_get recs c = None \<Longrightarrow> chains_in recs c = []"
  by (simp_all add: chains_in_def)

definition live_in :: "(chain \<Rightarrow> record_t option) \<Rightarrow> record_map \<Rightarrow> collection_id \<Rightarrow> record_t list" where
  "live_in f recs c = List.map_filter f (chains_in recs c)"

lemma live_in_sorted:
  assumes "rec_wf recs ts" and f: "\<And>ch r. f ch = Some r \<Longrightarrow> \<exists>v \<in> set ch. v_value v = Some r"
  shows "sorted_wrt (<) (map rec_id (live_in f recs c))"
proof (cases "om_get recs c")
  case None
  then show ?thesis by (simp add: live_in_def chains_in_def map_filter_def)
next
  case (Some m)
  have id: "rec_id r = i" if "(i, ch) \<in> set m" "f ch = Some r" for i ch r
  proof -
    have "chain_of recs c i = ch"
      using that(1) om_wf_lookup[OF rec_wfD(2)[OF assms(1) Some]] Some by (simp add: chain_of_def chain_get_def)
    then show ?thesis using f[OF that(2)] rec_wfD(5)[OF assms(1)] by metis
  qed
  have "sorted_wrt (<) (map rec_id (List.map_filter f (om_values m)))" if "om_wf m"
    using that id
  proof (induction m)
    case (Cons p m)
    obtain i ch where p: "p = (i, ch)" by (cases p)
    have IH: "sorted_wrt (<) (map rec_id (List.map_filter f (om_values m)))"
    proof (rule Cons.IH)
      show "om_wf m" using Cons.prems(1) p by simp
      show "rec_id r = j" if "(j, ch') \<in> set m" "f ch' = Some r" for j ch' r
        by (rule Cons.prems(2)[OF _ that(2)]) (use that(1) in simp)
    qed
    show ?case
    proof (cases "f ch")
      case (Some r)
      have "rec_id r < rec_id r'" if r': "r' \<in> set (List.map_filter f (om_values m))" for r'
      proof -
        obtain j ch' where j: "(j, ch') \<in> set m" "f ch' = Some r'"
          using r' by (auto simp: map_filter_set om_values_def)
        have "i < j" using Cons.prems(1) p j(1) by force
        moreover have "rec_id r = i" by (rule Cons.prems(2)[OF _ Some]) (simp add: p)
        moreover have "rec_id r' = j" by (rule Cons.prems(2)[OF _ j(2)]) (simp add: j(1))
        ultimately show ?thesis by simp
      qed
      then show ?thesis using IH p Some by (simp add: om_values_def map_filter_simps)
    qed (use IH p in \<open>simp add: om_values_def map_filter_simps\<close>)
  qed (simp add: om_values_def map_filter_simps)
  then show ?thesis using Some rec_wfD(2)[OF assms(1) Some] by (simp add: live_in_def chains_in_def)
qed

lemma live_in_set:
  assumes "rec_wf recs ts" "f [] = None"
  shows "r \<in> set (live_in f recs c) \<longleftrightarrow> (\<exists>i. f (chain_of recs c i) = Some r)"
proof (cases "om_get recs c")
  case None
  then show ?thesis using assms(2) by (simp add: live_in_def chains_in_def map_filter_def chain_of_def chain_get_def)
next
  case (Some m)
  have g: "chain_of recs c i = (case om_get m i of None \<Rightarrow> [] | Some ch \<Rightarrow> ch)" for i
    using Some by (simp add: chain_of_def chain_get_def)
  have "(\<exists>i ch. om_get m i = Some ch \<and> f ch = Some r) \<longleftrightarrow> (\<exists>i. f (chain_of recs c i) = Some r)"
  proof
    assume "\<exists>i ch. om_get m i = Some ch \<and> f ch = Some r"
    then obtain i ch where "om_get m i = Some ch" "f ch = Some r" by blast
    then show "\<exists>i. f (chain_of recs c i) = Some r" using g[of i] by (intro exI[of _ i]) simp
  next
    assume "\<exists>i. f (chain_of recs c i) = Some r"
    then obtain i where i: "f (chain_of recs c i) = Some r" by blast
    then obtain ch where "om_get m i = Some ch" using g[of i] assms(2) by (cases "om_get m i") auto
    then show "\<exists>i ch. om_get m i = Some ch \<and> f ch = Some r" using i g[of i] by auto
  qed
  moreover have "r \<in> set (live_in f recs c) \<longleftrightarrow> (\<exists>i ch. om_get m i = Some ch \<and> f ch = Some r)"
    using Some by (force simp: live_in_def chains_in_def map_filter_set om_values_def
        om_wf_lookup[OF rec_wfD(2)[OF assms(1) Some], symmetric])
  ultimately show ?thesis by simp
qed

text \<open>A scan is determined by the chains.\<close>

lemma live_in_cong2:
  assumes "rec_wf recs ts" "rec_wf recs' ts'" "f [] = None" "g [] = None"
    and f: "\<And>ch r. f ch = Some r \<Longrightarrow> \<exists>v \<in> set ch. v_value v = Some r"
    and g: "\<And>ch r. g ch = Some r \<Longrightarrow> \<exists>v \<in> set ch. v_value v = Some r"
    and eq: "\<And>i. f (chain_of recs c i) = g (chain_of recs' c i)"
  shows "live_in f recs c = live_in g recs' c"
proof -
  let ?a = "live_in f recs c" and ?b = "live_in g recs' c"
  note s = live_in_sorted[OF assms(1) f] live_in_sorted[OF assms(2) g]
  have set: "set ?a = set ?b"
    by (rule set_eqI) (simp add: live_in_set[of recs ts f, OF assms(1,3)] live_in_set[of recs' ts' g, OF assms(2,4)] eq)
  have inj: "inj_on rec_id (set ?a \<union> set ?b)"
    using s(1) by (simp add: set[symmetric] strict_sorted_iff distinct_map)
  have "map rec_id ?a = map rec_id ?b"
    by (rule sorted_distinct_set_unique) (use s set in \<open>auto simp: strict_sorted_iff\<close>)
  then show ?thesis using inj by (rule map_inj_on)
qed

lemmas live_in_cong = live_in_cong2[where g = f and f = f for f]

definition visible_value :: "commit_ts \<Rightarrow> chain \<Rightarrow> record_t option" where
  "visible_value t ch = (case visible_at ch t of None \<Rightarrow> None | Some v \<Rightarrow> v_value v)"

definition latest_value :: "chain \<Rightarrow> record_t option" where
  "latest_value ch = (case chain_latest ch of None \<Rightarrow> None | Some v \<Rightarrow> v_value v)"

lemma visible_value_simps:
  "visible_value t [] = None" "latest_value [] = None"
  "visible_value t ch = Some r \<Longrightarrow> \<exists>v \<in> set ch. v_value v = Some r"
  "latest_value ch = Some r \<Longrightarrow> \<exists>v \<in> set ch. v_value v = Some r"
proof -
  show "visible_value t [] = None" "latest_value [] = None"
    by (simp_all add: visible_value_def latest_value_def visible_at_def chain_latest_def)
  show "visible_value t ch = Some r \<Longrightarrow> \<exists>v \<in> set ch. v_value v = Some r"
  proof -
    assume "visible_value t ch = Some r"
    then obtain v where v: "List.find (\<lambda>v. v_commit_ts v \<le> t) (rev ch) = Some v" "v_value v = Some r"
      by (auto simp: visible_value_def visible_at_def split: option.splits)
    then have "v \<in> set (rev ch)" by (metis find_Some_iff nth_mem)
    then show ?thesis using v(2) by auto
  qed
  show "latest_value ch = Some r \<Longrightarrow> \<exists>v \<in> set ch. v_value v = Some r"
    by (auto simp: latest_value_def chain_latest_def split: if_splits)
qed

lemma scans_live_in:
  "scan_as_of st c t = live_in (visible_value t) (st_records st) c"
  "storage_scan st c = live_in latest_value (st_records st) c"
  by (simp_all add: scan_as_of_def storage_scan_def live_in_def visible_value_def[abs_def] latest_value_def[abs_def])

lemma gets_chain_of:
  "get_as_of st c i t = visible_value t (chain_of (st_records st) c i)"
  "storage_get st c i = latest_value (chain_of (st_records st) c i)"
  by (simp_all add: get_as_of_def storage_get_def visible_value_def latest_value_def chain_of_def visible_at_def
      chain_latest_def split: option.splits)


section \<open>Garbage collection of one chain\<close>

lemma visible_at_None: "visible_at ch t = None \<longleftrightarrow> (\<forall>v \<in> set ch. t < v_commit_ts v)"
  by (auto simp: visible_at_def find_None_iff not_le)

lemma chain_floor_Some:
  assumes "chain_floor cutoff ch = Some f"
  shows "f < length ch" "v_commit_ts (ch ! f) \<le> cutoff"
proof -
  let ?n = "length (takeWhile (\<lambda>v. \<not> v_commit_ts v \<le> cutoff) (rev ch))"
  have n: "?n \<noteq> length ch" "f = length ch - 1 - ?n"
    using assms by (auto simp: chain_floor_def Let_def split: if_splits)
  have "?n \<le> length ch" using length_takeWhile_le[of "\<lambda>v. \<not> v_commit_ts v \<le> cutoff" "rev ch"] by simp
  then have lt: "?n < length ch" using n(1) by simp
  then show "f < length ch" using n(2) by simp
  have "v_commit_ts (rev ch ! ?n) \<le> cutoff"
    using nth_length_takeWhile[of "\<lambda>v. \<not> v_commit_ts v \<le> cutoff" "rev ch"] lt by simp
  then show "v_commit_ts (ch ! f) \<le> cutoff" using rev_nth[OF lt] n(2) lt by simp
qed

lemma removable_less: "ch \<noteq> [] \<Longrightarrow> removable cutoff keep ch < length ch"
  using chain_floor_Some(1)[of cutoff ch] by (auto simp: removable_def split: option.splits)

definition gc_chain :: "commit_ts \<Rightarrow> nat \<Rightarrow> chain \<Rightarrow> chain" where
  "gc_chain cutoff keep ch = (if chain_dead cutoff ch then [] else drop (removable cutoff keep ch) ch)"

lemma visible_at_drop:
  assumes "cutoff \<le> t"
  shows "visible_at (drop (removable cutoff keep ch) ch) t = visible_at ch t"
proof (cases "chain_floor cutoff ch")
  case None
  then show ?thesis by (simp add: removable_def)
next
  case (Some f)
  let ?n = "removable cutoff keep ch"
  have n: "?n \<le> f" using Some by (simp add: removable_def)
  note f = chain_floor_Some[OF Some]
  have "ch ! f \<in> set (drop ?n ch)"
    using f(1) n by (auto simp: in_set_conv_nth intro!: exI[of _ "f - ?n"])
  then have "visible_at (drop ?n ch) t \<noteq> None"
    unfolding visible_at_None using f(2) assms by (meson le_trans not_le)
  then show ?thesis using visible_at_append[of "take ?n ch" "drop ?n ch" t] by auto
qed

lemma gc_chain_visible:
  assumes "chain_sorted ch" "cutoff \<le> t"
  shows "visible_value t (gc_chain cutoff keep ch) = visible_value t ch"
proof (cases "chain_dead cutoff ch")
  case True
  then obtain us v where ch: "ch = us @ [v]" and v: "v_value v = None" "v_commit_ts v \<le> cutoff"
    by (cases ch rule: rev_cases) (auto simp: chain_dead_def chain_latest_def)
  then show ?thesis using True assms(2)
    by (simp add: gc_chain_def visible_value_def visible_at_snoc visible_value_simps(1)[unfolded visible_value_def])
next
  case False
  then show ?thesis using visible_at_drop[OF assms(2), of keep ch] by (simp add: gc_chain_def visible_value_def)
qed

lemma gc_chain_latest: "latest_value (gc_chain cutoff keep ch) = latest_value ch"
proof (cases "ch = []")
  case False
  have "last (drop (removable cutoff keep ch) ch) = last ch"
    using removable_less[OF False, of cutoff keep] by simp
  then show ?thesis
    using False removable_less[OF False, of cutoff keep]
    by (auto simp: gc_chain_def latest_value_def chain_latest_def chain_dead_def)
qed (simp add: gc_chain_def latest_value_def chain_latest_def chain_dead_def)

lemma gc_chain_subset: "set (gc_chain cutoff keep ch) \<subseteq> set ch"
  by (auto simp: gc_chain_def dest: in_set_dropD)

lemma chain_sorted_gc: "chain_sorted ch \<Longrightarrow> chain_sorted (gc_chain cutoff keep ch)"
  by (simp add: gc_chain_def chain_sorted_def drop_map[symmetric] sorted_wrt_drop)

section \<open>Garbage collection of the map\<close>

text \<open>The loops without their counters.\<close>

definition gc_map :: "commit_ts \<Rightarrow> nat \<Rightarrow> (record_id, chain) omap \<Rightarrow> (record_id, chain) omap" where
  "gc_map cutoff keep m =
     map (\<lambda>(i, ch). (i, gc_chain cutoff keep ch)) (filter (\<lambda>(i, ch). \<not> chain_dead cutoff ch) m)"

definition gc_all :: "commit_ts \<Rightarrow> nat \<Rightarrow> record_map \<Rightarrow> record_map" where
  "gc_all cutoff keep recs = map (\<lambda>(c, m). (c, gc_map cutoff keep m)) recs"

definition versions_in :: "(record_id, chain) omap \<Rightarrow> nat" where
  "versions_in m = sum_list (map length (om_values m))"

lemma versions_in_simps [simp]: "versions_in [] = 0" "versions_in ((i, ch) # m) = length ch + versions_in m"
  by (simp_all add: versions_in_def om_values_def)

lemma total_versions_simps [simp]:
  "total_versions [] = 0" "total_versions ((c, m) # recs) = versions_in m + total_versions recs"
  by (simp_all add: total_versions_def om_values_def versions_in_def)

lemma gc_map_simps [simp]:
  "gc_map cutoff keep [] = []"
  "gc_map cutoff keep ((i, ch) # m) =
     (if chain_dead cutoff ch then gc_map cutoff keep m
      else (i, drop (removable cutoff keep ch) ch) # gc_map cutoff keep m)"
  by (simp_all add: gc_map_def gc_chain_def)

lemma gc_all_simps [simp]:
  "gc_all cutoff keep [] = []" "gc_all cutoff keep ((c, m) # recs) = (c, gc_map cutoff keep m) # gc_all cutoff keep recs"
  by (simp_all add: gc_all_def)

lemma preview_chain_simps [simp]:
  "preview_chain cutoff keep ch (x, y) =
     (if chain_dead cutoff ch then (x + length ch, Suc y) else (x + removable cutoff keep ch, y))"
  by (simp add: preview_chain_def)

lemma removable_le: "removable cutoff keep ch \<le> length ch"
  by (auto simp: removable_def split: option.splits)

lemma gc_chains_eq:
  "\<exists>n. gc_chains cutoff keep m a b =
     (gc_map cutoff keep m, a + (versions_in m - versions_in (gc_map cutoff keep m)), b + n) \<and>
   versions_in (gc_map cutoff keep m) \<le> versions_in m \<and>
   (\<forall>x y. fold (\<lambda>(i, ch). preview_chain cutoff keep ch) m (x, y) =
      (x + (versions_in m - versions_in (gc_map cutoff keep m)), y + n))"
proof (induction m arbitrary: a b)
  case (Cons p m)
  obtain i ch where p: "p = (i, ch)" by (cases p)
  show ?case
  proof (cases "chain_dead cutoff ch")
    case True
    obtain n where n: "gc_chains cutoff keep m (a + length ch) (b + 1) =
       (gc_map cutoff keep m, a + length ch + (versions_in m - versions_in (gc_map cutoff keep m)), b + 1 + n)"
      "versions_in (gc_map cutoff keep m) \<le> versions_in m"
      "\<forall>x y. fold (\<lambda>(i, ch). preview_chain cutoff keep ch) m (x, y) =
         (x + (versions_in m - versions_in (gc_map cutoff keep m)), y + n)"
      using Cons[of "a + length ch" "b + 1"] by blast
    show ?thesis
      by (rule exI[of _ "n + 1"]) (use n p True in \<open>simp add: add.assoc\<close>)
  next
    case False
    let ?k = "removable cutoff keep ch"
    obtain n where n: "gc_chains cutoff keep m (a + ?k) b =
       (gc_map cutoff keep m, a + ?k + (versions_in m - versions_in (gc_map cutoff keep m)), b + n)"
      "versions_in (gc_map cutoff keep m) \<le> versions_in m"
      "\<forall>x y. fold (\<lambda>(i, ch). preview_chain cutoff keep ch) m (x, y) =
         (x + (versions_in m - versions_in (gc_map cutoff keep m)), y + n)"
      using Cons[of "a + ?k" b] by blast
    show ?thesis
      by (rule exI[of _ n])
        (use n p False removable_le[of cutoff keep ch] in \<open>auto simp: Let_def\<close>)
  qed
qed simp

lemma gc_records_eq:
  "\<exists>n. gc_records cutoff keep recs a b =
     (gc_all cutoff keep recs, a + (total_versions recs - total_versions (gc_all cutoff keep recs)), b + n) \<and>
   total_versions (gc_all cutoff keep recs) \<le> total_versions recs \<and>
   (\<forall>x y. fold (\<lambda>(c, m). fold (\<lambda>(i, ch). preview_chain cutoff keep ch) m) recs (x, y) =
      (x + (total_versions recs - total_versions (gc_all cutoff keep recs)), y + n))"
proof (induction recs arbitrary: a b)
  case (Cons p recs)
  obtain c m where p: "p = (c, m)" by (cases p)
  obtain k where k: "gc_chains cutoff keep m a b =
     (gc_map cutoff keep m, a + (versions_in m - versions_in (gc_map cutoff keep m)), b + k)"
    "versions_in (gc_map cutoff keep m) \<le> versions_in m"
    "\<forall>x y. fold (\<lambda>(i, ch). preview_chain cutoff keep ch) m (x, y) =
      (x + (versions_in m - versions_in (gc_map cutoff keep m)), y + k)"
    using gc_chains_eq by blast
  let ?a = "a + (versions_in m - versions_in (gc_map cutoff keep m))"
  obtain n where n: "gc_records cutoff keep recs ?a (b + k) =
     (gc_all cutoff keep recs, ?a + (total_versions recs - total_versions (gc_all cutoff keep recs)), b + k + n)"
    "total_versions (gc_all cutoff keep recs) \<le> total_versions recs"
    "\<forall>x y. fold (\<lambda>(c, m). fold (\<lambda>(i, ch). preview_chain cutoff keep ch) m) recs (x, y) =
      (x + (total_versions recs - total_versions (gc_all cutoff keep recs)), y + n)"
    using Cons[of ?a "b + k"] by blast
  show ?case
    by (rule exI[of _ "k + n"]) (use k n p in \<open>simp add: Let_def ac_simps\<close>)
qed simp

lemma gc_map_wf: "om_wf m \<Longrightarrow> om_wf (gc_map cutoff keep m)"
  by (induction m) (auto simp: gc_map_def image_iff, force)

lemma gc_map_get:
  "om_wf m \<Longrightarrow> om_get (gc_map cutoff keep m) j =
     (case om_get m j of None \<Rightarrow> None | Some ch \<Rightarrow> if chain_dead cutoff ch then None else Some (gc_chain cutoff keep ch))"
proof (induction m)
  case (Cons p m)
  obtain i ch where p: "p = (i, ch)" by (cases p)
  have "om_get m i = None" using Cons.prems p om_get_dom[of m i] by (cases "om_get m i") force+
  then show ?case using Cons p by (auto simp: gc_chain_def)
qed simp

lemma gc_all_get: "om_get (gc_all cutoff keep recs) c = map_option (gc_map cutoff keep) (om_get recs c)"
  by (induction recs) (auto simp: gc_all_def)

lemma chain_of_gc:
  assumes "rec_wf recs ts"
  shows "chain_of (gc_all cutoff keep recs) c i = gc_chain cutoff keep (chain_of recs c i)"
proof (cases "om_get recs c")
  case None
  then show ?thesis by (simp add: chain_of_def chain_get_def gc_all_get gc_chain_def)
next
  case (Some m)
  then show ?thesis using gc_map_get[OF rec_wfD(2)[OF assms Some], of cutoff keep i]
    by (simp add: chain_of_def chain_get_def gc_all_get gc_chain_def split: option.splits)
qed

lemma rec_wf_gc:
  assumes "rec_wf recs ts"
  shows "rec_wf (gc_all cutoff keep recs) ts"
proof -
  have "map fst (gc_all cutoff keep recs) = map fst recs" by (induction recs) (auto simp: gc_all_def)
  then have 1: "om_wf (gc_all cutoff keep recs)" using rec_wfD(1)[OF assms] by (simp add: om_wf_def)
  have 2: "om_wf m" if "om_get (gc_all cutoff keep recs) c = Some m" for c m
    using that rec_wfD(2)[OF assms, of c] by (auto simp: gc_all_get gc_map_wf)
  have 3: "v \<in> set (chain_of recs c i)" if "v \<in> set (chain_of (gc_all cutoff keep recs) c i)" for v c i
    using that gc_chain_subset by (force simp: chain_of_gc[OF assms])
  show ?thesis
    unfolding rec_wf_def
    using 1 2 rec_wfD(3)[OF assms] rec_wfD(4)[OF assms 3] rec_wfD(5)[OF assms 3]
    by (simp add: chain_of_gc[OF assms] chain_sorted_gc)
qed


section \<open>Replaying a rewritten segment\<close>

definition chain_ops :: "collection_id \<Rightarrow> record_id \<Rightarrow> chain \<Rightarrow> log_op list" where
  "chain_ops c i ch =
     map (\<lambda>v. case v_value v of Some r \<Rightarrow> OpPut (v_commit_ts v) r | None \<Rightarrow> OpDelete (v_commit_ts v) c i) ch"

definition keyed :: "collection_id \<Rightarrow> record_id \<Rightarrow> chain \<Rightarrow> bool" where
  "keyed c i ch \<longleftrightarrow> (\<forall>v \<in> set ch. \<forall>r. v_value v = Some r \<longrightarrow> rec_collection r = c \<and> rec_id r = i)"

lemma chain_ops_version: "map op_version (chain_ops c i ch) = ch"
proof -
  have "op_version (case v_value v of Some r \<Rightarrow> OpPut (v_commit_ts v) r | None \<Rightarrow> OpDelete (v_commit_ts v) c i) = v" for v
    by (simp add: op_version_def op_commit_ts_def op_value_def split: option.splits)
  then show ?thesis by (simp add: chain_ops_def comp_def)
qed

lemma chain_ops_key: "keyed c i ch \<Longrightarrow> op \<in> set (chain_ops c i ch) \<Longrightarrow> op_key op = (c, i)"
  by (auto simp: chain_ops_def keyed_def op_key_def split: option.splits)

lemma chain_ops_filter:
  "keyed c' i' ch \<Longrightarrow> filter (\<lambda>op. op_key op = (c, i)) (chain_ops c' i' ch) = (if (c', i') = (c, i) then chain_ops c i ch else [])"
  using chain_ops_key[of c' i' ch] by (auto simp: filter_id_conv filter_empty_conv)

lemma map_ops_filter:
  assumes "om_wf m" "\<forall>(j, ch) \<in> set m. keyed c' j ch"
  shows "filter (\<lambda>op. op_key op = (c, i)) (concat (map (\<lambda>(j, ch). chain_ops c' j ch) m)) =
    (if c' = c then (case om_get m i of None \<Rightarrow> [] | Some ch \<Rightarrow> chain_ops c i ch) else [])"
  using assms
proof (induction m)
  case (Cons p m)
  obtain j ch where p: "p = (j, ch)" by (cases p)
  have "om_get m j = None" using Cons.prems p om_get_dom[of m j] by (cases "om_get m j") force+
  then show ?case using Cons p by (auto simp: chain_ops_filter)
qed simp

lemma rewrite_ops_filter:
  assumes "om_wf recs" "\<forall>(c', m) \<in> set recs. om_wf m \<and> (\<forall>(j, ch) \<in> set m. keyed c' j ch)"
  shows "filter (\<lambda>op. op_key op = (c, i)) (rewrite_ops recs) = chain_ops c i (chain_of recs c i)"
  using assms
proof (induction recs)
  case (Cons p recs)
  obtain c' m where p: "p = (c', m)" by (cases p)
  have "om_get recs c' = None" using Cons.prems p om_get_dom[of recs c'] by (cases "om_get recs c'") force+
  moreover have "rewrite_ops (p # recs) = concat (map (\<lambda>(j, ch). chain_ops c' j ch) m) @ rewrite_ops recs"
    by (simp add: p rewrite_ops_def chain_ops_def)
  moreover have "filter (\<lambda>op. op_key op = (c, i)) (rewrite_ops recs) = chain_ops c i (chain_of recs c i)"
    using Cons p by simp
  ultimately show ?case
    using Cons.prems p map_ops_filter[of m c' c i]
    by (auto simp: chain_of_def chain_get_def chain_ops_def split: option.splits)
qed (simp add: rewrite_ops_def chain_of_def chain_get_def chain_ops_def)

lemma rec_wf_keyed:
  assumes "rec_wf recs ts"
  shows "\<forall>(c, m) \<in> set recs. om_wf m \<and> (\<forall>(j, ch) \<in> set m. keyed c j ch)"
proof (clarify, intro conjI ballI, goal_cases)
  case (1 c m)
  then have "om_get recs c = Some m" using om_wf_lookup[OF rec_wfD(1)[OF assms]] by simp
  then show ?case by (rule rec_wfD(2)[OF assms])
next
  case (2 c m x)
  then have m: "om_get recs c = Some m" using om_wf_lookup[OF rec_wfD(1)[OF assms]] by simp
  obtain j ch where x: "x = (j, ch)" by (cases x)
  then have "om_get m j = Some ch" using 2 om_wf_lookup[OF rec_wfD(2)[OF assms m]] by simp
  then have "chain_of recs c j = ch" using m by (simp add: chain_of_def chain_get_def)
  then show ?case using rec_wfD(5)[OF assms, of _ c j] x by (auto simp: keyed_def)
qed

lemma rewrite_replays:
  assumes "rec_wf recs ts"
  shows "chain_of (fold apply_op (rewrite_ops recs) []) c i = chain_of recs c i"
  using rewrite_ops_filter[OF rec_wfD(1)[OF assms] rec_wf_keyed[OF assms], of c i]
    foldl_insert_sorted[of "[]" "chain_of recs c i"] rec_wfD(3)[OF assms, of c i]
  by (simp add: chain_of_fold_ops chain_ops_version chain_of_def[of "[]"] chain_get_def)

lemma rewrite_ops_ts:
  assumes "rec_wf recs ts" "op \<in> set (rewrite_ops recs)"
  shows "op_commit_ts op \<le> ts"
proof -
  obtain c i where k: "op_key op = (c, i)" by fastforce
  then have "op \<in> set (filter (\<lambda>op. op_key op = (c, i)) (rewrite_ops recs))" using assms(2) by simp
  then have "op \<in> set (chain_ops c i (chain_of recs c i))"
    by (simp only: rewrite_ops_filter[OF rec_wfD(1)[OF assms(1)] rec_wf_keyed[OF assms(1)]])
  then have "op_version op \<in> set (chain_of recs c i)"
    using chain_ops_version[of c i "chain_of recs c i"] by (metis image_eqI list.set_map)
  then show ?thesis using rec_wfD(4)[OF assms(1)] by fastforce
qed

end
