(* ===== verification/Store_Recovery.thy ===== *)
theory Store_Recovery
  imports Store_Mvcc
begin

text \<open>
  The storage engine and its directory.  \<open>disk_ok\<close> says that a directory holds a manifest, a
  catalog and segments that parse to given batches, the last one possibly with a torn tail;
  such a directory opens (\<open>reopen_ok\<close>) to the replay of its batches.  \<open>store_ok\<close> ties the
  directory to the records in memory.  Every write is described by the directories it can
  leave behind, whatever I/O call fails: an append leaves the old log, the new one, or the old
  one with a torn frame; a rewrite leaves the old segments or the new one.
\<close>

section \<open>File names\<close>

definition dec_value :: "string \<Rightarrow> nat" where
  "dec_value s = foldl (\<lambda>v ch. v * 10 + (of_char ch - 48)) 0 s"

lemma dec_value_digits: "v < 10 ^ n \<Longrightarrow> dec_value (dec_digits n v) = v"
proof (induction n arbitrary: v)
  case (Suc n)
  have "v div 10 < 10 ^ n" using Suc.prems by (simp add: less_mult_imp_div_less mult.commute)
  moreover have "(of_char (char_of (48 + v mod 10) :: char) :: nat) = 48 + v mod 10"
    by (simp add: of_char_of)
  ultimately show ?case using Suc.IH by (simp add: dec_value_def)
qed (simp add: dec_value_def)

lemma dec_len_bound: "v < 10 ^ dec_len v"
proof (induction v rule: dec_len.induct)
  case (1 v)
  show ?case
  proof (cases "v < 10")
    case False
    then have "v div 10 < 10 ^ dec_len (v div 10)" using 1 by blast
    then have "v < 10 * 10 ^ dec_len (v div 10)" by simp
    then show ?thesis using False dec_len.simps[of v] by simp
  qed (simp add: dec_len.simps[of v])
qed

lemma segment_file_name_inj: "segment_file_name s = segment_file_name s' \<longleftrightarrow> s = s'"
proof
  assume "segment_file_name s = segment_file_name s'"
  then have e: "dec_digits (max 10 (dec_len (seg_id s))) (seg_id s) = dec_digits (max 10 (dec_len (seg_id s'))) (seg_id s')"
    by (simp add: segment_file_name_def)
  have "v < 10 ^ max 10 (dec_len v)" for v
    by (rule order.strict_trans2[OF dec_len_bound]) (rule power_increasing, simp_all)
  then have "seg_id s = seg_id s'" using arg_cong[OF e, of dec_value] by (simp add: dec_value_digits)
  then show "s = s'" by simp
qed simp

lemma names_distinct [simp]:
  "segment_file_name s \<noteq> MANIFEST_FILE" "segment_file_name s \<noteq> CATALOG_FILE"
  "segment_file_name s \<noteq> MANIFEST_TMP" "segment_file_name s \<noteq> CATALOG_TMP"
  "MANIFEST_FILE \<noteq> MANIFEST_TMP" "CATALOG_FILE \<noteq> MANIFEST_TMP" "MANIFEST_FILE \<noteq> CATALOG_FILE"
  "CATALOG_FILE \<noteq> CATALOG_TMP" "MANIFEST_FILE \<noteq> CATALOG_TMP"
proof -
  have l: "last (segment_file_name s) = CHR ''g''" by (simp add: segment_file_name_def)
  show "segment_file_name s \<noteq> MANIFEST_FILE" "segment_file_name s \<noteq> CATALOG_FILE"
    "segment_file_name s \<noteq> MANIFEST_TMP" "segment_file_name s \<noteq> CATALOG_TMP"
    using l by (auto simp: MANIFEST_FILE_def CATALOG_FILE_def MANIFEST_TMP_def CATALOG_TMP_def)
qed (simp_all add: MANIFEST_FILE_def CATALOG_FILE_def MANIFEST_TMP_def CATALOG_TMP_def)

lemmas names_distinct' [simp] = names_distinct[symmetric]

section \<open>Parsing a segment\<close>

text \<open>What the code relies on of the JSON codec for a batch at hand.\<close>

definition batch_codec :: "store_codec \<Rightarrow> batch \<Rightarrow> bool" where
  "batch_codec c b \<longleftrightarrow>
     batch_from_slice c (batch_to_vec c b) = Some b \<and> length (batch_encode c b) < 9223372036854775808"

definition log_bytes :: "store_codec \<Rightarrow> batch list \<Rightarrow> u8 list" where
  "log_bytes c bs = concat (map (batch_encode c) bs)"

lemma log_bytes_simps [simp]:
  "log_bytes c [] = []" "log_bytes c (b # bs) = batch_encode c b @ log_bytes c bs"
  "log_bytes c (bs @ bs') = log_bytes c bs @ log_bytes c bs'"
  by (simp_all add: log_bytes_def)

text \<open>A tail that the parser takes for a torn write: shorter than a header, or shorter than the
  length its header announces.\<close>

definition torn_tail :: "u8 list \<Rightarrow> bool" where
  "torn_tail t \<longleftrightarrow>
     length t < 12 \<or>
     length t < 12 + of_be_bytes (take 8 t) \<and> of_be_bytes (take 8 t) < 9223372036854775808"

lemma torn_tail_Nil [simp]: "torn_tail []"
  by (simp add: torn_tail_def)

lemma torn_prefix:
  assumes "batch_codec c b" "k < length (batch_encode c b)"
    "length rest < length (batch_encode c b) - k" "12 \<le> k \<or> rest = []"
  shows "torn_tail (take k (batch_encode c b) @ rest)"
proof (cases "k < 12")
  case True
  then show ?thesis using assms by (auto simp: torn_tail_def)
next
  case False
  let ?p = "batch_to_vec c b"
  have e: "batch_encode c b = be_bytes 8 (length ?p) @ be_bytes 4 (unat (crc32_hash c ?p)) @ ?p"
    by (simp add: batch_encode_def Let_def)
  have p: "length ?p < 9223372036854775808" using assms(1) e by (auto simp: batch_codec_def)
  have "take 8 (take k (batch_encode c b) @ rest) = be_bytes 8 (length ?p)" using False assms(2) e by simp
  then have h: "of_be_bytes (take 8 (take k (batch_encode c b) @ rest)) = length ?p"
    using p by (simp add: of_be_bytes_be_bytes)
  have "length (batch_encode c b) = 12 + length ?p" using e by simp
  then show ?thesis unfolding torn_tail_def h using assms(2,3) p by (simp, linarith)
qed

lemma parse_one:
  assumes "batch_codec c b" "buf = pre @ batch_encode c b @ rest" "length buf < 9223372036854775808"
  shows "parse_loop c buf (length pre) acc = parse_loop c buf (length pre + length (batch_encode c b)) (acc @ [b])"
proof -
  let ?p = "batch_to_vec c b"
  have e: "batch_encode c b = be_bytes 8 (length ?p) @ be_bytes 4 (unat (crc32_hash c ?p)) @ ?p"
    by (simp add: batch_encode_def Let_def)
  have p: "length ?p < 9223372036854775808" "batch_from_slice c ?p = Some b" using assms(1) e by (auto simp: batch_codec_def)
  note h = frame_header[OF p(1) assms(2)[unfolded e]]
  have l: "length pre + 12 + length ?p \<le> length buf" "length (batch_encode c b) = 12 + length ?p"
    using assms(2) e by auto
  show ?thesis
    using assms(3) l p(2) by (subst parse_loop.simps) (auto simp: h Let_def add.assoc)
qed

lemma parse_torn:
  assumes "torn_tail t" "length (pre @ t) < 9223372036854775808"
  shows "parse_loop c (pre @ t) (length pre) acc =
    Inr \<lparr>ps_batches = acc, ps_valid_len = length pre, ps_truncated = (t \<noteq> [])\<rparr>"
  using assms by (subst parse_loop.simps) (auto simp: torn_tail_def Let_def)

lemma parse_frames:
  assumes "torn_tail t"
  shows "\<forall>b \<in> set bs. batch_codec c b \<Longrightarrow> length (pre @ log_bytes c bs @ t) < 9223372036854775808 \<Longrightarrow>
    parse_loop c (pre @ log_bytes c bs @ t) (length pre) acc =
      Inr \<lparr>ps_batches = acc @ bs, ps_valid_len = length (pre @ log_bytes c bs), ps_truncated = (t \<noteq> [])\<rparr>"
proof (induction bs arbitrary: pre acc)
  case Nil
  then show ?case using parse_torn[OF assms, of pre c acc] by simp
next
  case (Cons b bs)
  have "parse_loop c (pre @ log_bytes c (b # bs) @ t) (length pre) acc =
      parse_loop c (pre @ log_bytes c (b # bs) @ t) (length pre + length (batch_encode c b)) (acc @ [b])"
    by (rule parse_one[where rest = "log_bytes c bs @ t"]) (use Cons.prems in auto)
  also have "\<dots> = Inr \<lparr>ps_batches = acc @ b # bs, ps_valid_len = length (pre @ log_bytes c (b # bs)), ps_truncated = (t \<noteq> [])\<rparr>"
    using Cons.IH[of "pre @ batch_encode c b" "acc @ [b]"] Cons.prems by (simp add: add.assoc)
  finally show ?case .
qed

section \<open>Replay\<close>

definition log_records :: "batch list \<Rightarrow> record_map" where
  "log_records bs = fold apply_batch bs []"

definition log_ts :: "batch list \<Rightarrow> commit_ts \<Rightarrow> commit_ts" where
  "log_ts bs ts = fold (\<lambda>op ts. max ts (op_commit_ts op)) (concat (map b_ops bs)) ts"

definition log_txn :: "batch list \<Rightarrow> txn_id" where
  "log_txn bs = fold (\<lambda>b t. max t (b_txn_id b)) bs 0"

lemma fold_apply_batch: "fold apply_batch bs recs = fold apply_op (concat (map b_ops bs)) recs"
  by (induction bs arbitrary: recs) (auto simp: apply_batch_def)

lemma log_records_snoc [simp]: "log_records (bs @ [b]) = apply_batch b (log_records bs)"
  by (simp add: log_records_def)

lemma log_ts_ge:
  "op \<in> set (concat (map b_ops bs)) \<Longrightarrow> op_commit_ts op \<le> log_ts bs ts" "ts \<le> log_ts bs ts"
proof -
  have g: "ts \<le> fold (\<lambda>op ts. max ts (op_commit_ts op)) ops ts \<and>
      (\<forall>op \<in> set ops. op_commit_ts op \<le> fold (\<lambda>op ts. max ts (op_commit_ts op)) ops ts)" for ops ts
  proof (induction ops arbitrary: ts)
    case (Cons op ops)
    from Cons[of "max ts (op_commit_ts op)"] show ?case by auto
  qed simp
  show "op \<in> set (concat (map b_ops bs)) \<Longrightarrow> op_commit_ts op \<le> log_ts bs ts" "ts \<le> log_ts bs ts"
    using g[of ts "concat (map b_ops bs)"] unfolding log_ts_def by blast+
qed

lemma rec_wf_replay: "rec_wf (log_records bs) (log_ts bs ts)"
  unfolding log_records_def fold_apply_batch
  by (rule rec_wf_fold_ops) (use log_ts_ge(1)[of _ bs ts] in auto)

lemma replay_batches:
  "fold (replay_batch False) bs rs =
     rs\<lparr>rs_records := fold apply_batch bs (rs_records rs), rs_max_txn_id := fold (\<lambda>b t. max t (b_txn_id b)) bs (rs_max_txn_id rs),
        rs_last_commit_ts := log_ts bs (rs_last_commit_ts rs)\<rparr>"
  by (induction bs arbitrary: rs) (auto simp: replay_batch_def log_ts_def Let_def)

lemma chain_of_ensure: "chain_of (ensure_collection n recs) c i = chain_of recs c i"
  by (auto simp: ensure_collection_def chain_of_def chain_get_def split: option.splits)

lemma chain_of_ensure_all: "chain_of (fold ensure_collection ns recs) c i = chain_of recs c i"
  by (induction ns arbitrary: recs) (auto simp: chain_of_ensure)

lemma rec_wf_ensure:
  assumes "rec_wf recs ts"
  shows "rec_wf (ensure_collection n recs) ts"
proof -
  have "om_wf (ensure_collection n recs)" using rec_wfD(1)[OF assms] by (simp add: ensure_collection_def)
  moreover have "om_wf m" if "om_get (ensure_collection n recs) c = Some m" for c m
    using that rec_wfD(2)[OF assms, of c] rec_wfD(2)[OF assms, of n]
    by (auto simp: ensure_collection_def split: if_splits option.splits)
  ultimately show ?thesis
    unfolding rec_wf_def using rec_wfD(3)[OF assms] rec_wfD(4)[OF assms] rec_wfD(5)[OF assms]
    by (simp add: chain_of_ensure)
qed

lemma rec_wf_ensure_all: "rec_wf recs ts \<Longrightarrow> rec_wf (fold ensure_collection ns recs) ts"
  by (induction ns arbitrary: recs) (auto simp: rec_wf_ensure)

section \<open>A directory that opens\<close>

definition seg_bytes :: "dir \<Rightarrow> segment_ref \<Rightarrow> u8 list" where
  "seg_bytes d s = (case file_of d (segment_file_name s) of None \<Rightarrow> [] | Some b \<Rightarrow> b)"

text \<open>The segments hold the batches \<open>bss\<close>, the last one with a torn tail \<open>t\<close>.\<close>

fun segs_hold :: "store_codec \<Rightarrow> dir \<Rightarrow> segment_ref list \<Rightarrow> batch list list \<Rightarrow> u8 list \<Rightarrow> bool" where
  "segs_hold c d [] bss t = False"
| "segs_hold c d (s # ss) bss t =
     (case bss of
        [] \<Rightarrow> False
      | bs # bss' \<Rightarrow>
          if ss = [] then bss' = [] \<and> seg_bytes d s = log_bytes c bs @ t
          else seg_bytes d s = log_bytes c bs \<and> segs_hold c d ss bss' t)"

definition catalog_on :: "store_codec \<Rightarrow> dir \<Rightarrow> catalog \<Rightarrow> bool" where
  "catalog_on c d cat \<longleftrightarrow>
     (case file_of d CATALOG_FILE of None \<Rightarrow> cat = catalog_default | Some b \<Rightarrow> catalog_from_slice c b = Some cat)"

definition disk_ok ::
  "store_codec \<Rightarrow> dir \<Rightarrow> manifest \<Rightarrow> catalog \<Rightarrow> batch list list \<Rightarrow> u8 list \<Rightarrow> bool" where
  "disk_ok c d m cat bss t \<longleftrightarrow>
     (\<exists>b. file_of d MANIFEST_FILE = Some b \<and> manifest_from_slice c b = Some m) \<and>
     mf_format_version m = FORMAT_VERSION \<and> catalog_on c d cat \<and>
     distinct (map seg_id (mf_segments m)) \<and> (\<forall>s \<in> set (mf_segments m). seg_id s < mf_next_segment_id m) \<and>
     segs_hold c d (mf_segments m) bss t \<and> torn_tail t \<and> (\<forall>b \<in> set (concat bss). batch_codec c b) \<and>
     (\<forall>s \<in> set (mf_segments m). length (seg_bytes d s) < 9223372036854775808)"

lemma segs_hold_ne: "segs_hold c d ss bss t \<Longrightarrow> ss \<noteq> [] \<and> bss \<noteq> []"
  by (cases ss) (auto split: list.splits)

lemma segs_hold_cong:
  "(\<And>s. s \<in> set ss \<Longrightarrow> seg_bytes d' s = seg_bytes d s) \<Longrightarrow> segs_hold c d' ss bss t = segs_hold c d ss bss t"
  by (induction ss arbitrary: bss) (auto split: list.splits)

lemma segs_hold_last:
  "segs_hold c d ss bss [] \<Longrightarrow> (\<And>s. s \<in> set (butlast ss) \<Longrightarrow> seg_bytes d' s = seg_bytes d s) \<Longrightarrow>
   seg_bytes d' (last ss) = seg_bytes d (last ss) @ log_bytes c bs @ t \<Longrightarrow>
   segs_hold c d' ss (butlast bss @ [last bss @ bs]) t"
proof (induction ss arbitrary: bss)
  case (Cons s ss)
  show ?case
  proof (cases "ss = []")
    case True
    then show ?thesis using Cons.prems by (auto split: list.splits)
  next
    case False
    then obtain bs' bss' where b: "bss = bs' # bss'" "seg_bytes d s = log_bytes c bs'" "segs_hold c d ss bss' []"
      using Cons.prems(1) by (auto split: list.splits)
    have "segs_hold c d' ss (butlast bss' @ [last bss' @ bs]) t"
      using Cons.IH[OF b(3)] Cons.prems(2,3) False by simp
    then show ?thesis using b False Cons.prems(2)[of s] segs_hold_ne[OF b(3)] by (auto simp: neq_Nil_conv)
  qed
qed simp

lemma read_or_empty_ok: "no_faults d \<Longrightarrow> read_or_empty (segment_file_name s) d = (Inr (seg_bytes d s), d)"
  by (auto simp: read_or_empty_def io_bind_def seg_bytes_def io_return_def)

lemma replay_segments_ok:
  assumes "torn_tail t" "no_faults d"
  shows "segs_hold c d ss bss t \<Longrightarrow> \<forall>b \<in> set (concat bss). batch_codec c b \<Longrightarrow>
    \<forall>s \<in> set ss. length (seg_bytes d s) < 9223372036854775808 \<Longrightarrow>
    \<exists>d'. replay_segments c False ss rs d = (Inr (fold (replay_batch False) (concat bss) rs), d') \<and> no_faults d' \<and>
      (\<forall>p. file_of d' p = None \<longleftrightarrow> file_of d p = None)"
proof (induction ss arbitrary: bss rs)
  case (Cons s ss)
  obtain bs bss' where b: "bss = bs # bss'" using Cons.prems(1) by (auto split: list.splits)
  note r = read_or_empty_ok[OF assms(2), of s]
  show ?case
  proof (cases "ss = []")
    case True
    then have s: "seg_bytes d s = log_bytes c bs @ t" "bss' = []" using Cons.prems(1) b by auto
    have p: "parse_segment c (seg_bytes d s) =
        Inr \<lparr>ps_batches = bs, ps_valid_len = length (log_bytes c bs), ps_truncated = (t \<noteq> [])\<rparr>"
      using parse_frames[OF assms(1), of bs c "[]" "[]"] s b Cons.prems(2,3) by (simp add: parse_segment_def)
    have e: "file_of d (segment_file_name s) \<noteq> None" if "t \<noteq> []"
      using s(1) that by (auto simp: seg_bytes_def split: option.splits)
    show ?thesis
      using assms(2) e True s(2) by (auto simp: r p b io_bind_def io_return_def fs_set_len_def fs_sync_def file_of_def)
  next
    case False
    then have s: "seg_bytes d s = log_bytes c bs" "segs_hold c d ss bss' t" using Cons.prems(1) b by auto
    have p: "parse_segment c (seg_bytes d s) =
        Inr \<lparr>ps_batches = bs, ps_valid_len = length (log_bytes c bs), ps_truncated = False\<rparr>"
      using parse_frames[OF torn_tail_Nil, of bs c "[]" "[]"] s(1) b Cons.prems(2,3) by (simp add: parse_segment_def)
    show ?thesis
      using Cons.IH[OF s(2), of "fold (replay_batch False) bs rs"] Cons.prems(2,3) b
      by (auto simp: r p io_bind_def io_return_def)
  qed
qed simp

text \<open>What a restart without faults finds.\<close>

definition reopen :: "store_codec \<Rightarrow> dir \<Rightarrow> (error, storage) result" where
  "reopen c d = fst (open_with c True (d\<lparr>dir_script := []\<rparr>))"

lemma file_of_script [simp]: "file_of (d\<lparr>dir_script := x\<rparr>) = file_of d"
  by (simp add: file_of_def)

lemma seg_bytes_script [simp]: "seg_bytes (d\<lparr>dir_script := x\<rparr>) = seg_bytes d"
  by (simp add: seg_bytes_def fun_eq_iff)

lemma no_faults_script [simp]: "no_faults (d\<lparr>dir_script := []\<rparr>)"
  by (simp add: no_faults_def)

lemma segs_hold_script [simp]: "segs_hold c (d\<lparr>dir_script := x\<rparr>) ss bss t = segs_hold c d ss bss t"
  by (rule segs_hold_cong) simp

lemma reopen_ok:
  assumes "disk_ok c d m cat bss t"
  shows "\<exists>st. reopen c d = Inr st \<and> st_catalog st = cat \<and> st_manifest st = m \<and>
    (\<forall>col i. chain_of (st_records st) col i = chain_of (log_records (concat bss)) col i) \<and>
    rec_wf (st_records st) (st_last_commit_ts st) \<and>
    st_last_commit_ts st = log_ts (concat bss) (mf_last_commit_ts m) \<and> st_max_txn_id st = log_txn (concat bss)"
proof -
  let ?d = "d\<lparr>dir_script := []\<rparr>"
  let ?rs = "\<lparr>rs_records = [], rs_max_txn_id = 0, rs_last_commit_ts = mf_last_commit_ts m, rs_migrate_ts = 0\<rparr>"
  obtain mb where mb: "file_of d MANIFEST_FILE = Some mb" "manifest_from_slice c mb = Some m"
    using assms by (auto simp: disk_ok_def)
  have seg: "segs_hold c ?d (mf_segments m) bss t" "torn_tail t" "mf_format_version m = FORMAT_VERSION"
    "\<forall>b \<in> set (concat bss). batch_codec c b" "\<forall>s \<in> set (mf_segments m). length (seg_bytes ?d s) < 9223372036854775808"
    using assms by (simp_all add: disk_ok_def)
  have man: "manifest_load c ?d = (Inr m, ?d)"
    using mb seg(3) segs_hold_ne[OF seg(1)]
    by (simp add: manifest_load_def io_bind_def io_return_def FORMAT_VERSION_def MIN_READABLE_FORMAT_VERSION_def)
  have cat: "catalog_load c ?d = (Inr cat, ?d)"
    using assms by (auto simp: catalog_load_def io_bind_def io_return_def disk_ok_def catalog_on_def split: option.splits)
  obtain d1 where d1: "replay_segments c False (mf_segments m) ?rs ?d = (Inr (fold (replay_batch False) (concat bss) ?rs), d1)"
    "no_faults d1"
    using replay_segments_ok[OF seg(2) no_faults_script seg(1,4,5), of ?rs] by blast
  obtain d2 where d2: "fs_open_append (segment_file_name (last (mf_segments m))) d1 = (Inr (), d2)"
    using fs_open_append_ok[OF d1(2)] by blast
  have "reopen c d = Inr \<lparr>st_dir = d2, st_sync_on_commit = True, st_manifest = m, st_catalog = cat,
      st_records = fold ensure_collection (om_keys (cat_schemas cat)) (log_records (concat bss)),
      st_active = segment_file_name (last (mf_segments m)), st_max_txn_id = log_txn (concat bss),
      st_last_commit_ts = log_ts (concat bss) (mf_last_commit_ts m)\<rparr>"
    using mb(1) man cat d1 d2 seg(3) segs_hold_ne[OF seg(1)]
    by (simp add: reopen_def open_with_def io_bind_def Let_def replay_batches log_records_def log_txn_def manifest_active_def)
  then show ?thesis
    by (simp add: chain_of_ensure_all rec_wf_ensure_all rec_wf_replay)
qed


section \<open>The storage and its directory\<close>

text \<open>The directory replays to the records in memory, and the append handle is on the last segment.\<close>

definition store_ok :: "store_codec \<Rightarrow> storage \<Rightarrow> bool" where
  "store_ok c st \<longleftrightarrow>
     (\<exists>bss. disk_ok c (st_dir st) (st_manifest st) (st_catalog st) bss [] \<and>
        (\<forall>col i. chain_of (log_records (concat bss)) col i = chain_of (st_records st) col i)) \<and>
     rec_wf (st_records st) (st_last_commit_ts st) \<and>
     st_active st = segment_file_name (last (mf_segments (st_manifest st))) \<and>
     file_of (st_dir st) (st_active st) \<noteq> None"

definition same_records :: "storage \<Rightarrow> record_map \<Rightarrow> bool" where
  "same_records st recs \<longleftrightarrow> (\<forall>col i. chain_of (st_records st) col i = chain_of recs col i)"

lemma concat_extend_last: "bss \<noteq> [] \<Longrightarrow> concat (butlast bss @ [last bss @ bs]) = concat bss @ bs"
proof -
  assume "bss \<noteq> []"
  then have "concat bss = concat (butlast bss @ [last bss])" by simp
  then show ?thesis by (simp only: concat_append concat.simps append_assoc append_Nil2)
qed

lemma disk_append:
  assumes d: "disk_ok c d m cat bss []"
    and f: "file_of d' = (file_of d)(segment_file_name (last (mf_segments m)) \<mapsto> seg_bytes d (last (mf_segments m)) @ log_bytes c bs @ t)"
    and t: "torn_tail t" "\<forall>b \<in> set bs. batch_codec c b"
    and len: "length (seg_bytes d (last (mf_segments m)) @ log_bytes c bs @ t) < 9223372036854775808"
  shows "disk_ok c d' m cat (butlast bss @ [last bss @ bs]) t"
proof -
  let ?l = "last (mf_segments m)"
  have h: "segs_hold c d (mf_segments m) bss []" using d by (simp add: disk_ok_def)
  note ne = segs_hold_ne[OF h]
  have dist: "distinct (mf_segments m)" using d by (auto simp: disk_ok_def distinct_map)
  have l: "seg_bytes d' ?l = seg_bytes d ?l @ log_bytes c bs @ t" by (simp add: seg_bytes_def f)
  have o: "seg_bytes d' s = seg_bytes d s" if "s \<noteq> ?l" for s
    using that by (simp add: seg_bytes_def f segment_file_name_inj)
  have "s \<noteq> ?l" if "s \<in> set (butlast (mf_segments m))" for s
  proof -
    have "distinct (butlast (mf_segments m) @ [?l])" using dist ne by simp
    then show ?thesis using that by auto
  qed
  then have "segs_hold c d' (mf_segments m) (butlast bss @ [last bss @ bs]) t"
    using segs_hold_last[OF h _ l] o by blast
  moreover have "length (seg_bytes d' s) < 9223372036854775808" if "s \<in> set (mf_segments m)" for s
    using d that len l o[of s] by (cases "s = ?l") (auto simp: disk_ok_def)
  moreover have "catalog_on c d' cat" using d f by (simp add: disk_ok_def catalog_on_def)
  ultimately show ?thesis
    using d f t concat_extend_last[of bss bs] ne by (auto simp: disk_ok_def simp del: concat_append)
qed

lemma replay_extend:
  assumes "\<forall>col i. chain_of (log_records bs) col i = chain_of recs col i"
  shows "chain_of (log_records (bs @ [b])) col i = chain_of (apply_batch b recs) col i"
  using assms by (simp add: apply_batch_def chain_of_fold_ops)

definition stamped :: "batch \<Rightarrow> commit_ts \<Rightarrow> batch" where
  "stamped b ts = b\<lparr>b_ops := map (op_set_commit_ts ts) (b_ops b)\<rparr>"

text \<open>The append, seen from the directory: all of the frame, or a prefix of it.\<close>

lemma append_batch_dir:
  assumes "append_batch c b ts st = (r, st')" "file_of (st_dir st) (st_active st) = Some old"
  shows "\<exists>k. file_of (st_dir st') = (file_of (st_dir st))(st_active st \<mapsto> old @ take k (batch_encode c (stamped b ts))) \<and>
    (r = Inr () \<longrightarrow> length (batch_encode c (stamped b ts)) \<le> k) \<and>
    synced_len (st_dir st') = (if r = Inr () \<and> st_sync_on_commit st
      then (synced_len (st_dir st))(st_active st := length old + length (batch_encode c (stamped b ts))) else synced_len (st_dir st))"
proof -
  let ?f = "batch_encode c (stamped b ts)"
  obtain r1 d1 where 1: "fs_append_all (st_active st) ?f (st_dir st) = (r1, d1)" by fastforce
  obtain r2 d2 where 2: "(if st_sync_on_commit st then fs_sync (st_active st) else io_return ()) d1 = (r2, d2)" by fastforce
  note s1 = fs_append_synced[OF 1]
  show ?thesis
  proof (cases r1)
    case (Inl e)
    then obtain k where "file_of d1 = (file_of (st_dir st))(st_active st \<mapsto> old @ take k ?f)"
      using fs_append_file[OF 1 assms(2)] by auto
    moreover have "st_dir st' = d1" "r = Inl e"
      using assms(1) 1 Inl by (auto simp: append_batch_def Let_def io_bind_def stamped_def)
    ultimately show ?thesis using s1 by auto
  next
    case (Inr u)
    then have f1: "file_of d1 = (file_of (st_dir st))(st_active st \<mapsto> old @ ?f)"
      using fs_append_file[OF 1 assms(2)] by auto
    have f2: "file_of d2 = file_of d1 \<and> synced_len d2 = (if r2 = Inr () \<and> st_sync_on_commit st
        then (synced_len d1)(st_active st := length old + length ?f) else synced_len d1)"
      using 2 fs_sync_file[of "st_active st" d1 r2 d2] f1 by (auto simp: io_return_def split: if_splits)
    have "st_dir st' = d2 \<and> (r = Inr () \<longleftrightarrow> r2 = Inr ())"
      using assms(1) 1 2 Inr by (auto simp: append_batch_def Let_def io_bind_def stamped_def split: sum.splits)
    then show ?thesis using f1 f2 s1 by (intro exI[of _ "length ?f"]) simp
  qed
qed

lemma append_batch_mem:
  assumes "append_batch c b ts st = (r, st')"
  shows "st_manifest st' = st_manifest st" "st_catalog st' = st_catalog st" "st_active st' = st_active st"
    "r = Inr () \<Longrightarrow> st_records st' = apply_batch (stamped b ts) (st_records st) \<and> st_last_commit_ts st' = ts"
    "r \<noteq> Inr () \<Longrightarrow> st_records st' = st_records st \<and> st_last_commit_ts st' = st_last_commit_ts st"
  using assms by (auto simp: append_batch_def stamped_def Let_def split: prod.splits sum.splits)

lemma disk_prefix:
  assumes "store_ok c st" "batch_codec c b"
    "length (seg_bytes (st_dir st) (last (mf_segments (st_manifest st)))) + length (batch_encode c b) < 9223372036854775808"
    "file_of (st_dir st) (st_active st) = Some old"
    "file_of d = (file_of (st_dir st))(st_active st \<mapsto> old @ take k (batch_encode c b))"
  shows "\<exists>bss t. disk_ok c d (st_manifest st) (st_catalog st) bss t \<and>
    ((\<forall>col i. chain_of (log_records (concat bss)) col i = chain_of (apply_batch b (st_records st)) col i) \<and> t = [] \<or>
     k < length (batch_encode c b) \<and> (\<forall>col i. chain_of (log_records (concat bss)) col i = chain_of (st_records st) col i))"
proof -
  let ?m = "st_manifest st" and ?d = "st_dir st" and ?f = "batch_encode c b"
  obtain bss where bss: "disk_ok c ?d ?m (st_catalog st) bss []"
    "\<forall>col i. chain_of (log_records (concat bss)) col i = chain_of (st_records st) col i"
    using assms(1) by (auto simp: store_ok_def)
  have a: "st_active st = segment_file_name (last (mf_segments ?m))" using assms(1) by (simp add: store_ok_def)
  have ne: "bss \<noteq> []" using bss(1) segs_hold_ne[of c ?d "mf_segments ?m" bss "[]"] by (simp add: disk_ok_def)
  have old: "seg_bytes ?d (last (mf_segments ?m)) = old" using a assms(4) by (simp add: seg_bytes_def)
  show ?thesis
  proof (cases "length ?f \<le> k")
    case True
    have "disk_ok c d ?m (st_catalog st) (butlast bss @ [last bss @ [b]]) []"
      by (rule disk_append[OF bss(1)]) (use assms(2,3,5) True a old in \<open>auto simp: torn_tail_def\<close>)
    then show ?thesis
      using replay_extend[OF bss(2), of b] concat_extend_last[OF ne, of "[b]"]
      by (intro exI[of _ "butlast bss @ [last bss @ [b]]"] exI[of _ "[]"]) (simp del: concat_append)
  next
    case False
    have "torn_tail (take k ?f)" using torn_prefix[OF assms(2), of k "[]"] False by simp
    then have "disk_ok c d ?m (st_catalog st) (butlast bss @ [last bss @ []]) (take k ?f)"
      by (intro disk_append[OF bss(1)]) (use assms(3,5) a old False in auto)
    then show ?thesis using bss(2) ne False by auto
  qed
qed

lemma append_batch_disk:
  assumes "store_ok c st" "append_batch c b ts st = (r, st')" "batch_codec c (stamped b ts)"
    "length (seg_bytes (st_dir st) (last (mf_segments (st_manifest st)))) + length (batch_encode c (stamped b ts)) < 9223372036854775808"
  shows "\<exists>bss t. disk_ok c (st_dir st') (st_manifest st) (st_catalog st) bss t \<and>
    ((\<forall>col i. chain_of (log_records (concat bss)) col i = chain_of (apply_batch (stamped b ts) (st_records st)) col i) \<and> t = [] \<or>
     r \<noteq> Inr () \<and> (\<forall>col i. chain_of (log_records (concat bss)) col i = chain_of (st_records st) col i))"
proof -
  obtain old where old: "file_of (st_dir st) (st_active st) = Some old" using assms(1) by (auto simp: store_ok_def)
  from append_batch_dir[OF assms(2) old] disk_prefix[OF assms(1,3,4) old, of "st_dir st'"] show ?thesis by fastforce
qed

text \<open>The same after a power loss, when everything was synced before: what the append wrote is there from its sync on.\<close>

lemma append_batch_power:
  assumes "store_ok c st" "append_batch c b ts st = (r, st')" "batch_codec c (stamped b ts)"
    "length (seg_bytes (st_dir st) (last (mf_segments (st_manifest st)))) + length (batch_encode c (stamped b ts)) < 9223372036854775808"
    "all_synced (st_dir st)" "power_loss (st_dir st') d"
  shows "\<exists>bss t. disk_ok c d (st_manifest st) (st_catalog st) bss t \<and>
    ((\<forall>col i. chain_of (log_records (concat bss)) col i = chain_of (apply_batch (stamped b ts) (st_records st)) col i) \<and> t = [] \<or>
     (r \<noteq> Inr () \<or> \<not> st_sync_on_commit st) \<and> (\<forall>col i. chain_of (log_records (concat bss)) col i = chain_of (st_records st) col i))"
proof -
  let ?f = "batch_encode c (stamped b ts)" and ?a = "st_active st"
  obtain old where old: "file_of (st_dir st) ?a = Some old" using assms(1) by (auto simp: store_ok_def)
  obtain k where k: "file_of (st_dir st') = (file_of (st_dir st))(?a \<mapsto> old @ take k ?f)" "r = Inr () \<longrightarrow> length ?f \<le> k"
    "synced_len (st_dir st') = (if r = Inr () \<and> st_sync_on_commit st then (synced_len (st_dir st))(?a := length old + length ?f)
       else synced_len (st_dir st))"
    using append_batch_dir[OF assms(2) old] by blast
  have o: "length old \<le> synced_len (st_dir st') ?a" using assms(5) old k(3) by (auto simp: all_synced_def)
  have "file_of d p = file_of (st_dir st) p" if "p \<noteq> ?a" for p
  proof (cases "file_of (st_dir st) p")
    case (Some x)
    then have "length x \<le> synced_len (st_dir st') p" using assms(5) k(3) that by (auto simp: all_synced_def)
    then show ?thesis using assms(6)[unfolded power_loss_def, rule_format, of p] k(1) that Some by auto
  qed (use assms(6)[unfolded power_loss_def, rule_format, of p] k(1) that in simp)
  moreover obtain n where n: "synced_len (st_dir st') ?a \<le> n" "file_of d ?a = Some (take n (old @ take k ?f))"
    using assms(6)[unfolded power_loss_def, rule_format, of ?a] k(1) by auto
  ultimately have "file_of d = (file_of (st_dir st))(?a \<mapsto> old @ take (min (n - length old) k) ?f)"
    using o by (auto simp: fun_eq_iff)
  from disk_prefix[OF assms(1,3,4) old this] show ?thesis using k(2,3) n(1) by fastforce
qed


section \<open>Rewriting the log\<close>

definition manifest_codec :: "store_codec \<Rightarrow> manifest \<Rightarrow> bool" where
  "manifest_codec c m \<longleftrightarrow> (\<exists>b. manifest_to_vec c m = Some b \<and> manifest_from_slice c b = Some m)"

lemma disk_frame:
  assumes "disk_ok c d m cat bss t" "file_of d' MANIFEST_FILE = file_of d MANIFEST_FILE"
    "file_of d' CATALOG_FILE = file_of d CATALOG_FILE"
    "\<And>s. s \<in> set (mf_segments m) \<Longrightarrow> file_of d' (segment_file_name s) = file_of d (segment_file_name s)"
  shows "disk_ok c d' m cat bss t"
proof -
  have s: "seg_bytes d' s = seg_bytes d s" if "s \<in> set (mf_segments m)" for s
    using assms(4)[OF that] by (simp add: seg_bytes_def)
  then have "segs_hold c d' (mf_segments m) bss t = segs_hold c d (mf_segments m) bss t"
    by (rule segs_hold_cong)
  then show ?thesis using assms(1-3) s by (auto simp: disk_ok_def catalog_on_def)
qed

lemma remove_segments_file:
  "remove_segments n ss d = (r, d') \<Longrightarrow>
   r = Inr () \<and> (\<forall>p. p \<notin> segment_file_name ` {s \<in> set ss. seg_id s \<noteq> n} \<longrightarrow> file_of d' p = file_of d p)"
proof (induction ss arbitrary: d)
  case (Cons s ss)
  let ?a = "if seg_id s \<noteq> n then io_ignore (fs_remove (segment_file_name s)) else io_return ()"
  obtain d1 where 1: "?a d = (Inr (), d1)"
    by (cases "seg_id s \<noteq> n") (auto simp: io_ignore_def io_return_def)
  have f: "file_of d1 p = file_of d p" if "seg_id s \<noteq> n \<longrightarrow> p \<noteq> segment_file_name s" for p
    using 1 that fs_remove_file[of "segment_file_name s" d "fst (fs_remove (segment_file_name s) d)" d1]
    by (auto simp: io_ignore_def io_return_def split: if_splits)
  have "remove_segments n ss d1 = (r, d')" using Cons.prems 1 by (simp add: io_bind_def)
  note IH = Cons.IH[OF this]
  have "file_of d' p = file_of d p" if "p \<notin> segment_file_name ` {x \<in> set (s # ss). seg_id x \<noteq> n}" for p
  proof -
    have "p \<notin> segment_file_name ` {x \<in> set ss. seg_id x \<noteq> n}" "seg_id s \<noteq> n \<longrightarrow> p \<noteq> segment_file_name s"
      using that by (auto simp: image_iff)
    then show ?thesis using IH f by simp
  qed
  then show ?case using IH by simp
qed (simp add: io_return_def)

lemma write_segment_file:
  assumes "io_bind (fs_create p) (\<lambda>_. io_bind (if ops = [] then io_return () else fs_append_all p bytes) (\<lambda>_. fs_sync p)) d = (r, d')"
  shows "\<exists>x. file_of d' = (file_of d)(p := x) \<and> (\<forall>u. r = Inr u \<longrightarrow> x = Some (if ops = [] then [] else bytes))"
proof -
  obtain r1 d1 where 1: "fs_create p d = (r1, d1)" by fastforce
  show ?thesis
  proof (cases r1)
    case (Inl e)
    then show ?thesis using assms 1 fs_create_file[OF 1]
      by (intro exI[of _ "file_of d p"]) (auto simp: io_bind_def)
  next
    case (Inr u)
    then have f1: "file_of d1 = (file_of d)(p \<mapsto> [])" using fs_create_file[OF 1] by auto
    obtain r2 d2 where 2: "(if ops = [] then io_return () else fs_append_all p bytes) d1 = (r2, d2)" by fastforce
    obtain r3 d3 where 3: "fs_sync p d2 = (r3, d3)" by fastforce
    have r: "(r, d') = (case r2 of Inl e \<Rightarrow> (Inl e, d2) | Inr _ \<Rightarrow> (r3, d3))"
      using assms 1 2 3 Inr by (auto simp: io_bind_def split: sum.splits)
    have f2: "\<exists>x. file_of d2 = (file_of d)(p := x) \<and> (\<forall>u. r2 = Inr u \<longrightarrow> x = Some (if ops = [] then [] else bytes))"
    proof (cases "ops = []")
      case True
      then show ?thesis using 2 f1 by (auto simp: io_return_def)
    next
      case False
      then have "fs_append_all p bytes d1 = (r2, d2)" using 2 by simp
      from fs_append_file[OF this, of "[]"] show ?thesis using f1 False by auto
    qed
    then show ?thesis using r fs_sync_file[OF 3] by (auto split: sum.splits)
  qed
qed

text \<open>The batch and the manifest a rewrite produces.\<close>

definition rewritten_batch :: "storage \<Rightarrow> batch" where
  "rewritten_batch st = \<lparr>b_txn_id = st_max_txn_id st, b_ops = rewrite_ops (st_records st)\<rparr>"

definition rewritten_manifest :: "storage \<Rightarrow> manifest" where
  "rewritten_manifest st =
     \<lparr>mf_format_version = FORMAT_VERSION, mf_segments = [\<lparr>seg_id = mf_next_segment_id (st_manifest st)\<rparr>],
      mf_next_segment_id = mf_next_segment_id (st_manifest st) + 1, mf_last_txn_id = st_max_txn_id st,
      mf_last_commit_ts = st_last_commit_ts st\<rparr>"

definition rewritten_log :: "storage \<Rightarrow> batch list" where
  "rewritten_log st = (if rewrite_ops (st_records st) = [] then [] else [rewritten_batch st])"

lemma replay_rewritten:
  assumes "rec_wf (st_records st) ts"
  shows "chain_of (log_records (rewritten_log st)) col i = chain_of (st_records st) col i"
  using rewrite_replays[OF assms, of col i]
  by (auto simp: rewritten_log_def log_records_def apply_batch_def rewritten_batch_def)

lemma rewritten_disk:
  assumes "file_of d MANIFEST_FILE = Some mb" "manifest_from_slice c mb = Some (rewritten_manifest st)"
    "catalog_on c d cat" "batch_codec c (rewritten_batch st)"
    "file_of d (segment_file_name \<lparr>seg_id = mf_next_segment_id (st_manifest st)\<rparr>) = Some (log_bytes c (rewritten_log st))"
  shows "disk_ok c d (rewritten_manifest st) cat [rewritten_log st] []"
proof -
  let ?seg = "\<lparr>seg_id = mf_next_segment_id (st_manifest st)\<rparr>"
  have "length (log_bytes c (rewritten_log st)) < 9223372036854775808"
    using assms(4) by (simp add: rewritten_log_def batch_codec_def)
  moreover have "seg_bytes d ?seg = log_bytes c (rewritten_log st)" using assms(5) by (simp add: seg_bytes_def)
  moreover have "\<forall>b \<in> set (rewritten_log st). batch_codec c b" using assms(4) by (simp add: rewritten_log_def)
  ultimately show ?thesis
    using assms(1-3) by (simp add: disk_ok_def rewritten_manifest_def torn_tail_def)
qed

lemma rewrite_segment_disk:
  assumes d: "disk_ok c (st_dir st) (st_manifest st) cat bss []" and wf: "rec_wf (st_records st) ts"
    and r: "rewrite_segment c st = (r, st')"
    and codec: "batch_codec c (rewritten_batch st)" "manifest_codec c (rewritten_manifest st)"
  shows "st_records st' = st_records st \<and> st_last_commit_ts st' = st_last_commit_ts st \<and> st_catalog st' = st_catalog st \<and>
    (disk_ok c (st_dir st') (st_manifest st) cat bss [] \<and> r \<noteq> Inr () \<or>
     disk_ok c (st_dir st') (rewritten_manifest st) cat [rewritten_log st] [] \<and>
     (r = Inr () \<longrightarrow> st_manifest st' = rewritten_manifest st \<and>
        st_active st' = segment_file_name (last (mf_segments (rewritten_manifest st))) \<and>
        file_of (st_dir st') (st_active st') \<noteq> None))"
proof -
  let ?m = "st_manifest st" and ?m' = "rewritten_manifest st"
  let ?new = "\<lparr>seg_id = mf_next_segment_id ?m\<rparr>"
  let ?p = "segment_file_name ?new"
  let ?w = "io_bind (fs_create ?p) (\<lambda>_. io_bind (if rewrite_ops (st_records st) = [] then io_return ()
      else fs_append_all ?p (batch_encode c (rewritten_batch st))) (\<lambda>_. fs_sync ?p))"
  obtain mb where mb: "manifest_to_vec c ?m' = Some mb" "manifest_from_slice c mb = Some ?m'"
    using codec(2) by (auto simp: manifest_codec_def)
  have fresh: "segment_file_name s \<noteq> ?p" if "s \<in> set (mf_segments ?m)" for s
    using d that by (auto simp: disk_ok_def segment_file_name_inj)
  obtain r1 d1 where 1: "?w (st_dir st) = (r1, d1)" by fastforce
  obtain x where x: "file_of d1 = (file_of (st_dir st))(?p := x)"
    "\<forall>u. r1 = Inr u \<longrightarrow> x = Some (log_bytes c (rewritten_log st))"
    using write_segment_file[OF 1] by (auto simp: rewritten_log_def)
  have ok1: "disk_ok c d1 ?m cat bss []" by (rule disk_frame[OF d]) (use x fresh in auto)
  obtain r2 d2 where 2: "manifest_save c ?m' d1 = (r2, d2)" by fastforce
  obtain d3 where 3: "remove_segments (mf_next_segment_id ?m) (mf_segments ?m) d2 = (Inr (), d3)"
    using remove_segments_file by (metis surj_pair)
  obtain r4 d4 where 4: "fs_open_append ?p d3 = (r4, d4)" by fastforce
  have 5: "io_bind (remove_segments (mf_next_segment_id ?m) (mf_segments ?m)) (\<lambda>_. fs_open_append ?p) d2 = (r4, d4)"
    using 3 4 by (simp add: io_bind_def)
  have eq: "rewrite_segment c st =
     (case r1 of Inl e \<Rightarrow> (Inl e, st\<lparr>st_dir := d1\<rparr>)
      | Inr _ \<Rightarrow> (case r2 of Inl e \<Rightarrow> (Inl e, st\<lparr>st_manifest := ?m', st_dir := d2\<rparr>)
        | Inr _ \<Rightarrow> (case r4 of Inl e \<Rightarrow> (Inl e, st\<lparr>st_manifest := ?m', st_dir := d4\<rparr>)
          | Inr _ \<Rightarrow> (Inr (), st\<lparr>st_manifest := ?m', st_dir := d4, st_active := ?p\<rparr>))))"
    unfolding rewrite_segment_def Let_def rewritten_batch_def[symmetric] rewritten_manifest_def[symmetric] 1
    by (cases r1; cases r2; cases r4) (simp_all add: 2 5)
  show ?thesis
  proof (cases r1)
    case (Inl e)
    then show ?thesis using r eq ok1 by auto
  next
    case (Inr u)
    note f2 = fs_replace_file[of MANIFEST_TMP MANIFEST_FILE mb d1 r2 d2]
    show ?thesis
    proof (cases r2)
      case (Inl e)
      then obtain y where "file_of d2 = (file_of d1)(MANIFEST_TMP := y)" using f2 2 mb(1) by (auto simp: manifest_save_def)
      then have "disk_ok c d2 ?m cat bss []" by (intro disk_frame[OF ok1]) auto
      then show ?thesis using r eq Inr Inl by auto
    next
      case (Inr v)
      then have f2': "file_of d2 = (file_of d1)(MANIFEST_TMP := None, MANIFEST_FILE := Some mb)"
        using f2 2 mb(1) by (auto simp: manifest_save_def)
      have p3: "file_of d3 q = file_of d2 q" if "q \<notin> segment_file_name ` set (mf_segments ?m)" for q
        using remove_segments_file[OF 3] that by auto
      have np: "?p \<notin> segment_file_name ` set (mf_segments ?m)" using fresh by (metis imageE)
      have "file_of d3 MANIFEST_FILE = Some mb" "file_of d3 CATALOG_FILE = file_of (st_dir st) CATALOG_FILE"
        "file_of d3 ?p = Some (log_bytes c (rewritten_log st))"
        using p3[of MANIFEST_FILE] p3[of CATALOG_FILE] p3[OF np] f2' x \<open>r1 = Inr u\<close>
        by (auto simp: image_iff)
      then have "file_of d4 MANIFEST_FILE = Some mb" "file_of d4 CATALOG_FILE = file_of (st_dir st) CATALOG_FILE"
        "file_of d4 ?p = Some (log_bytes c (rewritten_log st))"
        using fs_open_append_file[OF 4] by auto
      then have "disk_ok c d4 ?m' cat [rewritten_log st] []"
        using d mb(2) codec(1) by (intro rewritten_disk) (auto simp: disk_ok_def catalog_on_def)
      then show ?thesis
        using r eq \<open>r1 = Inr u\<close> Inr \<open>file_of d4 ?p = _\<close>
        by (auto split: sum.splits simp: rewritten_manifest_def)
    qed
  qed
qed


section \<open>Atomic, durable commits\<close>

lemma rec_wf_stamped:
  assumes "rec_wf recs ts'" "ts' < ts"
  shows "rec_wf (apply_batch (stamped b ts) recs) ts"
  unfolding apply_batch_def
  by (rule rec_wf_fold_ops) (use assms in \<open>auto simp: stamped_def intro: rec_wf_mono\<close>)

lemma append_batch_store:
  assumes "store_ok c st" "append_batch c b ts st = (Inr (), st')" "batch_codec c (stamped b ts)"
    "length (seg_bytes (st_dir st) (last (mf_segments (st_manifest st)))) + length (batch_encode c (stamped b ts)) < 9223372036854775808"
    "st_last_commit_ts st < ts"
  shows "store_ok c st'"
proof -
  note mem = append_batch_mem[OF assms(2)]
  obtain bss where "disk_ok c (st_dir st') (st_manifest st) (st_catalog st) bss []"
    "\<forall>col i. chain_of (log_records (concat bss)) col i = chain_of (st_records st') col i"
    using append_batch_disk[OF assms(1-4)] mem(4) by auto
  moreover have "rec_wf (st_records st') (st_last_commit_ts st')"
    using assms(1,5) mem(4) by (auto simp: store_ok_def intro: rec_wf_stamped)
  moreover have "file_of (st_dir st') (st_active st) \<noteq> None"
    using append_batch_dir[OF assms(2)] assms(1) by (auto simp: store_ok_def)
  ultimately show ?thesis using assms(1) mem(1-3) by (auto simp: store_ok_def)
qed

lemma reopen_same:
  assumes "disk_ok c d m cat bss t" "\<forall>col i. chain_of (log_records (concat bss)) col i = chain_of recs col i"
  shows "\<exists>st. reopen c d = Inr st \<and> same_records st recs \<and> st_catalog st = cat \<and>
    rec_wf (st_records st) (st_last_commit_ts st)"
  using reopen_ok[OF assms(1)] assms(2) by (auto simp: same_records_def)

text \<open>What a reader sees is a function of the chains.\<close>

lemma same_reads:
  assumes "same_records st recs" "rec_wf (st_records st) ts" "rec_wf recs ts'" "st_records st2 = recs"
  shows "get_as_of st col i t = get_as_of st2 col i t" "storage_get st col i = storage_get st2 col i"
    "scan_as_of st col t = scan_as_of st2 col t" "storage_scan st col = storage_scan st2 col"
proof -
  have eq: "chain_of (st_records st) col j = chain_of recs col j" for j using assms(1) by (simp add: same_records_def)
  show "get_as_of st col i t = get_as_of st2 col i t" "storage_get st col i = storage_get st2 col i"
    by (simp_all add: gets_chain_of assms(4) eq)
  show "scan_as_of st col t = scan_as_of st2 col t"
    unfolding scans_live_in assms(4)
    by (rule live_in_cong[OF assms(2,3)]) (use visible_value_simps(1,3) eq in auto)
  show "storage_scan st col = storage_scan st2 col"
    unfolding scans_live_in assms(4)
    by (rule live_in_cong[OF assms(2,3)]) (use visible_value_simps(2,4) eq in auto)
qed

end
