(* ===== verification/Store_Durability.thy ===== *)
theory Store_Durability
  imports Store_Recovery
begin

text \<open>
  The promises of the storage engine over its directory: a commit is atomic and durable under any
  I/O fault, it extends the history that snapshot readers see, compaction and garbage collection
  change nothing a reader may see, and a replica that applies the primary's entries converges.
  One theorem describes a defect: a commit acknowledged after a failed write is lost.
\<close>

section \<open>A small codec and stores for examples\<close>

definition demo_record :: "record_id \<Rightarrow> nat \<Rightarrow> i64 \<Rightarrow> record_t" where
  "demo_record i ver x =
     \<lparr>rec_id = i, rec_collection = ''C'', rec_fields = [(''v'', VInt x)], rec_version = ver, rec_created_txn = 0\<rparr>"

definition demo_batches :: "batch list" where
  "demo_batches =
     [\<lparr>b_txn_id = 0, b_ops = [OpPut 1 (demo_record 1 1 10)]\<rparr>,
      \<lparr>b_txn_id = 0, b_ops = [OpPut 2 (demo_record 1 2 20)]\<rparr>,
      \<lparr>b_txn_id = 0, b_ops = [OpPut 2 (demo_record 2 1 30)]\<rparr>,
      \<lparr>b_txn_id = 0, b_ops = [OpDelete 2 ''C'' 1]\<rparr>,
      \<lparr>b_txn_id = 0, b_ops = [OpPut 1 (demo_record 1 1 10), OpPut 2 (demo_record 1 2 20)]\<rparr>,
      \<lparr>b_txn_id = 0, b_ops = [OpPut 2 (demo_record 1 2 20), OpPut 2 (demo_record 2 1 30)]\<rparr>]"

fun find_index :: "'a \<Rightarrow> 'a list \<Rightarrow> nat" where
  "find_index x [] = 0"
| "find_index x (y # ys) = (if x = y then 0 else Suc (find_index x ys))"

definition demo_store_codec :: store_codec where
  "demo_store_codec =
     \<lparr>batch_to_vec = (\<lambda>b. word_of_nat (find_index b demo_batches) # (if length (b_ops b) = 2 then replicate 30 7 else [7])),
      batch_from_slice = (\<lambda>bs. case bs of [] \<Rightarrow> None
         | k # _ \<Rightarrow> if unat k < length demo_batches then Some (demo_batches ! unat k) else None),
      manifest_to_vec = (\<lambda>m. Some ([ucast (mf_format_version m), word_of_nat (mf_next_segment_id m),
         ucast (mf_last_txn_id m), word_of_nat (mf_last_commit_ts m)] @ map (\<lambda>s. word_of_nat (seg_id s)) (mf_segments m))),
      manifest_from_slice = (\<lambda>bs. case bs of v # n # t # ts # ids \<Rightarrow>
           Some \<lparr>mf_format_version = ucast v, mf_segments = map (\<lambda>i. \<lparr>seg_id = unat i\<rparr>) ids, mf_next_segment_id = unat n,
                 mf_last_txn_id = ucast t, mf_last_commit_ts = unat ts\<rparr>
         | _ \<Rightarrow> None),
      catalog_to_vec = (\<lambda>k. Some [word_of_nat (cat_schema_version k)]),
      catalog_from_slice = (\<lambda>bs. case bs of [n] \<Rightarrow> Some \<lparr>cat_schemas = [], cat_schema_version = unat n\<rparr> | _ \<Rightarrow> None),
      crc32_hash = (\<lambda>bs. foldl (\<lambda>a b. a * 31 + ucast b) 0 bs)\<rparr>"

text \<open>A fresh store holding the given batches in its first segment.\<close>

definition demo_storage :: "io_outcome list \<Rightarrow> batch list \<Rightarrow> storage" where
  "demo_storage script bs =
     \<lparr>st_dir = \<lparr>dir_files = om_insert (segment_file_name \<lparr>seg_id = 1\<rparr>) (log_bytes demo_store_codec bs)
                  [(MANIFEST_FILE, [2, 2, 0, 0, 1])],
          dir_synced = om_insert (segment_file_name \<lparr>seg_id = 1\<rparr>) (length (log_bytes demo_store_codec bs)) [(MANIFEST_FILE, 5)],
          dir_script = script\<rparr>,
      st_sync_on_commit = True, st_manifest = manifest_default, st_catalog = catalog_default,
      st_records = log_records bs, st_active = segment_file_name \<lparr>seg_id = 1\<rparr>,
      st_max_txn_id = 0, st_last_commit_ts = log_ts bs 0\<rparr>"

lemma demo_codec_ok: "batch_codec demo_store_codec (demo_batches ! 0)" "batch_codec demo_store_codec (demo_batches ! 1)"
    "batch_codec demo_store_codec (demo_batches ! 2)" "batch_codec demo_store_codec (demo_batches ! 3)"
    "batch_codec demo_store_codec (demo_batches ! 4)" "batch_codec demo_store_codec (demo_batches ! 5)"
  by (simp_all add: batch_codec_def demo_store_codec_def demo_batches_def batch_encode_def Let_def)

lemma demo_store_ok:
  assumes "\<forall>b \<in> set bs. batch_codec demo_store_codec b" "length (log_bytes demo_store_codec bs) < 9223372036854775808"
  shows "store_ok demo_store_codec (demo_storage script bs)"
proof -
  let ?st = "demo_storage script bs"
  have f: "file_of (st_dir ?st) MANIFEST_FILE = Some [2, 2, 0, 0, 1]" "file_of (st_dir ?st) CATALOG_FILE = None"
    "file_of (st_dir ?st) (segment_file_name \<lparr>seg_id = 1\<rparr>) = Some (log_bytes demo_store_codec bs)"
    by (simp_all add: demo_storage_def file_of_def)
  have "disk_ok demo_store_codec (st_dir ?st) manifest_default catalog_default [bs] []"
    using assms f by (simp add: disk_ok_def catalog_on_def seg_bytes_def torn_tail_def manifest_default_def demo_store_codec_def FORMAT_VERSION_def)
  then show ?thesis
    using f(3) rec_wf_replay[of bs 0]
    by (auto simp: store_ok_def demo_storage_def manifest_default_def intro!: exI[of _ "[bs]"])
qed


section \<open>Commits\<close>

definition fits :: "store_codec \<Rightarrow> storage \<Rightarrow> batch \<Rightarrow> bool" where
  "fits c st b \<longleftrightarrow> batch_codec c b \<and>
     length (seg_bytes (st_dir st) (last (mf_segments (st_manifest st)))) + length (batch_encode c b) < 9223372036854775808"

lemma commit_batch_append:
  assumes "b_ops b \<noteq> []" "commit_batch c b st = (r, st')"
  shows "\<exists>r'. append_batch c b (st_last_commit_ts st + 1) st = (r', st') \<and>
    (\<forall>e. r = Inl e \<longleftrightarrow> r' = Inl e) \<and> (\<forall>ts. r = Inr ts \<longleftrightarrow> r' = Inr () \<and> ts = st_last_commit_ts st + 1)"
  using assms by (cases "append_batch c b (st_last_commit_ts st + 1) st")
    (auto simp: commit_batch_def Let_def split: sum.splits)

lemma last_write_stamp: "last_write (map (op_set_commit_ts ts) ops) k = last_write ops k"
  by (simp add: last_write_def filter_map comp_def Let_def last_map)

lemma demo_ok: "store_ok demo_store_codec (demo_storage script [demo_batches ! 0])"
  using demo_codec_ok(1) by (intro demo_store_ok) (auto simp: batch_codec_def)

lemma demo_script: "dir_script (st_dir (demo_storage script bs)) = script"
  by (simp add: demo_storage_def)

lemma demo_records: "st_records (demo_storage script bs) = log_records bs"
  by (simp add: demo_storage_def)

lemma demo_ts: "st_last_commit_ts (demo_storage script [demo_batches ! 0]) + 1 = 2"
  by (simp add: demo_storage_def log_ts_def demo_batches_def op_commit_ts_def)

lemma demo_stamped: "stamped (demo_batches ! 1) 2 = demo_batches ! 1" "stamped (demo_batches ! 5) 2 = demo_batches ! 5"
  by (simp_all add: stamped_def demo_batches_def op_set_commit_ts_def)

lemma demo_ops: "b_ops (demo_batches ! 1) \<noteq> []" "b_ops (demo_batches ! 5) \<noteq> []"
  by (simp_all add: demo_batches_def)

lemma demo_fits: "fits demo_store_codec (demo_storage script [demo_batches ! 0]) (demo_batches ! 1)"
    "fits demo_store_codec (demo_storage script [demo_batches ! 0]) (demo_batches ! 5)"
  using demo_codec_ok(2,6)
  by (simp_all add: fits_def demo_storage_def manifest_default_def seg_bytes_def file_of_def
      batch_encode_def demo_store_codec_def Let_def demo_batches_def)

lemma power_loss_refl: "power_loss d d"
  unfolding power_loss_def
proof
  fix p
  show "case file_of d p of None \<Rightarrow> file_of d p = None | Some b \<Rightarrow> \<exists>n\<ge>synced_len d p. file_of d p = Some (take n b)"
    by (cases "file_of d p") (auto intro: exI[of _ "max (synced_len d p) (length (the (file_of d p)))"])
qed

lemma append_all_synced:
  assumes "store_ok c st" "all_synced (st_dir st)" "append_batch c b ts st = (Inr (), st')" "st_sync_on_commit st"
  shows "all_synced (st_dir st')"
proof -
  obtain old where "file_of (st_dir st) (st_active st) = Some old" using assms(1) by (auto simp: store_ok_def)
  from append_batch_dir[OF assms(3) this] show ?thesis using assms(2,4) by (auto simp: all_synced_def)
qed

lemma demo_synced: "all_synced (st_dir (demo_storage script bs))"
  by (simp add: all_synced_def demo_storage_def synced_len_def file_of_def)

text \<open>C6. A commit from a consistent store, under any I/O fault, followed by a power loss.  \<open>store_ok\<close> says that the
  directory replays to the records in memory with nothing behind the last frame, so that no earlier write has
  failed; \<open>all_synced\<close> that the disk has it; \<open>fits\<close> that the codec round-trips the batch and the segment stays below 2^63
  bytes.  Whatever the fault and wherever the power loss cuts the files, the directory opens,
  and the batch is in it completely or not at all.  An acknowledged commit is in memory and leaves a consistent store, and
  with \<open>sync_on_commit\<close> it is in the directory and the directory is synced again; without it the power loss may take the
  commit.  A failed commit changes no record in memory.\<close>

theorem commit_atomic_durable:
  assumes "store_ok c st" "all_synced (st_dir st)" "b_ops b \<noteq> []" "fits c st (stamped b (st_last_commit_ts st + 1))"
    "commit_batch c b st = (r, st')" "power_loss (st_dir st') d"
  shows "\<exists>st2. reopen c d = Inr st2 \<and> st_catalog st2 = st_catalog st \<and>
    (same_records st2 (st_records st) \<or> same_records st2 (apply_batch (stamped b (st_last_commit_ts st + 1)) (st_records st))) \<and>
    (case r of
       Inr ts \<Rightarrow> ts = st_last_commit_ts st + 1 \<and> store_ok c st' \<and>
         st_records st' = apply_batch (stamped b ts) (st_records st) \<and>
         (st_sync_on_commit st \<longrightarrow> same_records st2 (st_records st') \<and> all_synced (st_dir st'))
     | Inl e \<Rightarrow> st_records st' = st_records st)"
proof -
  let ?ts = "st_last_commit_ts st + 1"
  let ?b = "stamped b ?ts"
  obtain r' where r': "append_batch c b ?ts st = (r', st')"
    "\<forall>e. r = Inl e \<longleftrightarrow> r' = Inl e" "\<forall>ts. r = Inr ts \<longleftrightarrow> r' = Inr () \<and> ts = ?ts"
    using commit_batch_append[OF assms(3,5)] by blast
  note f = assms(4)[unfolded fits_def] and mem = append_batch_mem[OF r'(1)]
  obtain bss t where d: "disk_ok c d (st_manifest st) (st_catalog st) bss t"
    "(\<forall>col i. chain_of (log_records (concat bss)) col i = chain_of (apply_batch ?b (st_records st)) col i) \<and> t = [] \<or>
     (r' \<noteq> Inr () \<or> \<not> st_sync_on_commit st) \<and> (\<forall>col i. chain_of (log_records (concat bss)) col i = chain_of (st_records st) col i)"
    using append_batch_power[OF assms(1) r'(1) _ _ assms(2,6)] f by blast
  obtain st2 where st2: "reopen c d = Inr st2" "st_catalog st2 = st_catalog st"
    "\<forall>col i. chain_of (st_records st2) col i = chain_of (log_records (concat bss)) col i"
    using reopen_ok[OF d(1)] by blast
  have either: "same_records st2 (apply_batch ?b (st_records st)) \<or>
      (r' \<noteq> Inr () \<or> \<not> st_sync_on_commit st) \<and> same_records st2 (st_records st)"
    using d(2) st2(3) by (auto simp: same_records_def)
  show ?thesis
  proof (cases r)
    case (Inl e)
    then have "r' \<noteq> Inr ()" using r'(2) by simp
    then show ?thesis using either mem(5) st2 Inl by auto
  next
    case (Inr ts)
    then have ok: "r' = Inr ()" "ts = ?ts" using r'(3) by auto
    have "store_ok c st'" by (rule append_batch_store[OF assms(1)]) (use r'(1) ok f in auto)
    moreover have "all_synced (st_dir st')" if "st_sync_on_commit st"
      using append_all_synced[OF assms(1,2)] r'(1) ok that by simp
    ultimately show ?thesis using either mem(4) st2 Inr ok by auto
  qed
qed

theorem commit_atomic_durable_witness:
  "\<exists>st' st2. commit_batch demo_store_codec (demo_batches ! 1) (demo_storage [] [demo_batches ! 0]) = (Inr 2, st') \<and>
     power_loss (st_dir st') (st_dir st') \<and> reopen demo_store_codec (st_dir st') = Inr st2 \<and> same_records st2 (st_records st')"
proof -
  let ?st = "demo_storage [] [demo_batches ! 0]" and ?b = "demo_batches ! 1"
  have "fst (commit_batch demo_store_codec ?b ?st) = Inr 2" by code_simp
  then obtain st' where c: "commit_batch demo_store_codec ?b ?st = (Inr 2, st')" by (metis surjective_pairing)
  have "power_loss (st_dir st') (st_dir st')" by (rule power_loss_refl)
  from commit_atomic_durable[OF demo_ok demo_synced demo_ops(1) _ c this, unfolded demo_ts demo_stamped, OF demo_fits(1)]
  obtain st2 where "reopen demo_store_codec (st_dir st') = Inr st2"
    "st_sync_on_commit ?st \<longrightarrow> same_records st2 (st_records st')" by auto
  moreover have "st_sync_on_commit ?st" by (simp add: demo_storage_def)
  ultimately show ?thesis using c power_loss_refl by blast
qed

text \<open>C7. Snapshot reads after a commit.  A reader at or after the commit timestamp sees the last
  write of the batch to a key, every earlier reader sees what it saw before, and the timestamp is new.\<close>

theorem commit_extends_history:
  assumes "store_ok c st" "commit_batch c b st = (Inr ts, st')"
  shows "get_as_of st' col i t =
      (case last_write (b_ops b) (col, i) of
         Some w \<Rightarrow> if ts \<le> t then w else get_as_of st col i t
       | None \<Rightarrow> get_as_of st col i t) \<and>
    storage_get st' col i =
      (case last_write (b_ops b) (col, i) of Some w \<Rightarrow> w | None \<Rightarrow> storage_get st col i) \<and>
    (b_ops b \<noteq> [] \<longrightarrow> st_last_commit_ts st < ts) \<and> st_last_commit_ts st' = ts"
proof (cases "b_ops b = []")
  case True
  then show ?thesis using assms(2) by (auto simp: commit_batch_def last_write_def)
next
  case False
  obtain r' where r': "append_batch c b (st_last_commit_ts st + 1) st = (r', st')" "r' = Inr ()" "ts = st_last_commit_ts st + 1"
    using commit_batch_append[OF False assms(2)] by blast
  have rec: "st_records st' = apply_batch (stamped b ts) (st_records st)" "st_last_commit_ts st' = ts"
    using append_batch_mem(4)[OF r'(1,2)] r'(3) by auto
  have wf: "v_commit_ts v < ts" if "v \<in> set (chain_of (st_records st) col i)" for v
    using assms(1) rec_wfD(4)[OF _ that] r'(3) by (force simp: store_ok_def)
  have "chain_of (st_records st') col i =
      (case last_write (b_ops b) (col, i) of None \<Rightarrow> chain_of (st_records st) col i
       | Some w \<Rightarrow> chain_of (st_records st) col i @ [\<lparr>v_commit_ts = ts, v_value = w\<rparr>])"
    using chain_of_apply_batch[of "st_records st" col i ts "b_ops (stamped b ts)"] wf
    by (auto simp: rec(1) apply_batch_def stamped_def last_write_stamp)
  then show ?thesis
    using r'(3) rec(2) by (auto simp: gets_chain_of visible_value_def latest_value_def visible_at_snoc chain_latest_def split: option.splits)
qed


theorem commit_extends_history_witness:
  "let st' = snd (commit_batch demo_store_codec (demo_batches ! 1) (demo_storage [] [demo_batches ! 0]))
   in get_as_of st' ''C'' 1 1 = Some (demo_record 1 1 10) \<and> get_as_of st' ''C'' 1 2 = Some (demo_record 1 2 20)"
proof -
  let ?st = "demo_storage [] [demo_batches ! 0]"
  have "fst (commit_batch demo_store_codec (demo_batches ! 1) ?st) = Inr 2" by code_simp
  then obtain st' where st': "commit_batch demo_store_codec (demo_batches ! 1) ?st = (Inr 2, st')" by (metis surjective_pairing)
  have w: "last_write (b_ops (demo_batches ! 1)) (''C'', 1) = Some (Some (demo_record 1 2 20))" by code_simp
  have "get_as_of ?st ''C'' 1 1 = Some (demo_record 1 1 10)" by code_simp
  then show ?thesis unfolding st' Let_def snd_conv using commit_extends_history[OF demo_ok st', of "''C''" 1] w by simp
qed

section \<open>Compaction and garbage collection\<close>

definition same_files :: "dir \<Rightarrow> dir \<Rightarrow> bool" where
  "same_files d d' \<longleftrightarrow> dir_files d = dir_files d' \<and> dir_synced d = dir_synced d'"

lemma fs_len_files: "fs_len p d = (r, d') \<Longrightarrow> same_files d' d"
  by (auto simp: fs_len_def same_files_def dest!: io_pop_fields split: prod.splits io_outcome.splits)

lemma segment_bytes_files: "segment_bytes ss d = (r, d') \<Longrightarrow> same_files d' d"
proof (induction ss arbitrary: d r d')
  case (Cons s ss)
  obtain r1 d1 where 1: "fs_len (segment_file_name s) d = (r1, d1)" by fastforce
  obtain r2 d2 where 2: "segment_bytes ss d1 = (r2, d2)" by fastforce
  from Cons.prems 1 2 have "d' = d1 \<or> d' = d2"
    by (cases r1; cases r2) (auto simp: io_bind_def io_return_def)
  then show ?case using fs_len_files[OF 1] Cons.IH[OF 2] by (auto simp: same_files_def)
qed (simp add: io_return_def same_files_def)

lemma reopen_files: "same_files d d' \<Longrightarrow> reopen c d = reopen c d'"
  by (cases d; cases d') (simp add: reopen_def same_files_def)

lemma rewrite_reopen:
  assumes "store_ok c st" "file_of d = file_of (st_dir st)" "rec_wf recs (st_last_commit_ts st)"
    "rewrite_segment c (st\<lparr>st_dir := d, st_records := recs\<rparr>) = (r, st')"
    "batch_codec c (rewritten_batch (st\<lparr>st_records := recs\<rparr>))" "manifest_codec c (rewritten_manifest st)"
  shows "st_records st' = recs"
    "\<exists>st2. reopen c (st_dir st') = Inr st2 \<and> st_catalog st2 = st_catalog st \<and> rec_wf (st_records st2) (st_last_commit_ts st2) \<and>
       (same_records st2 recs \<or> r \<noteq> Inr () \<and> same_records st2 (st_records st))"
    "r = Inr () \<Longrightarrow> store_ok c st'"
proof -
  let ?st = "st\<lparr>st_dir := d, st_records := recs\<rparr>"
  have eqs: "rewritten_batch ?st = rewritten_batch (st\<lparr>st_records := recs\<rparr>)" "rewritten_manifest ?st = rewritten_manifest st"
    by (simp_all add: rewritten_batch_def rewritten_manifest_def)
  obtain bss where bss: "disk_ok c (st_dir st) (st_manifest st) (st_catalog st) bss []"
    "\<forall>col i. chain_of (log_records (concat bss)) col i = chain_of (st_records st) col i"
    using assms(1) by (auto simp: store_ok_def)
  have d: "disk_ok c (st_dir ?st) (st_manifest ?st) (st_catalog st) bss []"
    using disk_frame[OF bss(1), of d] assms(2) by simp
  note R = rewrite_segment_disk[OF d _ assms(4), of "st_last_commit_ts st", unfolded eqs]
  have R': "st_records st' = recs" "st_last_commit_ts st' = st_last_commit_ts st" "st_catalog st' = st_catalog st"
    "disk_ok c (st_dir st') (st_manifest st) (st_catalog st) bss [] \<and> r \<noteq> Inr () \<or>
     disk_ok c (st_dir st') (rewritten_manifest st) (st_catalog st) [rewritten_log ?st] [] \<and>
     (r = Inr () \<longrightarrow> st_manifest st' = rewritten_manifest st \<and>
        st_active st' = segment_file_name (last (mf_segments (rewritten_manifest st))) \<and>
        file_of (st_dir st') (st_active st') \<noteq> None)"
    using R assms(3,5,6) by auto
  have log: "\<forall>col i. chain_of (log_records (concat [rewritten_log ?st])) col i = chain_of recs col i"
    using replay_rewritten[of ?st "st_last_commit_ts st"] assms(3) by simp
  show "st_records st' = recs" by (rule R'(1))
  show "\<exists>st2. reopen c (st_dir st') = Inr st2 \<and> st_catalog st2 = st_catalog st \<and> rec_wf (st_records st2) (st_last_commit_ts st2) \<and>
       (same_records st2 recs \<or> r \<noteq> Inr () \<and> same_records st2 (st_records st))"
    using R'(4) reopen_same[OF _ bss(2), of c "st_dir st'" "st_manifest st" "st_catalog st"]
      reopen_same[OF _ log, of c "st_dir st'" "rewritten_manifest st" "st_catalog st"] by blast
  assume "r = Inr ()"
  then show "store_ok c st'"
    using R' log assms(3) by (auto simp: store_ok_def intro!: exI[of _ "[rewritten_log ?st]"])
qed

text \<open>C9. Compaction under any I/O fault keeps the records: in memory, and after a restart from
  whatever it left on disk; when it succeeds one segment remains and the storage is consistent with it.\<close>

theorem compaction_crash_safe:
  assumes "store_ok c st" "batch_codec c (rewritten_batch st)" "manifest_codec c (rewritten_manifest st)"
    "storage_compact c st = (r, st')"
  shows "st_records st' = st_records st \<and>
    (\<exists>st2. reopen c (st_dir st') = Inr st2 \<and> same_records st2 (st_records st) \<and> st_catalog st2 = st_catalog st) \<and>
    (\<forall>rep. r = Inr rep \<longrightarrow> store_ok c st' \<and> length (mf_segments (st_manifest st')) = 1)"
proof -
  obtain r1 st1 where 1: "rewrite_segment c st = (r1, st1)" by fastforce
  have eq: "st\<lparr>st_dir := st_dir st, st_records := st_records st\<rparr> = st" "st\<lparr>st_records := st_records st\<rparr> = st" by simp_all
  have wf: "rec_wf (st_records st) (st_last_commit_ts st)" using assms(1) by (simp add: store_ok_def)
  note R = rewrite_reopen[OF assms(1) refl wf, unfolded eq, OF 1 assms(2,3)]
  have st': "st' = st1" "\<forall>rep. r = Inr rep \<longrightarrow> r1 = Inr ()"
    using assms(4) 1 by (auto simp: storage_compact_def Let_def split: sum.splits)
  have "length (mf_segments (st_manifest st1)) = 1" if "r1 = Inr ()"
    using 1 that by (auto simp: rewrite_segment_def Let_def split: prod.splits sum.splits)
  then show ?thesis using R st' by auto
qed

lemma demo_two_ok: "store_ok demo_store_codec (demo_storage script [demo_batches ! 0, demo_batches ! 1])"
proof (rule demo_store_ok)
  show "\<forall>b \<in> set [demo_batches ! 0, demo_batches ! 1]. batch_codec demo_store_codec b"
    using demo_codec_ok(1,2) by simp
  show "length (log_bytes demo_store_codec [demo_batches ! 0, demo_batches ! 1]) < 9223372036854775808"
    by (simp add: batch_encode_def demo_store_codec_def demo_batches_def Let_def)
qed

lemma demo_two_rewritten:
  "rewritten_batch (demo_storage script [demo_batches ! 0, demo_batches ! 1]) = demo_batches ! 4"
  "manifest_codec demo_store_codec (rewritten_manifest (demo_storage script [demo_batches ! 0, demo_batches ! 1]))"
proof -
  have "rewrite_ops (log_records [demo_batches ! 0, demo_batches ! 1]) = b_ops (demo_batches ! 4)" by code_simp
  then show "rewritten_batch (demo_storage script [demo_batches ! 0, demo_batches ! 1]) = demo_batches ! 4"
    by (simp add: rewritten_batch_def demo_storage_def) (simp add: demo_batches_def)
  show "manifest_codec demo_store_codec (rewritten_manifest (demo_storage script [demo_batches ! 0, demo_batches ! 1]))"
    by (simp add: manifest_codec_def demo_store_codec_def rewritten_manifest_def demo_storage_def manifest_default_def log_ts_def
      demo_batches_def op_commit_ts_def FORMAT_VERSION_def)
qed

theorem compaction_crash_safe_witness:
  "\<exists>st2. reopen demo_store_codec (st_dir (snd (storage_compact demo_store_codec
            (demo_storage [IoOk, IoFail 3] [demo_batches ! 0, demo_batches ! 1])))) = Inr st2 \<and>
     same_records st2 (log_records [demo_batches ! 0, demo_batches ! 1])"
  using compaction_crash_safe[OF demo_two_ok, unfolded demo_two_rewritten(1), OF demo_codec_ok(5) demo_two_rewritten(2),
      OF surjective_pairing, of "[IoOk, IoFail 3]"]
  by (auto simp: demo_records)

text \<open>The reads a collection keeps, over any record map with the collected or the original chains.\<close>

lemma gc_view:
  assumes "rec_wf (st_records st) ts" "cutoff \<le> t" "rec_wf (st_records s) ts'"
    "same_records s (gc_all cutoff keep (st_records st)) \<or> same_records s (st_records st)"
  shows "get_as_of s col i t = get_as_of st col i t \<and> scan_as_of s col t = scan_as_of st col t \<and>
    storage_get s col i = storage_get st col i"
proof -
  have gc: "visible_value t (chain_of (gc_all cutoff keep (st_records st)) col i) = visible_value t (chain_of (st_records st) col i)"
    "latest_value (chain_of (gc_all cutoff keep (st_records st)) col i) = latest_value (chain_of (st_records st) col i)" for i
    using gc_chain_visible[OF rec_wfD(3)[OF assms(1)] assms(2)] gc_chain_latest by (simp_all add: chain_of_gc[OF assms(1)])
  have eq: "visible_value t (chain_of (st_records s) col i) = visible_value t (chain_of (st_records st) col i)"
    "latest_value (chain_of (st_records s) col i) = latest_value (chain_of (st_records st) col i)" for i
    using assms(4) gc[of i] unfolding same_records_def by metis+
  have "live_in (visible_value t) (st_records s) col = live_in (visible_value t) (st_records st) col"
    by (rule live_in_cong[OF assms(3,1)]) (use visible_value_simps(1,3) eq(1) in auto)
  then show ?thesis using eq by (simp add: gets_chain_of scans_live_in)
qed

lemma storage_gc_steps:
  assumes "storage_gc c cutoff keep st = (r, st')"
  shows "st_records st' = st_records st \<and> same_files (st_dir st') (st_dir st) \<and> (\<exists>e. r = Inl e) \<or>
    (\<exists>d r1 st1. file_of d = file_of (st_dir st) \<and>
       rewrite_segment c (st\<lparr>st_dir := d, st_records := gc_all cutoff (max keep 1) (st_records st)\<rparr>) = (r1, st1) \<and>
       st_records st' = st_records st1 \<and> same_files (st_dir st') (st_dir st1))"
proof -
  let ?recs = "gc_all cutoff (max keep 1) (st_records st)"
  obtain r0 d where 0: "segment_bytes (mf_segments (st_manifest st)) (st_dir st) = (r0, d)" by fastforce
  note f0 = segment_bytes_files[OF 0]
  obtain r1 st1 where 1: "rewrite_segment c (st\<lparr>st_dir := d, st_records := ?recs\<rparr>) = (r1, st1)" by fastforce
  obtain r2 d2 where 2: "segment_bytes (mf_segments (st_manifest st1)) (st_dir st1) = (r2, d2)" by fastforce
  obtain x y where g: "gc_records cutoff (max keep 1) (st_records st) 0 0 = (?recs, x, y)"
    using gc_records_eq[of cutoff "max keep 1" "st_records st" 0 0] by blast
  show ?thesis
  proof (cases r0)
    case (Inl e)
    then show ?thesis using assms 0 f0 by (auto simp: storage_gc_def Let_def same_files_def)
  next
    case (Inr n)
    have "st_records st' = st_records st1 \<and> same_files (st_dir st') (st_dir st1)"
      using assms 0 1 2 g Inr segment_bytes_files[OF 2]
      by (cases r1; cases r2) (auto simp: storage_gc_def Let_def same_files_def)
    moreover have "file_of d = file_of (st_dir st)" using f0 by (simp add: same_files_def file_of_def)
    ultimately show ?thesis using 1 by blast
  qed
qed

text \<open>C8. Garbage collection with a cutoff changes no read at a timestamp at or after the cutoff and
  no read of the latest version, in memory and after a restart, whatever I/O call fails.\<close>

theorem gc_preserves_readers:
  assumes "store_ok c st" "storage_gc c cutoff keep st = (r, st')" "cutoff \<le> t"
    "batch_codec c (rewritten_batch (st\<lparr>st_records := gc_all cutoff (max keep 1) (st_records st)\<rparr>))"
    "manifest_codec c (rewritten_manifest st)"
  shows "get_as_of st' col i t = get_as_of st col i t \<and> scan_as_of st' col t = scan_as_of st col t \<and>
    storage_get st' col i = storage_get st col i \<and>
    (\<exists>st2. reopen c (st_dir st') = Inr st2 \<and> get_as_of st2 col i t = get_as_of st col i t \<and>
       scan_as_of st2 col t = scan_as_of st col t \<and> storage_get st2 col i = storage_get st col i)"
proof -
  let ?recs = "gc_all cutoff (max keep 1) (st_records st)"
  have wf: "rec_wf (st_records st) (st_last_commit_ts st)" using assms(1) by (simp add: store_ok_def)
  have wf': "rec_wf ?recs (st_last_commit_ts st)" by (rule rec_wf_gc[OF wf])
  obtain st2 where st2: "reopen c (st_dir st') = Inr st2" "rec_wf (st_records st2) (st_last_commit_ts st2)"
    "same_records st2 ?recs \<or> same_records st2 (st_records st)" "st_records st' = ?recs \<or> st_records st' = st_records st"
  proof (rule storage_gc_steps[OF assms(2), THEN disjE])
    assume a: "st_records st' = st_records st \<and> same_files (st_dir st') (st_dir st) \<and> (\<exists>e. r = Inl e)"
    obtain bss where "disk_ok c (st_dir st) (st_manifest st) (st_catalog st) bss []"
      "\<forall>col i. chain_of (log_records (concat bss)) col i = chain_of (st_records st) col i"
      using assms(1) by (auto simp: store_ok_def)
    from reopen_same[OF this] show thesis using that a reopen_files[of "st_dir st'" "st_dir st" c] by auto
  next
    assume "\<exists>d r1 st1. file_of d = file_of (st_dir st) \<and> rewrite_segment c (st\<lparr>st_dir := d, st_records := ?recs\<rparr>) = (r1, st1) \<and>
       st_records st' = st_records st1 \<and> same_files (st_dir st') (st_dir st1)"
    then obtain d r1 st1 where 1: "file_of d = file_of (st_dir st)"
      "rewrite_segment c (st\<lparr>st_dir := d, st_records := ?recs\<rparr>) = (r1, st1)"
      "st_records st' = st_records st1" "same_files (st_dir st') (st_dir st1)" by blast
    show thesis using rewrite_reopen(1,2)[OF assms(1) 1(1) wf' 1(2) assms(4,5)] that 1(3) reopen_files[OF 1(4), of c] by auto
  qed
  have m: "rec_wf (st_records st') (st_last_commit_ts st)" "same_records st' ?recs \<or> same_records st' (st_records st)"
    using st2(4) wf wf' by (auto simp: same_records_def)
  show ?thesis using gc_view[OF wf assms(3) m] gc_view[OF wf assms(3) st2(2,3)] st2(1) by simp
qed


lemma demo_gc:
  "rewrite_ops (gc_all 2 1 (log_records [demo_batches ! 0, demo_batches ! 1])) = b_ops (demo_batches ! 1)"
  by code_simp

theorem gc_preserves_readers_witness:
  "let st = demo_storage [IoOk, IoOk, IoFail 3] [demo_batches ! 0, demo_batches ! 1];
       st' = snd (storage_gc demo_store_codec 2 0 st)
   in get_as_of st' ''C'' 1 2 = Some (demo_record 1 2 20) \<and>
      (\<exists>st2. reopen demo_store_codec (st_dir st') = Inr st2 \<and> get_as_of st2 ''C'' 1 2 = Some (demo_record 1 2 20))"
proof -
  let ?st = "demo_storage [IoOk, IoOk, IoFail 3] [demo_batches ! 0, demo_batches ! 1]"
  have "rewritten_batch (?st\<lparr>st_records := gc_all 2 (max 0 1) (st_records ?st)\<rparr>) = demo_batches ! 1"
    using demo_gc by (simp add: rewritten_batch_def demo_records) (simp add: demo_storage_def demo_batches_def)
  then have "batch_codec demo_store_codec (rewritten_batch (?st\<lparr>st_records := gc_all 2 (max 0 1) (st_records ?st)\<rparr>))"
    using demo_codec_ok(2) by simp
  note T = gc_preserves_readers[OF demo_two_ok surjective_pairing order_refl this demo_two_rewritten(2), of "''C''" 1]
  have "get_as_of ?st ''C'' 1 2 = Some (demo_record 1 2 20)" by code_simp
  then show ?thesis using T by (auto simp: Let_def)
qed

lemma rewrite_segment_records: "rewrite_segment c st = (r, st') \<Longrightarrow> st_records st' = st_records st"
  by (auto simp: rewrite_segment_def Let_def split: prod.splits sum.splits)

text \<open>C24. The dry run of garbage collection predicts the collection: the same reclaimed versions, the
  same removed records, and the number of versions that are left.\<close>

theorem gc_preview_exact:
  assumes "storage_gc c cutoff keep st = (Inr rep, st')"
  shows "gr_versions_reclaimed rep = gr_versions_reclaimed (gc_preview st cutoff keep) \<and>
    gr_records_removed rep = gr_records_removed (gc_preview st cutoff keep) \<and>
    gr_versions_after rep = gr_versions_after (gc_preview st cutoff keep) \<and>
    gr_versions_after rep = total_versions (st_records st') \<and>
    gr_versions_after rep + gr_versions_reclaimed rep = total_versions (st_records st)"
proof -
  let ?recs = "gc_all cutoff (max keep 1) (st_records st)"
  obtain n where n: "gc_records cutoff (max keep 1) (st_records st) 0 0 = (?recs, total_versions (st_records st) - total_versions ?recs, n)"
    "total_versions ?recs \<le> total_versions (st_records st)"
    "\<forall>x y. fold (\<lambda>(c, m). fold (\<lambda>(i, ch). preview_chain cutoff (max keep 1) ch) m) (st_records st) (x, y) =
      (x + (total_versions (st_records st) - total_versions ?recs), y + n)"
    using gc_records_eq[of cutoff "max keep 1" "st_records st" 0 0] by auto
  obtain n0 d where 0: "segment_bytes (mf_segments (st_manifest st)) (st_dir st) = (Inr n0, d)"
    using assms by (auto simp: storage_gc_def Let_def split: prod.splits sum.splits)
  obtain st1 where 1: "rewrite_segment c (st\<lparr>st_dir := d, st_records := ?recs\<rparr>) = (Inr (), st1)"
    using assms 0 n(1) by (auto simp: storage_gc_def Let_def split: prod.splits sum.splits)
  obtain n2 d2 where 2: "segment_bytes (mf_segments (st_manifest st1)) (st_dir st1) = (Inr n2, d2)"
    using assms 0 1 n(1) by (auto simp: storage_gc_def Let_def split: prod.splits sum.splits)
  have "st_records st1 = ?recs" using rewrite_segment_records[OF 1] by simp
  then show ?thesis
    using assms 0 1 2 n by (auto simp: storage_gc_def gc_preview_def Let_def)
qed

theorem gc_preview_exact_witness:
  "let st = demo_storage [] [demo_batches ! 0, demo_batches ! 1]
   in map_sum id gr_versions_reclaimed (fst (storage_gc demo_store_codec 2 0 st)) = Inr 1 \<and> gr_versions_reclaimed (gc_preview st 2 0) = 1"
proof -
  let ?st = "demo_storage [] [demo_batches ! 0, demo_batches ! 1]"
  have g: "map_sum id gr_versions_reclaimed (fst (storage_gc demo_store_codec 2 0 ?st)) = Inr 1" by code_simp
  then obtain rep st' where "storage_gc demo_store_codec 2 0 ?st = (Inr rep, st')"
    by (cases "storage_gc demo_store_codec 2 0 ?st"; cases "fst (storage_gc demo_store_codec 2 0 ?st)") auto
  then show ?thesis using gc_preview_exact[of demo_store_codec 2 0 ?st rep st'] g by (simp add: Let_def)
qed

section \<open>Replicas\<close>

text \<open>A primary committing batches, and a replica applying a sequence of delivered entries.\<close>

fun commit_all :: "store_codec \<Rightarrow> batch list \<Rightarrow> storage \<Rightarrow> ((commit_ts \<times> batch) list \<times> storage) option" where
  "commit_all c [] st = Some ([], st)"
| "commit_all c (b # bs) st =
     (case commit_batch c b st of
        (Inl e, st) \<Rightarrow> None
      | (Inr ts, st) \<Rightarrow> map_option (\<lambda>(log, st). ((ts, b) # log, st)) (commit_all c bs st))"

fun deliver :: "store_codec \<Rightarrow> (commit_ts \<times> batch) list \<Rightarrow> storage \<Rightarrow> storage option" where
  "deliver c [] st = Some st"
| "deliver c (e # es) st =
     (case apply_committed_batch c (snd e) (fst e) st of (Inl _, st) \<Rightarrow> None | (Inr _, st) \<Rightarrow> deliver c es st)"

text \<open>Positions in which entries arrive, \<open>n\<close> of them applied before and \<open>m\<close> after: the next entry, or the last one
  again.\<close>

fun in_order :: "nat \<Rightarrow> nat list \<Rightarrow> nat \<Rightarrow> bool" where
  "in_order n [] m \<longleftrightarrow> n = m"
| "in_order n (k # ks) m \<longleftrightarrow> (k = n \<or> k + 1 = n) \<and> in_order (k + 1) ks m"

lemma in_order_le: "in_order n ks m \<Longrightarrow> n \<le> m"
  by (induction ks arbitrary: n) (auto dest: le_trans[OF _ order.refl] Suc_leD)

definition applied :: "(commit_ts \<times> batch) list \<Rightarrow> record_map \<Rightarrow> record_map" where
  "applied log recs = fold (\<lambda>(ts, b). apply_batch (stamped b ts)) log recs"

lemma commit_all_log:
  "commit_all c bs st = Some (log, st') \<Longrightarrow> \<forall>b \<in> set bs. b_ops b \<noteq> [] \<Longrightarrow>
   st_records st' = applied log (st_records st) \<and> st_last_commit_ts st' = st_last_commit_ts st + length log \<and>
   map snd log = bs \<and> (\<forall>n < length log. fst (log ! n) = st_last_commit_ts st + n + 1)"
proof (induction bs arbitrary: st log)
  case (Cons b bs)
  obtain ts st1 log' where 1: "commit_batch c b st = (Inr ts, st1)" "commit_all c bs st1 = Some (log', st')" "log = (ts, b) # log'"
    using Cons.prems(1) by (auto split: prod.splits sum.splits)
  have b: "b_ops b \<noteq> []" using Cons.prems(2) by simp
  obtain r where r: "append_batch c b (st_last_commit_ts st + 1) st = (r, st1)" "r = Inr ()" "ts = st_last_commit_ts st + 1"
    using commit_batch_append[OF b 1(1)] by blast
  note m = append_batch_mem(4)[OF r(1,2)]
  have IH: "st_records st' = applied log' (st_records st1)" "st_last_commit_ts st' = st_last_commit_ts st1 + length log'"
    "map snd log' = bs" "\<forall>n < length log'. fst (log' ! n) = st_last_commit_ts st1 + n + 1"
    using Cons.IH[OF 1(2)] Cons.prems(2) by auto
  show ?case using IH m r(3) 1(3) by (auto simp: applied_def nth_Cons split: nat.splits)
qed (simp add: applied_def)

lemma deliver_step:
  assumes "fst e = ts" "b_ops (snd e) \<noteq> []" "apply_committed_batch c (snd e) (fst e) st = (Inr u, st')"
  shows "ts \<le> st_last_commit_ts st \<Longrightarrow> st' = st"
    "st_last_commit_ts st < ts \<Longrightarrow> st_records st' = apply_batch (stamped (snd e) ts) (st_records st) \<and> st_last_commit_ts st' = ts"
  using assms append_batch_mem(4)[of c "snd e" ts st "Inr u" st'] by (auto simp: apply_committed_batch_def split: if_splits)

lemma deliver_log:
  assumes log: "\<forall>n < length log. fst (log ! n) = ts0 + n + 1" "\<forall>e \<in> set log. b_ops (snd e) \<noteq> []" "m \<le> length log"
  shows "in_order n ks m \<Longrightarrow> deliver c (map ((!) log) ks) st = Some st' \<Longrightarrow>
    st_records st = applied (take n log) recs \<Longrightarrow> st_last_commit_ts st = ts0 + n \<Longrightarrow>
    st_records st' = applied (take m log) recs \<and> st_last_commit_ts st' = ts0 + m"
proof (induction ks arbitrary: n st)
  case (Cons k ks)
  have k: "k = n \<or> k + 1 = n" "k < length log" "in_order (k + 1) ks m"
    using Cons.prems(1) in_order_le[of "k + 1" ks m] log(3) by auto
  obtain u st1 where 1: "apply_committed_batch c (snd (log ! k)) (fst (log ! k)) st = (Inr u, st1)"
    "deliver c (map ((!) log) ks) st1 = Some st'"
    using Cons.prems(2) by (auto split: prod.splits sum.splits)
  have "b_ops (snd (log ! k)) \<noteq> []" using k(2) log(2) by simp
  note s = deliver_step[OF _ this 1(1), of "ts0 + k + 1"]
  show ?case
  proof (cases "k + 1 = n")
    case True
    then have "st1 = st" using s(1) log(1) k(2) Cons.prems(4) by simp
    then show ?thesis using Cons.IH[of n st] Cons.prems(3,4) 1(2) k(3) True by simp
  next
    case False
    then have n: "k = n" using k(1) by simp
    then have "st_records st1 = apply_batch (stamped (snd (log ! n)) (ts0 + n + 1)) (st_records st) \<and> st_last_commit_ts st1 = ts0 + n + 1"
      using s(2) log(1) k(2) Cons.prems(4) by simp
    moreover have "take (Suc n) log = take n log @ [log ! n]" using k(2) n by (simp add: take_Suc_conv_app_nth)
    ultimately have "st_records st1 = applied (take (Suc n) log) recs" "st_last_commit_ts st1 = ts0 + Suc n"
      using Cons.prems(3) log(1) k(2) n by (simp_all add: applied_def case_prod_beta)
    then show ?thesis using Cons.IH[of "Suc n" st1] 1(2) k(3) n by simp
  qed
qed simp

lemma commit_all_take:
  "commit_all c bs st = Some (log, st') \<Longrightarrow>
   \<exists>st1. commit_all c (take m bs) st = Some (take m log, st1) \<and> (length bs \<le> m \<longrightarrow> st1 = st')"
proof (induction bs arbitrary: st log m)
  case (Cons b bs)
  obtain ts st1 log' where 1: "commit_batch c b st = (Inr ts, st1)" "commit_all c bs st1 = Some (log', st')" "log = (ts, b) # log'"
    using Cons.prems by (auto split: prod.splits sum.splits)
  then show ?case using Cons.IH[OF 1(2), of "m - 1"] by (cases m) auto
qed simp

text \<open>C10. A replica follows the primary.  It applies the entries of the primary's log in their order, each of them any
  number of times in a row, with the log position as the timestamp.  At every moment, after \<open>m\<close> entries, it has the records
  and the commit timestamp that the primary had after its first \<open>m\<close> commits.\<close>

theorem replica_converges:
  assumes "commit_all c bs st = Some (log, st')" "\<forall>b \<in> set bs. b_ops b \<noteq> []"
    "st_records rep = st_records st" "st_last_commit_ts rep = st_last_commit_ts st"
    "in_order 0 ks m" "m \<le> length log" "deliver c' (map ((!) log) ks) rep = Some rep'"
  shows "\<exists>st1. commit_all c (take m bs) st = Some (take m log, st1) \<and> (m = length bs \<longrightarrow> st1 = st') \<and>
    st_records rep' = st_records st1 \<and> st_last_commit_ts rep' = st_last_commit_ts st1"
proof -
  note L = commit_all_log[OF assms(1,2)]
  have "\<forall>e \<in> set log. b_ops (snd e) \<noteq> []" using L assms(2) by (metis image_eqI set_map)
  then have rep: "st_records rep' = applied (take m log) (st_records st) \<and> st_last_commit_ts rep' = st_last_commit_ts st + m"
    using deliver_log[of log "st_last_commit_ts st" m 0 ks c' rep rep' "st_records st"] L assms(3-7) by (simp add: applied_def)
  obtain st1 where st1: "commit_all c (take m bs) st = Some (take m log, st1)" "length bs \<le> m \<longrightarrow> st1 = st'"
    using commit_all_take[OF assms(1)] by blast
  have "\<forall>b \<in> set (take m bs). b_ops b \<noteq> []" using assms(2) set_take_subset by fast
  from commit_all_log[OF st1(1) this] show ?thesis using rep st1 assms(6) by auto
qed

theorem replica_converges_witness:
  "\<exists>log st' rep'. commit_all demo_store_codec [demo_batches ! 1, demo_batches ! 2] (demo_storage [] [demo_batches ! 0]) = Some (log, st') \<and>
     deliver demo_store_codec (map ((!) log) [0, 0, 1, 1]) (demo_storage [] [demo_batches ! 0]) = Some rep' \<and>
     st_records rep' = st_records st'"
proof -
  let ?st = "demo_storage [] [demo_batches ! 0]"
  have 1: "map_option (map fst \<circ> fst) (commit_all demo_store_codec [demo_batches ! 1, demo_batches ! 2] ?st) = Some [2, 3]" by code_simp
  then obtain log st' where l: "commit_all demo_store_codec [demo_batches ! 1, demo_batches ! 2] ?st = Some (log, st')" "length log = 2"
    by (auto simp: map_eq_Cons_conv)
  have b: "\<forall>b \<in> set [demo_batches ! 1, demo_batches ! 2]. b_ops b \<noteq> []" by (simp add: demo_batches_def)
  have "case commit_all demo_store_codec [demo_batches ! 1, demo_batches ! 2] ?st of None \<Rightarrow> False
     | Some (log, st') \<Rightarrow> deliver demo_store_codec (map ((!) log) [0, 0, 1, 1]) ?st \<noteq> None" by code_simp
  then obtain rep' where "deliver demo_store_codec (map ((!) log) [0, 0, 1, 1]) ?st = Some rep'" using l by auto
  then show ?thesis using replica_converges[OF l(1) b refl refl, of "[0, 0, 1, 1]" 2] l by fastforce
qed

section \<open>A defect: a commit after a failed write is lost\<close>

text \<open>C23. A defect.  A write fails after at least the frame header, the next, smaller commit succeeds
  and is acknowledged; a restart takes both for a torn tail, so the acknowledged commit is lost.\<close>

theorem acknowledged_commit_lost:
  assumes "store_ok c st" "dir_script (st_dir st) = [IoFail k]" "12 \<le> k" "b_ops b1 \<noteq> []" "b_ops b2 \<noteq> []"
    "fits c st (stamped b1 (st_last_commit_ts st + 1))"
    "k + length (batch_encode c (stamped b2 (st_last_commit_ts st + 1))) < length (batch_encode c (stamped b1 (st_last_commit_ts st + 1)))"
  shows "\<exists>st1 st2 st3. commit_batch c b1 st = (Inl EIo, st1) \<and>
    commit_batch c b2 st1 = (Inr (st_last_commit_ts st + 1), st2) \<and>
    st_records st2 = apply_batch (stamped b2 (st_last_commit_ts st + 1)) (st_records st) \<and>
    reopen c (st_dir st2) = Inr st3 \<and> same_records st3 (st_records st)"
proof -
  let ?f1 = "batch_encode c (stamped b1 (st_last_commit_ts st + 1))" and ?f2 = "batch_encode c (stamped b2 (st_last_commit_ts st + 1))"
  let ?m = "st_manifest st"
  obtain bss where bss: "disk_ok c (st_dir st) ?m (st_catalog st) bss []"
    "\<forall>col i. chain_of (log_records (concat bss)) col i = chain_of (st_records st) col i"
    using assms(1) by (auto simp: store_ok_def)
  obtain old where old: "st_active st = segment_file_name (last (mf_segments ?m))" "file_of (st_dir st) (st_active st) = Some old"
    using assms(1) by (auto simp: store_ok_def)
  define d1 where "d1 = (st_dir st)\<lparr>dir_files := om_insert (st_active st) (old @ take k ?f1) (dir_files (st_dir st)), dir_script := []\<rparr>"
  define d2 where "d2 = d1\<lparr>dir_files := om_insert (st_active st) (old @ take k ?f1 @ ?f2) (dir_files d1),
    dir_synced := (if st_sync_on_commit st
      then om_insert (st_active st) (length (old @ take k ?f1 @ ?f2)) (dir_synced d1) else dir_synced d1)\<rparr>"
  have 1: "commit_batch c b1 st = (Inl EIo, st\<lparr>st_dir := d1\<rparr>)"
    using assms(2,4) old(2)
    by (simp add: commit_batch_def append_batch_def Let_def io_bind_def fs_append_all_def file_append_def io_pop_def stamped_def d1_def file_of_def)
  have 2: "\<exists>st2. commit_batch c b2 (st\<lparr>st_dir := d1\<rparr>) = (Inr (st_last_commit_ts st + 1), st2) \<and> st_dir st2 = d2 \<and>
      st_records st2 = apply_batch (stamped b2 (st_last_commit_ts st + 1)) (st_records st)"
    using assms(5)
    by (auto simp: commit_batch_def append_batch_def Let_def io_bind_def io_return_def fs_append_all_def file_append_def fs_sync_def io_pop_def stamped_def d1_def d2_def file_of_def)
  have t: "torn_tail (take k ?f1 @ ?f2)" using torn_prefix[of c _ k ?f2] assms(3,6,7) by (simp add: fits_def)
  have f: "file_of d2 = (file_of (st_dir st))(segment_file_name (last (mf_segments ?m)) \<mapsto>
      seg_bytes (st_dir st) (last (mf_segments ?m)) @ log_bytes c [] @ take k ?f1 @ ?f2)"
    using old by (auto simp: d1_def d2_def file_of_def seg_bytes_def fun_eq_iff)
  have "bss \<noteq> []" using bss(1) segs_hold_ne[of c "st_dir st" "mf_segments ?m" bss "[]"] by (simp add: disk_ok_def)
  moreover have "disk_ok c d2 ?m (st_catalog st) (butlast bss @ [last bss @ []]) (take k ?f1 @ ?f2)"
    by (rule disk_append[OF bss(1) f t]) (use assms(6,7) in \<open>auto simp: fits_def\<close>)
  ultimately have "disk_ok c d2 ?m (st_catalog st) bss (take k ?f1 @ ?f2)" by simp
  from reopen_same[OF this bss(2)] show ?thesis using 1 2 by blast
qed

theorem acknowledged_commit_lost_witness:
  "\<exists>st1 st2 st3. commit_batch demo_store_codec (demo_batches ! 5) (demo_storage [IoFail 12] [demo_batches ! 0]) = (Inl EIo, st1) \<and>
     commit_batch demo_store_codec (demo_batches ! 1) st1 = (Inr 2, st2) \<and>
     reopen demo_store_codec (st_dir st2) = Inr st3 \<and> same_records st3 (log_records [demo_batches ! 0])"
proof -
  let ?st = "demo_storage [IoFail 12] [demo_batches ! 0]"
  have "12 + length (batch_encode demo_store_codec (demo_batches ! 1)) < length (batch_encode demo_store_codec (demo_batches ! 5))"
    by (simp add: batch_encode_def demo_store_codec_def demo_batches_def Let_def)
  then have "\<exists>st1 st2 st3. commit_batch demo_store_codec (demo_batches ! 5) ?st = (Inl EIo, st1) \<and>
     commit_batch demo_store_codec (demo_batches ! 1) st1 = (Inr 2, st2) \<and>
     st_records st2 = apply_batch (demo_batches ! 1) (st_records ?st) \<and>
     reopen demo_store_codec (st_dir st2) = Inr st3 \<and> same_records st3 (st_records ?st)"
    by (intro acknowledged_commit_lost[of demo_store_codec ?st 12 "demo_batches ! 5" "demo_batches ! 1", unfolded demo_ts demo_stamped]
        demo_ok demo_ops demo_fits demo_script) simp_all
  then show ?thesis unfolding demo_records by blast
qed

end
