(* ===== verification/Query_Eval.thy ===== *)
theory Query_Eval
  imports Core
begin

text \<open>
  Filters and their evaluation (\<open>auradb-query\<close>: \<open>ir.rs\<close>, \<open>eval.rs\<close>).  Tokenising uses the
  Unicode tables of the standard library; the tokeniser is the argument \<open>tok\<close>.
\<close>

datatype compare_op = OpEq | OpNe | OpLt | OpLte | OpGt | OpGte | OpIn

datatype filter_t =
    FilterAnd "filter_t list"
  | FilterOr "filter_t list"
  | FilterNot filter_t
  | FilterCompare string compare_op aura_value
  | FilterContains string string
  | FilterExists string
  | FilterContainsText string string

datatype mutation =
    Insert string document
  | BulkInsert string "document list"
  | Update string "filter_t option" document
  | Delete string "filter_t option"
  | Upsert string document

definition mutation_collection :: "mutation \<Rightarrow> string" where
  "mutation_collection m =
     (case m of Insert c _ \<Rightarrow> c | BulkInsert c _ \<Rightarrow> c | Update c _ _ \<Rightarrow> c | Delete c _ \<Rightarrow> c | Upsert c _ \<Rightarrow> c)"

record mutation_result =
  mr_inserted :: nat
  mr_updated :: nat
  mr_deleted :: nat
  mr_ids :: "string list"

definition mutation_result_empty :: mutation_result where
  "mutation_result_empty = \<lparr>mr_inserted = 0, mr_updated = 0, mr_deleted = 0, mr_ids = []\<rparr>"

section \<open>Comparison\<close>

definition is_number :: "aura_value \<Rightarrow> bool" where
  "is_number v = (case v of VInt _ \<Rightarrow> True | VFloat _ \<Rightarrow> True | _ \<Rightarrow> False)"

definition values_equal :: "aura_value \<Rightarrow> aura_value \<Rightarrow> bool" where
  "values_equal a b =
     (if is_number a \<and> is_number b
      then (case (as_f64 a, as_f64 b) of (Some x, Some y) \<Rightarrow> f64_eq x y | _ \<Rightarrow> False)
      else (case (a, b) of
              (VTimestamp x, VInt y) \<Rightarrow> x = y
            | (VInt y, VTimestamp x) \<Rightarrow> x = y
            | _ \<Rightarrow> value_eq a b))"

definition value_order :: "aura_value \<Rightarrow> aura_value \<Rightarrow> cmp_ordering option" where
  "value_order a b =
     (if is_number a \<and> is_number b
      then (case (as_f64 a, as_f64 b) of (Some x, Some y) \<Rightarrow> f64_partial_cmp x y | _ \<Rightarrow> None)
      else (case (a, b) of
              (VTimestamp x, VTimestamp y) \<Rightarrow> Some (cmp_of (sint x) (sint y))
            | (VTimestamp x, VInt y) \<Rightarrow> Some (cmp_of (sint x) (sint y))
            | (VInt x, VTimestamp y) \<Rightarrow> Some (cmp_of (sint x) (sint y))
            | (VText x, VText y) \<Rightarrow> Some (cmp_of x y)
            | (VBool x, VBool y) \<Rightarrow> Some (cmp_of x y)
            | (VNull, VNull) \<Rightarrow> Some Equal
            | _ \<Rightarrow> None))"

definition compare :: "aura_value \<Rightarrow> compare_op \<Rightarrow> aura_value \<Rightarrow> bool" where
  "compare actual op expected =
     (case op of
        OpEq \<Rightarrow> values_equal actual expected
      | OpNe \<Rightarrow> \<not> values_equal actual expected
      | OpIn \<Rightarrow> (case expected of VArray items \<Rightarrow> list_ex (values_equal actual) items | _ \<Rightarrow> False)
      | OpLt \<Rightarrow> value_order actual expected = Some Less
      | OpLte \<Rightarrow> value_order actual expected \<in> {Some Less, Some Equal}
      | OpGt \<Rightarrow> value_order actual expected = Some Greater
      | OpGte \<Rightarrow> value_order actual expected \<in> {Some Greater, Some Equal})"

section \<open>Filters\<close>

fun starts_with :: "string \<Rightarrow> string \<Rightarrow> bool" where
  "starts_with s [] = True"
| "starts_with s (c # cs) = (case s of [] \<Rightarrow> False | d # ds \<Rightarrow> c = d \<and> starts_with ds cs)"

text \<open>\<open>str::contains\<close>.\<close>

fun str_contains :: "string \<Rightarrow> string \<Rightarrow> bool" where
  "str_contains [] sub = (sub = [])"
| "str_contains (c # cs) sub = (starts_with (c # cs) sub \<or> str_contains cs sub)"

definition path_text :: "record_t \<Rightarrow> string \<Rightarrow> string option" where
  "path_text r field = Option.bind (record_get_path r field) as_text"

definition contains_text :: "(string \<Rightarrow> string list) \<Rightarrow> string \<Rightarrow> string \<Rightarrow> bool" where
  "contains_text tok text query =
     (let terms = remdups_adj (sort (tok query))
      in if terms = [] then False else list_all (\<lambda>t. t \<in> set (tok text)) terms)"

fun matches :: "(string \<Rightarrow> string list) \<Rightarrow> record_t \<Rightarrow> filter_t \<Rightarrow> bool" where
  "matches tok r (FilterAnd fs) = list_all (matches tok r) fs"
| "matches tok r (FilterOr fs) = list_ex (matches tok r) fs"
| "matches tok r (FilterNot f) = (\<not> matches tok r f)"
| "matches tok r (FilterExists field) =
     (case record_get_path r field of Some v \<Rightarrow> \<not> is_null v | None \<Rightarrow> False)"
| "matches tok r (FilterContains field sub) =
     (case path_text r field of Some s \<Rightarrow> str_contains s sub | None \<Rightarrow> False)"
| "matches tok r (FilterCompare field op v) =
     (case record_get_path r field of Some actual \<Rightarrow> compare actual op v | None \<Rightarrow> False)"
| "matches tok r (FilterContainsText field q) =
     (case path_text r field of Some text \<Rightarrow> contains_text tok text q | None \<Rightarrow> False)"

text \<open>An absent filter matches every record.\<close>

definition matches_opt :: "(string \<Rightarrow> string list) \<Rightarrow> filter_t option \<Rightarrow> record_t \<Rightarrow> bool" where
  "matches_opt tok flt r = (case flt of None \<Rightarrow> True | Some f \<Rightarrow> matches tok r f)"

end
