(* ===== verification/Vector_Types.thy ===== *)
theory Vector_Types
  imports Query_Eval
begin

text \<open>
  The data of approximate vector search that a collection's indexes hold: the metrics of \<open>metric.rs\<close>, the graph of \<open>hnsw.rs\<close>
  with its parameters, and the cache of graphs of \<open>CollectionIndexes\<close>.
\<close>

datatype metric = Cosine | Euclidean | DotProduct

record hnsw_params =
  hp_m :: nat
  hp_ef_construction :: nat

text \<open>A node is its list of adjacency lists, one per layer.\<close>

record hnsw =
  hn_metric :: metric
  hn_params :: hnsw_params
  hn_ids :: "record_id list"
  hn_vectors :: "f32 list list"
  hn_nodes :: "nat list list list"
  hn_entry :: "nat option"
  hn_max_layer :: nat
  hn_rng :: u64

text \<open>The cache of graphs, keyed by the field, the metric name and the parameters.\<close>

type_synonym ann_cache = "(string \<times> string \<times> nat \<times> nat, hnsw) omap"

end
