(* ===== verification/Index.thy ===== *)
theory Index
  imports Vector_Types
begin

text \<open>
  The in-memory indexes of a collection (\<open>auradb-index\<close>): unique and secondary maps keyed by
  the JSON text of a value, document-path maps, inverted text indexes and exact vector
  indexes.  The tokeniser and \<open>serde_json\<close> are the environment \<open>index_env\<close>.  Token and term
  counters are natural numbers.  The cache of approximate graphs is part of the state and every change of the vectors
  empties it; the graphs themselves are in \<open>Hnsw\<close>.
\<close>

record 'n index_env =
  ie_json :: "'n json_ops"
  ie_tokenize :: "string \<Rightarrow> string list"

section \<open>Keys and fingerprints\<close>

unbundle bit_operations_syntax

definition FNV64_OFFSET :: u64 where
  "FNV64_OFFSET = 0xcbf29ce484222325"

definition FNV64_PRIME :: u64 where
  "FNV64_PRIME = 0x100000001b3"

definition fnv64_byte :: "u8 \<Rightarrow> u64 \<Rightarrow> u64" where
  "fnv64_byte b h = (h XOR ucast b) * FNV64_PRIME"

text \<open>\<open>to_le_bytes\<close> of the version counter, a \<open>u64\<close>.\<close>

definition version_bytes :: "nat \<Rightarrow> u8 list" where
  "version_bytes v = rev (be_bytes 8 v)"

definition fingerprint :: "record_t list \<Rightarrow> u64" where
  "fingerprint records =
     fold (\<lambda>r h. fold fnv64_byte (version_bytes (rec_version r)) (fold fnv64_byte (record_id_to_bytes (rec_id r)) h))
       records FNV64_OFFSET"

definition index_key :: "'n index_env \<Rightarrow> aura_value \<Rightarrow> string" where
  "index_key E v =
     (case json_to_string (ie_json E) (to_json (ie_json E) v) of Some s \<Rightarrow> s | None \<Rightarrow> [])"

section \<open>Inverted text index\<close>

record text_index =
  ti_postings :: "(string, (record_id, nat) omap) omap"
  ti_doc_lengths :: "(record_id, nat) omap"
  ti_total_tokens :: nat

definition text_index_default :: text_index where
  "text_index_default = \<lparr>ti_postings = [], ti_doc_lengths = [], ti_total_tokens = 0\<rparr>"

definition posting_add :: "record_id \<Rightarrow> string \<Rightarrow> (string, (record_id, nat) omap) omap \<Rightarrow> (string, (record_id, nat) omap) omap" where
  "posting_add i term = om_entry term [] (om_entry i 0 Suc)"

definition text_add :: "'n index_env \<Rightarrow> record_id \<Rightarrow> string \<Rightarrow> text_index \<Rightarrow> text_index" where
  "text_add E i text ti =
     (let terms = ie_tokenize E text; len = length terms;
          ti = ti\<lparr>ti_postings := fold (posting_add i) terms (ti_postings ti)\<rparr>
      in if 0 < len
         then ti\<lparr>ti_doc_lengths := om_entry i 0 (\<lambda>n. n + len) (ti_doc_lengths ti),
                 ti_total_tokens := ti_total_tokens ti + len\<rparr>
         else ti)"

definition posting_remove :: "record_id \<Rightarrow> string \<Rightarrow> (string, (record_id, nat) omap) omap \<Rightarrow> (string, (record_id, nat) omap) omap" where
  "posting_remove i term m =
     (case om_get m term of
        None \<Rightarrow> m
      | Some p \<Rightarrow> (let p = om_remove i p in if p = [] then om_remove term m else om_insert term p m))"

definition text_remove :: "'n index_env \<Rightarrow> record_id \<Rightarrow> string \<Rightarrow> text_index \<Rightarrow> text_index" where
  "text_remove E i text ti =
     (let terms = ie_tokenize E text; len = length terms;
          ti = ti\<lparr>ti_postings := fold (posting_remove i) terms (ti_postings ti)\<rparr>
      in case om_get (ti_doc_lengths ti) i of
           None \<Rightarrow> ti
         | Some existing \<Rightarrow>
             ti\<lparr>ti_total_tokens := ti_total_tokens ti - min len existing,
                ti_doc_lengths :=
                  (if existing \<le> len then om_remove i (ti_doc_lengths ti)
                   else om_insert i (existing - len) (ti_doc_lengths ti))\<rparr>)"

definition doc_count :: "text_index \<Rightarrow> nat" where
  "doc_count ti = length (ti_doc_lengths ti)"

definition rebuild_lengths :: "text_index \<Rightarrow> text_index" where
  "rebuild_lengths ti =
     (let lengths = fold (\<lambda>m acc. fold (\<lambda>(i, tf). om_entry i 0 (\<lambda>n. n + tf)) m acc) (om_values (ti_postings ti)) []
      in ti\<lparr>ti_total_tokens := sum_list (om_values lengths), ti_doc_lengths := lengths\<rparr>)"

section \<open>Collection indexes\<close>

record exact_vector_index =
  vi_dim :: nat
  vi_entries :: "(record_id, f32 list) omap"

definition vector_index_new :: "nat \<Rightarrow> exact_vector_index" where
  "vector_index_new dim = \<lparr>vi_dim = dim, vi_entries = []\<rparr>"

type_synonym unique_map = "(string, record_id) omap"
type_synonym posting_map = "(string, record_id list) omap"

record hnsw_metadata =
  hm_field :: string
  hm_dim :: nat
  hm_vector_count :: nat
  hm_generation :: u64

record collection_indexes =
  ci_primary_field :: "string option"
  ci_unique_fields :: "string list"
  ci_secondary_fields :: "string list"
  ci_unique_maps :: "(string, unique_map) omap"
  ci_secondary_maps :: "(string, posting_map) omap"
  ci_doc_path_maps :: "(string, posting_map) omap"
  ci_text_maps :: "(string, text_index) omap"
  ci_vector_maps :: "(string, exact_vector_index) omap"
  ci_loaded_ann_metadata :: "hnsw_metadata list"
  ci_ann_cache :: ann_cache

text \<open>One iteration of \<open>from_schema\<close> over the fields.\<close>

definition index_field :: "field_def \<Rightarrow> collection_indexes \<Rightarrow> collection_indexes" where
  "index_field f ci =
     (let ci = (if fd_primary_key f then ci\<lparr>ci_primary_field := Some (fd_name f)\<rparr> else ci);
          ci = (if fd_primary_key f \<or> fd_unique f
                then ci\<lparr>ci_unique_fields := ci_unique_fields ci @ [fd_name f],
                        ci_unique_maps := om_insert (fd_name f) [] (ci_unique_maps ci)\<rparr>
                else if fd_indexed f
                then ci\<lparr>ci_secondary_fields := ci_secondary_fields ci @ [fd_name f],
                        ci_secondary_maps := om_insert (fd_name f) [] (ci_secondary_maps ci)\<rparr>
                else ci)
      in case fd_field_type f of
           FVector dim \<Rightarrow> ci\<lparr>ci_vector_maps := om_insert (fd_name f) (vector_index_new dim) (ci_vector_maps ci)\<rparr>
         | _ \<Rightarrow> ci)"

definition indexes_from_schema :: "collection_schema \<Rightarrow> collection_indexes" where
  "indexes_from_schema s =
     (let ci = fold index_field (cs_fields s)
                 \<lparr>ci_primary_field = None, ci_unique_fields = [], ci_secondary_fields = [], ci_unique_maps = [],
                  ci_secondary_maps = [], ci_doc_path_maps = [], ci_text_maps = [], ci_vector_maps = [], ci_loaded_ann_metadata = [],
                  ci_ann_cache = []\<rparr>
      in ci\<lparr>ci_doc_path_maps := fold (\<lambda>p. om_entry p [] id) (document_path_indexes s) [],
            ci_text_maps := fold (\<lambda>p. om_entry p text_index_default id) (full_text_indexes s) []\<rparr>)"

definition has_equality_index :: "collection_indexes \<Rightarrow> string \<Rightarrow> bool" where
  "has_equality_index ci field \<longleftrightarrow>
     om_get (ci_unique_maps ci) field \<noteq> None \<or> om_get (ci_secondary_maps ci) field \<noteq> None \<or>
     om_get (ci_doc_path_maps ci) field \<noteq> None"

definition has_text_index :: "collection_indexes \<Rightarrow> string \<Rightarrow> bool" where
  "has_text_index ci field \<longleftrightarrow> om_get (ci_text_maps ci) field \<noteq> None"

definition vector_dim :: "collection_indexes \<Rightarrow> string \<Rightarrow> nat option" where
  "vector_dim ci field = map_option vi_dim (om_get (ci_vector_maps ci) field)"

definition text_field_names :: "collection_indexes \<Rightarrow> string list" where
  "text_field_names ci = om_keys (ci_text_maps ci)"

definition vector_field_stats :: "collection_indexes \<Rightarrow> (string \<times> nat \<times> nat) list" where
  "vector_field_stats ci = map (\<lambda>(field, vi). (field, vi_dim vi, length (vi_entries vi))) (ci_vector_maps ci)"

definition vector_len :: "collection_indexes \<Rightarrow> string \<Rightarrow> nat option" where
  "vector_len ci field = map_option (\<lambda>v. length (vi_entries v)) (om_get (ci_vector_maps ci) field)"

section \<open>Maintenance\<close>

definition invalidate_ann_cache :: "collection_indexes \<Rightarrow> collection_indexes" where
  "invalidate_ann_cache ci = ci\<lparr>ci_ann_cache := []\<rparr>"

text \<open>\<open>self.unique_maps[field]\<close> panics when the field has no map.\<close>

fun check_unique_fields ::
  "'n index_env \<Rightarrow> collection_indexes \<Rightarrow> record_t \<Rightarrow> record_id option \<Rightarrow> string list \<Rightarrow> unit eresult" where
  "check_unique_fields E ci r replacing [] = Inr ()"
| "check_unique_fields E ci r replacing (field # fs) =
     (case om_get (rec_fields r) field of
        None \<Rightarrow> check_unique_fields E ci r replacing fs
      | Some value \<Rightarrow>
          if is_null value then check_unique_fields E ci r replacing fs
          else
            case om_get (ci_unique_maps ci) field of
              None \<Rightarrow> Inl Panic
            | Some m \<Rightarrow>
                (case om_get m (index_key E value) of
                   None \<Rightarrow> check_unique_fields E ci r replacing fs
                 | Some existing \<Rightarrow>
                     if Some existing \<noteq> replacing \<and> existing \<noteq> rec_id r then Inl (Err EUniqueViolation)
                     else check_unique_fields E ci r replacing fs))"

definition check_unique ::
  "'n index_env \<Rightarrow> collection_indexes \<Rightarrow> record_t \<Rightarrow> record_id option \<Rightarrow> unit eresult" where
  "check_unique E ci r replacing = check_unique_fields E ci r replacing (ci_unique_fields ci)"

definition unique_insert :: "'n index_env \<Rightarrow> record_t \<Rightarrow> string \<Rightarrow> unique_map \<Rightarrow> unique_map" where
  "unique_insert E r field m =
     (case om_get (rec_fields r) field of
        Some v \<Rightarrow> if is_null v then m else om_insert (index_key E v) (rec_id r) m
      | None \<Rightarrow> m)"

text \<open>The two kinds of posting maps differ in how they read the value.\<close>

definition posting_insert :: "'n index_env \<Rightarrow> record_id \<Rightarrow> aura_value option \<Rightarrow> posting_map \<Rightarrow> posting_map" where
  "posting_insert E i value m =
     (case value of
        Some v \<Rightarrow> if is_null v then m else om_entry (index_key E v) [] (\<lambda>ids. ids @ [i]) m
      | None \<Rightarrow> m)"

definition vector_insert :: "record_t \<Rightarrow> string \<Rightarrow> exact_vector_index \<Rightarrow> exact_vector_index" where
  "vector_insert r field vi =
     (case om_get (rec_fields r) field of
        Some (VVector v) \<Rightarrow> vi\<lparr>vi_entries := om_insert (rec_id r) v (vi_entries vi)\<rparr>
      | _ \<Rightarrow> vi)"

definition text_insert :: "'n index_env \<Rightarrow> record_t \<Rightarrow> string \<Rightarrow> text_index \<Rightarrow> text_index" where
  "text_insert E r field ti =
     (case om_get (rec_fields r) field of Some (VText s) \<Rightarrow> text_add E (rec_id r) s ti | _ \<Rightarrow> ti)"

definition index_insert :: "'n index_env \<Rightarrow> record_t \<Rightarrow> collection_indexes \<Rightarrow> collection_indexes" where
  "index_insert E r ci =
     (let ci = invalidate_ann_cache ci in
      ci\<lparr>ci_unique_maps := om_map (unique_insert E r) (ci_unique_maps ci),
         ci_secondary_maps := om_map (\<lambda>f. posting_insert E (rec_id r) (om_get (rec_fields r) f)) (ci_secondary_maps ci),
         ci_doc_path_maps := om_map (\<lambda>p. posting_insert E (rec_id r) (record_get_path r p)) (ci_doc_path_maps ci),
         ci_vector_maps := om_map (vector_insert r) (ci_vector_maps ci),
         ci_text_maps := om_map (text_insert E r) (ci_text_maps ci)\<rparr>)"

definition unique_remove :: "'n index_env \<Rightarrow> record_t \<Rightarrow> string \<Rightarrow> unique_map \<Rightarrow> unique_map" where
  "unique_remove E r field m =
     (case om_get (rec_fields r) field of
        Some v \<Rightarrow> if om_get m (index_key E v) = Some (rec_id r) then om_remove (index_key E v) m else m
      | None \<Rightarrow> m)"

definition posting_delete :: "'n index_env \<Rightarrow> record_id \<Rightarrow> aura_value option \<Rightarrow> posting_map \<Rightarrow> posting_map" where
  "posting_delete E i value m =
     (case value of
        Some v \<Rightarrow>
          (case om_get m (index_key E v) of
             Some ids \<Rightarrow> om_insert (index_key E v) (filter (\<lambda>j. j \<noteq> i) ids) m
           | None \<Rightarrow> m)
      | None \<Rightarrow> m)"

definition vector_remove :: "record_id \<Rightarrow> exact_vector_index \<Rightarrow> exact_vector_index" where
  "vector_remove i vi = vi\<lparr>vi_entries := om_remove i (vi_entries vi)\<rparr>"

definition text_delete :: "'n index_env \<Rightarrow> record_t \<Rightarrow> string \<Rightarrow> text_index \<Rightarrow> text_index" where
  "text_delete E r field ti =
     (case om_get (rec_fields r) field of Some (VText s) \<Rightarrow> text_remove E (rec_id r) s ti | _ \<Rightarrow> ti)"

definition index_remove :: "'n index_env \<Rightarrow> record_t \<Rightarrow> collection_indexes \<Rightarrow> collection_indexes" where
  "index_remove E r ci =
     (let ci = invalidate_ann_cache ci in
      ci\<lparr>ci_unique_maps := om_map (unique_remove E r) (ci_unique_maps ci),
         ci_secondary_maps := om_map (\<lambda>f. posting_delete E (rec_id r) (om_get (rec_fields r) f)) (ci_secondary_maps ci),
         ci_doc_path_maps := om_map (\<lambda>p. posting_delete E (rec_id r) (record_get_path r p)) (ci_doc_path_maps ci),
         ci_vector_maps := om_map (\<lambda>_. vector_remove (rec_id r)) (ci_vector_maps ci),
         ci_text_maps := om_map (text_delete E r) (ci_text_maps ci)\<rparr>)"

section \<open>Lookups\<close>

definition lookup_eq :: "'n index_env \<Rightarrow> collection_indexes \<Rightarrow> string \<Rightarrow> aura_value \<Rightarrow> record_id list option" where
  "lookup_eq E ci field value =
     (let key = index_key E value in
      case om_get (ci_unique_maps ci) field of
        Some m \<Rightarrow> Some (case om_get m key of Some i \<Rightarrow> [i] | None \<Rightarrow> [])
      | None \<Rightarrow>
        (case om_get (ci_secondary_maps ci) field of
           Some m \<Rightarrow> Some (case om_get m key of Some ids \<Rightarrow> ids | None \<Rightarrow> [])
         | None \<Rightarrow>
           (case om_get (ci_doc_path_maps ci) field of
              Some m \<Rightarrow> Some (case om_get m key of Some ids \<Rightarrow> ids | None \<Rightarrow> [])
            | None \<Rightarrow> None)))"

definition posting_facets :: "posting_map \<Rightarrow> (record_id \<times> nat) list" where
  "posting_facets m = List.map_filter (\<lambda>ids. case ids of [] \<Rightarrow> None | rep # _ \<Rightarrow> Some (rep, length ids)) (om_values m)"

definition facet_postings :: "collection_indexes \<Rightarrow> string \<Rightarrow> (record_id \<times> nat) list option" where
  "facet_postings ci field =
     (case om_get (ci_unique_maps ci) field of
        Some m \<Rightarrow> Some (map (\<lambda>i. (i, 1)) (om_values m))
      | None \<Rightarrow>
        (case om_get (ci_secondary_maps ci) field of
           Some m \<Rightarrow> Some (posting_facets m)
         | None \<Rightarrow>
           (case om_get (ci_doc_path_maps ci) field of
              Some m \<Rightarrow> Some (posting_facets m)
            | None \<Rightarrow> None)))"

definition primary_lookup :: "'n index_env \<Rightarrow> collection_indexes \<Rightarrow> aura_value \<Rightarrow> record_id option" where
  "primary_lookup E ci value =
     (case ci_primary_field ci of
        None \<Rightarrow> None
      | Some field \<Rightarrow>
          (case om_get (ci_unique_maps ci) field of
             None \<Rightarrow> None
           | Some m \<Rightarrow> om_get m (index_key E value)))"

section \<open>Rebuilding and checking\<close>

definition index_clear :: "collection_indexes \<Rightarrow> collection_indexes" where
  "index_clear ci =
     (let ci = invalidate_ann_cache ci in
      ci\<lparr>ci_unique_maps := om_map (\<lambda>_ _. []) (ci_unique_maps ci),
         ci_secondary_maps := om_map (\<lambda>_ _. []) (ci_secondary_maps ci),
         ci_doc_path_maps := om_map (\<lambda>_ _. []) (ci_doc_path_maps ci),
         ci_text_maps := om_map (\<lambda>_ _. text_index_default) (ci_text_maps ci),
         ci_vector_maps := om_map (\<lambda>_ vi. vector_index_new (vi_dim vi)) (ci_vector_maps ci)\<rparr>)"

fun rebuild_loop :: "'n index_env \<Rightarrow> record_t list \<Rightarrow> collection_indexes \<Rightarrow> (fault, unit, collection_indexes) result_st" where
  "rebuild_loop E [] ci = (Inr (), ci)"
| "rebuild_loop E (r # rs) ci =
     (case check_unique E ci r None of
        Inl e \<Rightarrow> (Inl e, ci)
      | Inr _ \<Rightarrow> rebuild_loop E rs (index_insert E r ci))"

definition index_rebuild :: "'n index_env \<Rightarrow> record_t list \<Rightarrow> collection_indexes \<Rightarrow> (fault, unit, collection_indexes) result_st" where
  "index_rebuild E records ci = rebuild_loop E records (index_clear ci)"

text \<open>The value of a field resolves back to the record.\<close>

definition resolves :: "'n index_env \<Rightarrow> collection_indexes \<Rightarrow> record_t \<Rightarrow> string \<Rightarrow> aura_value option \<Rightarrow> bool" where
  "resolves E ci r field value =
     (case value of
        None \<Rightarrow> True
      | Some v \<Rightarrow>
          is_null v \<or>
          rec_id r \<in> set (case lookup_eq E ci field v of Some ids \<Rightarrow> ids | None \<Rightarrow> []))"

definition text_resolves :: "'n index_env \<Rightarrow> record_t \<Rightarrow> string \<times> text_index \<Rightarrow> bool" where
  "text_resolves E r p =
     (case om_get (rec_fields r) (fst p) of
        Some (VText s) \<Rightarrow>
          list_all (\<lambda>term. case om_get (ti_postings (snd p)) term of
                             Some m \<Rightarrow> om_get m (rec_id r) \<noteq> None
                           | None \<Rightarrow> False) (ie_tokenize E s)
      | _ \<Rightarrow> True)"

definition record_consistent :: "'n index_env \<Rightarrow> collection_indexes \<Rightarrow> record_t \<Rightarrow> bool" where
  "record_consistent E ci r \<longleftrightarrow>
     list_all (\<lambda>f. resolves E ci r f (om_get (rec_fields r) f)) (ci_unique_fields ci @ ci_secondary_fields ci) \<and>
     list_all (\<lambda>p. resolves E ci r p (record_get_path r p)) (om_keys (ci_doc_path_maps ci)) \<and>
     list_all (text_resolves E r) (ci_text_maps ci)"

definition consistency_check :: "'n index_env \<Rightarrow> collection_indexes \<Rightarrow> record_t list \<Rightarrow> (error, nat) result" where
  "consistency_check E ci records =
     (if list_all (record_consistent E ci) records then Inr (length records) else Inl ECorruption)"

end
