(* ===== verification/Index_Persist.thy ===== *)
theory Index_Persist
  imports Index Rust_Io
begin

text \<open>
  Index snapshots (\<open>auradb-index\<close>: \<open>persist.rs\<close>, and \<open>snapshot\<close> and \<open>from_snapshot\<close> of
  \<open>lib.rs\<close>).  The JSON form of a snapshot and of the manifest and the checksum are the
  parameter \<open>index_codec\<close>.
\<close>

section \<open>Snapshots\<close>

record unique_index_data =
  uid_field :: string
  uid_entries :: "(string \<times> record_id) list"

record secondary_index_data =
  sid_field :: string
  sid_entries :: "(string \<times> record_id list) list"

record vector_index_data =
  vid_field :: string
  vid_dim :: nat
  vid_entries :: "(record_id \<times> f32 list) list"

record text_index_data =
  tid_field :: string
  tid_postings :: "(string \<times> (record_id \<times> nat) list) list"
  tid_doc_lengths :: "(record_id \<times> nat) list"

record index_snapshot =
  is_format_version :: u32
  is_schema_version :: nat
  is_fingerprint :: u64
  is_primary_field :: "string option"
  is_unique :: "unique_index_data list"
  is_secondary :: "secondary_index_data list"
  is_document_paths :: "secondary_index_data list"
  is_vectors :: "vector_index_data list"
  is_text :: "text_index_data list"
  is_hnsw :: "hnsw_metadata list"

definition INDEX_FORMAT_VERSION :: u32 where
  "INDEX_FORMAT_VERSION = 1"

text \<open>The fields come in map order, which is the sorted order.\<close>

definition ann_preview_status :: "collection_indexes \<Rightarrow> u64 \<Rightarrow> hnsw_metadata list" where
  "ann_preview_status ci generation =
     map (\<lambda>(field, vi). \<lparr>hm_field = field, hm_dim = vi_dim vi, hm_vector_count = length (vi_entries vi),
                          hm_generation = generation\<rparr>) (ci_vector_maps ci)"

definition index_snapshot_of :: "collection_indexes \<Rightarrow> nat \<Rightarrow> u64 \<Rightarrow> index_snapshot" where
  "index_snapshot_of ci schema_version fp =
     \<lparr>is_format_version = INDEX_FORMAT_VERSION, is_schema_version = schema_version, is_fingerprint = fp,
      is_primary_field = ci_primary_field ci,
      is_unique = map (\<lambda>(f, m). \<lparr>uid_field = f, uid_entries = m\<rparr>) (ci_unique_maps ci),
      is_secondary = map (\<lambda>(f, m). \<lparr>sid_field = f, sid_entries = m\<rparr>) (ci_secondary_maps ci),
      is_document_paths = map (\<lambda>(f, m). \<lparr>sid_field = f, sid_entries = m\<rparr>) (ci_doc_path_maps ci),
      is_vectors = map (\<lambda>(f, vi). \<lparr>vid_field = f, vid_dim = vi_dim vi, vid_entries = vi_entries vi\<rparr>) (ci_vector_maps ci),
      is_text = map (\<lambda>(f, ti). \<lparr>tid_field = f, tid_postings = ti_postings ti, tid_doc_lengths = ti_doc_lengths ti\<rparr>)
                  (ci_text_maps ci),
      is_hnsw = ann_preview_status ci fp\<rparr>"

definition om_extend :: "('k::linorder \<times> 'v) list \<Rightarrow> ('k, 'v) omap \<Rightarrow> ('k, 'v) omap" where
  "om_extend es m = fold (\<lambda>(k, v). om_insert k v) es m"

text \<open>\<open>get_mut(field).expect(...)\<close> followed by an update of the entry.\<close>

definition om_expect :: "string \<Rightarrow> ('v \<Rightarrow> 'v eresult) \<Rightarrow> (string, 'v) omap \<Rightarrow> (string, 'v) omap eresult" where
  "om_expect field f m =
     (case om_get m field of
        None \<Rightarrow> Inl Panic
      | Some v \<Rightarrow> (case f v of Inl e \<Rightarrow> Inl e | Inr w \<Rightarrow> Inr (om_insert field w m)))"

fun load_each :: "('d \<Rightarrow> 'm \<Rightarrow> 'm eresult) \<Rightarrow> 'd list \<Rightarrow> 'm \<Rightarrow> 'm eresult" where
  "load_each f [] m = Inr m"
| "load_each f (d # ds) m = (case f d m of Inl e \<Rightarrow> Inl e | Inr m \<Rightarrow> load_each f ds m)"

definition load_unique :: "unique_index_data \<Rightarrow> (string, unique_map) omap \<Rightarrow> (string, unique_map) omap eresult" where
  "load_unique u = om_expect (uid_field u) (\<lambda>m. Inr (om_extend (uid_entries u) m))"

definition load_secondary :: "secondary_index_data \<Rightarrow> (string, posting_map) omap \<Rightarrow> (string, posting_map) omap eresult" where
  "load_secondary s = om_expect (sid_field s) (\<lambda>m. Inr (om_extend (sid_entries s) m))"

definition load_text_index :: "text_index_data \<Rightarrow> text_index \<Rightarrow> text_index" where
  "load_text_index t ti =
     (let ti = ti\<lparr>ti_postings := fold (\<lambda>(term, posting). om_entry term [] (om_extend posting)) (tid_postings t) (ti_postings ti)\<rparr>
      in if tid_doc_lengths t = [] then rebuild_lengths ti
         else fold (\<lambda>(i, len) ti. ti\<lparr>ti_doc_lengths := om_entry i 0 (\<lambda>n. n + len) (ti_doc_lengths ti),
                                     ti_total_tokens := ti_total_tokens ti + len\<rparr>) (tid_doc_lengths t) ti)"

definition load_text :: "text_index_data \<Rightarrow> (string, text_index) omap \<Rightarrow> (string, text_index) omap eresult" where
  "load_text t = om_expect (tid_field t) (\<lambda>ti. Inr (load_text_index t ti))"

definition load_vector :: "vector_index_data \<Rightarrow> (string, exact_vector_index) omap \<Rightarrow> (string, exact_vector_index) omap eresult" where
  "load_vector v =
     om_expect (vid_field v)
       (\<lambda>vi. if vi_dim vi \<noteq> vid_dim v then Inl (Err ECorruption)
             else Inr (vi\<lparr>vi_entries := om_extend (vid_entries v) (vi_entries vi)\<rparr>))"

definition same_fields :: "(string, 'v) omap \<Rightarrow> string list \<Rightarrow> bool" where
  "same_fields m fs \<longleftrightarrow> set (om_keys m) = set fs"

definition snapshot_shape :: "collection_indexes \<Rightarrow> index_snapshot \<Rightarrow> bool" where
  "snapshot_shape ci s \<longleftrightarrow>
     same_fields (ci_unique_maps ci) (map uid_field (is_unique s)) \<and>
     same_fields (ci_secondary_maps ci) (map sid_field (is_secondary s)) \<and>
     same_fields (ci_vector_maps ci) (map vid_field (is_vectors s)) \<and>
     same_fields (ci_doc_path_maps ci) (map sid_field (is_document_paths s)) \<and>
     same_fields (ci_text_maps ci) (map tid_field (is_text s))"

definition bind_res :: "'a eresult \<Rightarrow> ('a \<Rightarrow> 'b eresult) \<Rightarrow> 'b eresult" where
  "bind_res r f = (case r of Inl e \<Rightarrow> Inl e | Inr x \<Rightarrow> f x)"

definition from_snapshot :: "collection_schema \<Rightarrow> index_snapshot \<Rightarrow> collection_indexes eresult" where
  "from_snapshot schema s =
     (let ci = indexes_from_schema schema in
      if ci_primary_field ci \<noteq> is_primary_field s then Inl (Err ECorruption)
      else if \<not> snapshot_shape ci s then Inl (Err ECorruption)
      else
        bind_res (load_each load_unique (is_unique s) (ci_unique_maps ci)) (\<lambda>u.
        bind_res (load_each load_secondary (is_secondary s) (ci_secondary_maps ci)) (\<lambda>sec.
        bind_res (load_each load_secondary (is_document_paths s) (ci_doc_path_maps ci)) (\<lambda>d.
        bind_res (load_each load_text (is_text s) (ci_text_maps ci)) (\<lambda>t.
        bind_res (load_each load_vector (is_vectors s) (ci_vector_maps ci)) (\<lambda>v.
        Inr (ci\<lparr>ci_unique_maps := u, ci_secondary_maps := sec, ci_doc_path_maps := d, ci_text_maps := t,
                ci_vector_maps := v, ci_loaded_ann_metadata := is_hnsw s\<rparr>)))))))"

section \<open>Files\<close>

record index_manifest =
  im_format_version :: u32
  im_files :: "(string, string) omap"

record index_codec =
  snapshot_to_vec :: "index_snapshot \<Rightarrow> u8 list option"
  snapshot_from_slice :: "u8 list \<Rightarrow> index_snapshot option"
  imanifest_to_vec :: "index_manifest \<Rightarrow> u8 list option"
  imanifest_from_slice :: "u8 list \<Rightarrow> index_manifest option"
  index_crc32 :: "u8 list \<Rightarrow> u32"

definition INDEX_MAGIC :: "u8 list" where
  "INDEX_MAGIC = as_bytes ''AIDX''"

definition INDEX_MANIFEST_FILE :: string where
  "INDEX_MANIFEST_FILE = ''INDEX_MANIFEST.json''"

definition fnv64 :: "string \<Rightarrow> u64" where
  "fnv64 s = fold fnv64_byte (as_bytes s) FNV64_OFFSET"

definition index_filename :: "string \<Rightarrow> string" where
  "index_filename collection = hex_digits 16 (unat (fnv64 collection)) @ ''.idx''"

definition load_manifest :: "index_codec \<Rightarrow> index_manifest option io" where
  "load_manifest c d =
     (case fs_read INDEX_MANIFEST_FILE d of
        (Inl _, d) \<Rightarrow> (Inr None, d)
      | (Inr bytes, d) \<Rightarrow> (Inr (imanifest_from_slice c bytes), d))"

definition save_manifest :: "index_codec \<Rightarrow> index_manifest \<Rightarrow> unit io" where
  "save_manifest c m =
     io_bind fs_call (\<lambda>_.
       case imanifest_to_vec c m of
         None \<Rightarrow> io_error EStorage
       | Some bytes \<Rightarrow> fs_swap (INDEX_MANIFEST_FILE @ ''.tmp'') INDEX_MANIFEST_FILE bytes)"

text \<open>The length field is a \<open>u32\<close>: \<open>payload.len() as u32\<close>.\<close>

definition frame_snapshot :: "index_codec \<Rightarrow> u8 list \<Rightarrow> u8 list" where
  "frame_snapshot c payload =
     INDEX_MAGIC @ be_bytes 4 (unat INDEX_FORMAT_VERSION) @ be_bytes 4 (unat (word_of_nat (length payload) :: u32)) @
     be_bytes 4 (unat (index_crc32 c payload)) @ payload"

definition write_snapshot :: "index_codec \<Rightarrow> string \<Rightarrow> index_snapshot \<Rightarrow> unit io" where
  "write_snapshot c path s =
     (case snapshot_to_vec c s of
        None \<Rightarrow> io_error EStorage
      | Some payload \<Rightarrow> fs_swap (path @ ''.tmp'') path (frame_snapshot c payload))"

definition parse_snapshot :: "index_codec \<Rightarrow> u8 list \<Rightarrow> (error, index_snapshot) result" where
  "parse_snapshot c buf =
     (if length buf < 16 \<or> take 4 buf \<noteq> INDEX_MAGIC then Inl ECorruption
      else if of_be_bytes (take 4 (drop 4 buf)) \<noteq> unat INDEX_FORMAT_VERSION then Inl ECorruption
      else
        (let len = of_be_bytes (take 4 (drop 8 buf)); crc = of_be_bytes (take 4 (drop 12 buf)) in
         if length buf < 16 + len then Inl ECorruption
         else
           (let payload = take len (drop 16 buf) in
            if unat (index_crc32 c payload) \<noteq> crc then Inl ECorruption
            else (case snapshot_from_slice c payload of None \<Rightarrow> Inl ECorruption | Some s \<Rightarrow> Inr s))))"

definition read_snapshot :: "index_codec \<Rightarrow> string \<Rightarrow> index_snapshot io" where
  "read_snapshot c path =
     io_bind (fs_read path) (\<lambda>buf d. (parse_snapshot c buf, d))"

end
