(* ===== verification/Index_Rep.thy ===== *)
theory Index_Rep
  imports Index_Persist
begin

text \<open>
  What the indexes of a collection hold: the contract \<open>record_index\<close> of an index over a set of
  records, its lifting to one index per field, and its interpretation on the unique, posting,
  vector and text maps and on the whole of \<open>CollectionIndexes\<close>.
\<close>

lemma invalidate_fields [simp]:
  "ci_primary_field (invalidate_ann_cache ci) = ci_primary_field ci" "ci_unique_fields (invalidate_ann_cache ci) = ci_unique_fields ci"
  "ci_secondary_fields (invalidate_ann_cache ci) = ci_secondary_fields ci" "ci_unique_maps (invalidate_ann_cache ci) = ci_unique_maps ci"
  "ci_secondary_maps (invalidate_ann_cache ci) = ci_secondary_maps ci" "ci_doc_path_maps (invalidate_ann_cache ci) = ci_doc_path_maps ci"
  "ci_text_maps (invalidate_ann_cache ci) = ci_text_maps ci" "ci_vector_maps (invalidate_ann_cache ci) = ci_vector_maps ci"
  by (simp_all add: invalidate_ann_cache_def)

section \<open>The contract of an index\<close>

text \<open>An index holds a set of records with distinct ids: \<open>ins\<close> and \<open>del\<close> maintain the relation
  \<open>rep\<close> as long as the set is \<open>compat\<close>.\<close>

locale record_index =
  fixes ins :: "record_t \<Rightarrow> 'm \<Rightarrow> 'm"
    and del :: "record_t \<Rightarrow> 'm \<Rightarrow> 'm"
    and rep :: "record_t set \<Rightarrow> 'm \<Rightarrow> bool"
    and compat :: "record_t set \<Rightarrow> bool"
  assumes rep_ins:
      "rep R m \<Longrightarrow> finite R \<Longrightarrow> compat (insert r R) \<Longrightarrow> rec_id r \<notin> rec_id ` R \<Longrightarrow> rep (insert r R) (ins r m)"
    and rep_del:
      "rep R m \<Longrightarrow> finite R \<Longrightarrow> compat R \<Longrightarrow> inj_on rec_id R \<Longrightarrow> r \<in> R \<Longrightarrow> rep (R - {r}) (del r m)"
    and compat_mono: "compat R \<Longrightarrow> S \<subseteq> R \<Longrightarrow> compat S"
begin

lemma rep_fold:
  "rep R m \<Longrightarrow> finite R \<Longrightarrow> compat (R \<union> set rs) \<Longrightarrow> distinct (map rec_id rs) \<Longrightarrow>
   rec_id ` set rs \<inter> rec_id ` R = {} \<Longrightarrow> rep (R \<union> set rs) (fold ins rs m)"
proof (induction rs arbitrary: R m)
  case (Cons r rs)
  have "rep (insert r R) (ins r m)"
    by (rule rep_ins) (use Cons.prems in \<open>auto intro: compat_mono\<close>)
  then have "rep (insert r R \<union> set rs) (fold ins rs (ins r m))"
    by (rule Cons.IH) (use Cons.prems in \<open>auto simp: image_iff\<close>)
  then show ?case by simp
qed simp

lemma rep_replace:
  assumes "rep R m" "finite R" "compat R" "inj_on rec_id R" "old \<in> R" "rec_id new = rec_id old"
    "compat (insert new (R - {old}))"
  shows "rep (insert new (R - {old})) (ins new (del old m))"
  by (rule rep_ins) (use assms rep_del in \<open>auto simp: inj_on_def\<close>)

end

text \<open>One index per field of a map.\<close>

definition maps_rep ::
  "(string \<Rightarrow> record_t set \<Rightarrow> 'm \<Rightarrow> bool) \<Rightarrow> string list \<Rightarrow> record_t set \<Rightarrow> (string, 'm) omap \<Rightarrow> bool" where
  "maps_rep rep fs R m \<longleftrightarrow> om_keys m = fs \<and> (\<forall>f x. om_get m f = Some x \<longrightarrow> rep f R x)"

locale field_indexes =
  fixes ins :: "record_t \<Rightarrow> string \<Rightarrow> 'm \<Rightarrow> 'm"
    and del :: "record_t \<Rightarrow> string \<Rightarrow> 'm \<Rightarrow> 'm"
    and rep :: "string \<Rightarrow> record_t set \<Rightarrow> 'm \<Rightarrow> bool"
    and compat :: "string \<Rightarrow> record_t set \<Rightarrow> bool"
  assumes field: "record_index (\<lambda>r. ins r f) (\<lambda>r. del r f) (rep f) (compat f)"
begin

lemma maps_rep_map:
  assumes "maps_rep rep fs R m" "\<And>f x. f \<in> set fs \<Longrightarrow> rep f R x \<Longrightarrow> rep f S (g f x)"
  shows "maps_rep rep fs S (om_map g m)"
  using assms om_get_keys[of m] unfolding maps_rep_def by (auto simp: om_keys_map)

lemma maps_index:
  "record_index (\<lambda>r. om_map (ins r)) (\<lambda>r. om_map (del r)) (maps_rep rep fs) (\<lambda>R. \<forall>f\<in>set fs. compat f R)"
proof
  show "maps_rep rep fs (insert r R) (om_map (ins r) m)"
    if "maps_rep rep fs R m" "finite R" "\<forall>f\<in>set fs. compat f (insert r R)" "rec_id r \<notin> rec_id ` R" for R m r
    by (rule maps_rep_map[OF that(1)]) (use that record_index.rep_ins[OF field] in blast)
  show "maps_rep rep fs (R - {r}) (om_map (del r) m)"
    if "maps_rep rep fs R m" "finite R" "\<forall>f\<in>set fs. compat f R" "inj_on rec_id R" "r \<in> R" for R m r
    by (rule maps_rep_map[OF that(1)]) (use that record_index.rep_del[OF field] in blast)
  show "\<forall>f\<in>set fs. compat f S" if "\<forall>f\<in>set fs. compat f R" "S \<subseteq> R" for R S
    using that record_index.compat_mono[OF field] by blast
qed

end

sublocale field_indexes \<subseteq> maps: record_index
  "\<lambda>r. om_map (ins r)" "\<lambda>r. om_map (del r)" "maps_rep rep fs" "\<lambda>R. \<forall>f\<in>set fs. compat f R" for fs
  by (rule maps_index)

section \<open>The indexes of one field\<close>

text \<open>The key under which a value is indexed: nulls and absent values are not.\<close>

definition value_key :: "'n index_env \<Rightarrow> aura_value option \<Rightarrow> string option" where
  "value_key E v = (case v of None \<Rightarrow> None | Some v \<Rightarrow> if is_null v then None else Some (index_key E v))"

definition field_key :: "'n index_env \<Rightarrow> string \<Rightarrow> record_t \<Rightarrow> string option" where
  "field_key E f r = value_key E (om_get (rec_fields r) f)"

definition path_key :: "'n index_env \<Rightarrow> string \<Rightarrow> record_t \<Rightarrow> string option" where
  "path_key E p r = value_key E (record_get_path r p)"

definition unique_rep :: "'n index_env \<Rightarrow> string \<Rightarrow> record_t set \<Rightarrow> unique_map \<Rightarrow> bool" where
  "unique_rep E f R m \<longleftrightarrow> om_wf m \<and> (\<forall>k i. om_get m k = Some i \<longleftrightarrow> (\<exists>r\<in>R. rec_id r = i \<and> field_key E f r = Some k))"

definition unique_compat :: "'n index_env \<Rightarrow> string \<Rightarrow> record_t set \<Rightarrow> bool" where
  "unique_compat E f R \<longleftrightarrow> (\<forall>r\<in>R. \<forall>s\<in>R. field_key E f r \<noteq> None \<longrightarrow> field_key E f r = field_key E f s \<longrightarrow> r = s)"

lemma unique_insert_get:
  "om_get (unique_insert E r f m) = (case field_key E f r of None \<Rightarrow> om_get m | Some k \<Rightarrow> (om_get m)(k := Some (rec_id r)))"
  by (auto simp: unique_insert_def field_key_def value_key_def split: option.splits)

lemma unique_remove_get:
  assumes "unique_rep E f R m" "r \<in> R" "inj_on rec_id R" "unique_compat E f R"
  shows "om_get (unique_remove E r f m) = (case field_key E f r of None \<Rightarrow> om_get m | Some k \<Rightarrow> (om_get m)(k := None))"
proof (cases "om_get (rec_fields r) f")
  case (Some v)
  have "om_get m (index_key E v) = Some (rec_id r) \<longleftrightarrow> \<not> is_null v"
    using assms Some by (auto simp: unique_rep_def field_key_def value_key_def inj_on_def)
  then show ?thesis using Some by (auto simp: unique_remove_def field_key_def value_key_def)
qed (simp add: unique_remove_def field_key_def value_key_def)

lemma unique_rep_ins:
  assumes "unique_rep E f R m" "unique_compat E f (insert r R)" "rec_id r \<notin> rec_id ` R"
  shows "unique_rep E f (insert r R) (unique_insert E r f m)"
  unfolding unique_rep_def
proof (intro conjI allI)
  show "om_wf (unique_insert E r f m)"
    using assms(1) by (simp add: unique_rep_def unique_insert_def split: option.split)
  fix k i
  have m: "om_get m k = Some i \<longleftrightarrow> (\<exists>s\<in>R. rec_id s = i \<and> field_key E f s = Some k)"
    using assms(1) by (simp add: unique_rep_def)
  show "om_get (unique_insert E r f m) k = Some i \<longleftrightarrow> (\<exists>s\<in>insert r R. rec_id s = i \<and> field_key E f s = Some k)"
  proof (cases "field_key E f r = Some k")
    case True
    then have "field_key E f s \<noteq> Some k" if "s \<in> R" for s
      using assms(2,3) that unfolding unique_compat_def by (metis image_eqI insertCI option.distinct(1))
    then show ?thesis using True by (auto simp: unique_insert_get)
  qed (auto simp: unique_insert_get m split: option.splits)
qed

lemma unique_rep_del:
  assumes "unique_rep E f R m" "unique_compat E f R" "inj_on rec_id R" "r \<in> R"
  shows "unique_rep E f (R - {r}) (unique_remove E r f m)"
  unfolding unique_rep_def unique_remove_get[OF assms(1,4,3,2)]
proof (intro conjI allI)
  show "om_wf (unique_remove E r f m)"
    using assms(1) by (simp add: unique_rep_def unique_remove_def split: option.split)
  fix k i
  have m: "om_get m k = Some i \<longleftrightarrow> (\<exists>s\<in>R. rec_id s = i \<and> field_key E f s = Some k)"
    using assms(1) by (simp add: unique_rep_def)
  show "(case field_key E f r of None \<Rightarrow> om_get m | Some k \<Rightarrow> (om_get m)(k := None)) k = Some i \<longleftrightarrow>
    (\<exists>s\<in>R - {r}. rec_id s = i \<and> field_key E f s = Some k)"
  proof (cases "field_key E f r = Some k")
    case True
    then have "field_key E f s \<noteq> Some k" if "s \<in> R - {r}" for s
      using assms(2,4) that unfolding unique_compat_def by (metis DiffD1 DiffD2 insertCI option.distinct(1))
    then show ?thesis using True by auto
  qed (auto simp: m split: option.splits)
qed

interpretation uq: field_indexes "unique_insert E" "unique_remove E" "unique_rep E" "unique_compat E" for E
  by unfold_locales (auto simp: unique_rep_ins unique_rep_del unique_compat_def)

section \<open>Postings\<close>

definition posting_ids :: "posting_map \<Rightarrow> string \<Rightarrow> record_id list" where
  "posting_ids m k = (case om_get m k of Some ids \<Rightarrow> ids | None \<Rightarrow> [])"

definition posting_rep :: "(record_t \<Rightarrow> string option) \<Rightarrow> record_t set \<Rightarrow> posting_map \<Rightarrow> bool" where
  "posting_rep key R m \<longleftrightarrow> om_wf m \<and>
     (\<forall>k. distinct (posting_ids m k) \<and> set (posting_ids m k) = rec_id ` {r \<in> R. key r = Some k})"

lemma posting_insert_ids:
  "posting_ids (posting_insert E i v m) k = posting_ids m k @ (if value_key E v = Some k then [i] else [])"
  by (auto simp: posting_insert_def posting_ids_def value_key_def split: option.splits)

lemma posting_delete_ids:
  "posting_ids (posting_delete E i v m) k =
     (if map_option (index_key E) v = Some k then filter (\<lambda>j. j \<noteq> i) (posting_ids m k) else posting_ids m k)"
  by (auto simp: posting_delete_def posting_ids_def split: option.splits)

lemma posting_map_wf:
  "om_wf m \<Longrightarrow> om_wf (posting_insert E i v m)" "om_wf m \<Longrightarrow> om_wf (posting_delete E i v m)"
  by (simp_all add: posting_insert_def posting_delete_def split: option.split)

lemma posting_rep_ins:
  assumes "posting_rep (\<lambda>r. value_key E (v r)) R m" "rec_id r \<notin> rec_id ` R"
  shows "posting_rep (\<lambda>r. value_key E (v r)) (insert r R) (posting_insert E (rec_id r) (v r) m)"
proof -
  have "{s \<in> insert r R. value_key E (v s) = Some k} =
    (if value_key E (v r) = Some k then insert r {s \<in> R. value_key E (v s) = Some k} else {s \<in> R. value_key E (v s) = Some k})" for k
    by auto
  then show ?thesis using assms by (auto simp: posting_rep_def posting_insert_ids posting_map_wf)
qed

lemma posting_rep_del:
  assumes "posting_rep (\<lambda>r. value_key E (v r)) R m" "inj_on rec_id R" "r \<in> R"
  shows "posting_rep (\<lambda>r. value_key E (v r)) (R - {r}) (posting_delete E (rec_id r) (v r) m)"
proof -
  have d: "rec_id ` {s \<in> R - {r}. P s} = rec_id ` {s \<in> R. P s} - {rec_id r}" for P
    using assms(2,3) by (auto simp: inj_on_def)
  have "rec_id r \<notin> rec_id ` {s \<in> R. value_key E (v s) = Some k}" if "map_option (index_key E) (v r) \<noteq> Some k" for k
    using that assms(2,3) by (auto simp: inj_on_def value_key_def split: option.splits if_splits)
  then show ?thesis using assms(1) unfolding posting_rep_def posting_delete_ids d by (auto simp: posting_map_wf)
qed

interpretation sec: field_indexes
  "\<lambda>r f. posting_insert E (rec_id r) (om_get (rec_fields r) f)" "\<lambda>r f. posting_delete E (rec_id r) (om_get (rec_fields r) f)"
  "\<lambda>f. posting_rep (field_key E f)" "\<lambda>f R. True" for E
  unfolding field_key_def by unfold_locales (auto intro: posting_rep_ins posting_rep_del)

interpretation dp: field_indexes
  "\<lambda>r p. posting_insert E (rec_id r) (record_get_path r p)" "\<lambda>r p. posting_delete E (rec_id r) (record_get_path r p)"
  "\<lambda>p. posting_rep (path_key E p)" "\<lambda>f R. True" for E
  unfolding path_key_def by unfold_locales (auto intro: posting_rep_ins posting_rep_del)

section \<open>Vectors\<close>

definition vector_rep :: "(string \<Rightarrow> nat) \<Rightarrow> string \<Rightarrow> record_t set \<Rightarrow> exact_vector_index \<Rightarrow> bool" where
  "vector_rep dim f R vi \<longleftrightarrow>
     vi_dim vi = dim f \<and> om_wf (vi_entries vi) \<and>
     (\<forall>i v. om_get (vi_entries vi) i = Some v \<longleftrightarrow> (\<exists>r\<in>R. rec_id r = i \<and> om_get (rec_fields r) f = Some (VVector v)))"

lemma vector_rep_ins:
  assumes "vector_rep dim f R vi" "rec_id r \<notin> rec_id ` R"
  shows "vector_rep dim f (insert r R) (vector_insert r f vi)"
proof (cases "\<exists>v. om_get (rec_fields r) f = Some (VVector v)")
  case True
  then obtain v where "om_get (rec_fields r) f = Some (VVector v)" by blast
  moreover have "rec_id s \<noteq> rec_id r" if "s \<in> R" for s using that assms(2) by (metis image_eqI)
  ultimately show ?thesis using assms(1) by (auto simp: vector_rep_def vector_insert_def)
next
  case False
  then have "vector_insert r f vi = vi" by (auto simp: vector_insert_def split: option.splits aura_value.splits)
  then show ?thesis using assms False by (auto simp: vector_rep_def)
qed

lemma vector_rep_del:
  "vector_rep dim f R vi \<Longrightarrow> inj_on rec_id R \<Longrightarrow> r \<in> R \<Longrightarrow> vector_rep dim f (R - {r}) (vector_remove (rec_id r) vi)"
  by (auto simp: vector_rep_def vector_remove_def inj_on_def)

interpretation vec: field_indexes "vector_insert" "\<lambda>r f. vector_remove (rec_id r)" "vector_rep dim" "\<lambda>f R. True" for dim
  by unfold_locales (auto intro: vector_rep_ins vector_rep_del)

section \<open>Text\<close>

definition field_terms :: "'n index_env \<Rightarrow> string \<Rightarrow> record_t \<Rightarrow> string list" where
  "field_terms E f r = (case om_get (rec_fields r) f of Some (VText s) \<Rightarrow> ie_tokenize E s | _ \<Rightarrow> [])"

definition posting_tf :: "(string, (record_id, nat) omap) omap \<Rightarrow> string \<Rightarrow> record_id \<Rightarrow> nat" where
  "posting_tf m t i = (case om_get m t of None \<Rightarrow> 0 | Some p \<Rightarrow> (case om_get p i of None \<Rightarrow> 0 | Some n \<Rightarrow> n))"

text \<open>No posting list is empty and no count is zero.\<close>

definition posting_wf :: "(string, (record_id, nat) omap) omap \<Rightarrow> bool" where
  "posting_wf m \<longleftrightarrow> om_wf m \<and> (\<forall>t p. om_get m t = Some p \<longrightarrow> om_wf p \<and> p \<noteq> [] \<and> (\<forall>i n. om_get p i = Some n \<longrightarrow> 0 < n))"

definition text_rep :: "'n index_env \<Rightarrow> string \<Rightarrow> record_t set \<Rightarrow> text_index \<Rightarrow> bool" where
  "text_rep E f R ti \<longleftrightarrow>
     posting_wf (ti_postings ti) \<and> om_wf (ti_doc_lengths ti) \<and>
     (\<forall>r\<in>R. (\<forall>t. posting_tf (ti_postings ti) t (rec_id r) = count_list (field_terms E f r) t) \<and>
        om_get (ti_doc_lengths ti) (rec_id r) = (case length (field_terms E f r) of 0 \<Rightarrow> None | n \<Rightarrow> Some n)) \<and>
     (\<forall>i. i \<notin> rec_id ` R \<longrightarrow> (\<forall>t. posting_tf (ti_postings ti) t i = 0) \<and> om_get (ti_doc_lengths ti) i = None) \<and>
     ti_total_tokens ti = (\<Sum>r\<in>R. length (field_terms E f r))"

lemma posting_add_tf: "posting_tf (posting_add i t m) u j = posting_tf m u j + (if u = t \<and> j = i then 1 else 0)"
  by (auto simp: posting_tf_def posting_add_def split: option.splits)

lemma posting_add_wf: "posting_wf m \<Longrightarrow> posting_wf (posting_add i t m)"
  by (auto simp: posting_wf_def posting_add_def om_entry_def split: option.splits if_splits)

lemma fold_posting_add:
  "posting_wf m \<Longrightarrow> posting_wf (fold (posting_add i) ts m) \<and>
   posting_tf (fold (posting_add i) ts m) u j = posting_tf m u j + (if j = i then count_list ts u else 0)"
  by (induction ts arbitrary: m) (auto simp: posting_add_wf posting_add_tf)

lemma posting_remove_tf: "posting_tf (posting_remove i t m) u j = (if u = t \<and> j = i then 0 else posting_tf m u j)"
proof -
  have "om_get p j = None" if "om_remove i p = []" "j \<noteq> i" for p :: "(record_id, nat) omap"
  proof -
    have "om_get (om_remove i p) j = om_get p j" using that(2) by simp
    then show ?thesis using that(1) by simp
  qed
  then show ?thesis by (auto simp: posting_tf_def posting_remove_def Let_def split: option.splits)
qed

lemma posting_remove_wf: "posting_wf m \<Longrightarrow> posting_wf (posting_remove i t m)"
  by (auto simp: posting_wf_def posting_remove_def Let_def split: option.splits if_splits)

lemma fold_posting_remove:
  "posting_wf m \<Longrightarrow> posting_wf (fold (posting_remove i) ts m) \<and>
   posting_tf (fold (posting_remove i) ts m) u j = (if j = i \<and> u \<in> set ts then 0 else posting_tf m u j)"
  by (induction ts arbitrary: m) (auto simp: posting_remove_wf posting_remove_tf)

lemma text_insert_terms:
  "text_insert E r f ti =
     (let ts = field_terms E f r in
      if ts = [] then ti
      else ti\<lparr>ti_postings := fold (posting_add (rec_id r)) ts (ti_postings ti),
              ti_doc_lengths := om_entry (rec_id r) 0 (\<lambda>n. n + length ts) (ti_doc_lengths ti),
              ti_total_tokens := ti_total_tokens ti + length ts\<rparr>)"
  by (auto simp: text_insert_def text_add_def field_terms_def Let_def split: option.splits aura_value.splits)

lemma text_rep_ins:
  assumes "text_rep E f R ti" "finite R" "rec_id r \<notin> rec_id ` R"
  shows "text_rep E f (insert r R) (text_insert E r f ti)"
proof -
  let ?ts = "field_terms E f r"
  have r: "r \<notin> R" using assms(3) by auto
  note w = fold_posting_add[of "ti_postings ti" "rec_id r" ?ts]
  show ?thesis
  proof (cases "?ts = []")
    case True
    then show ?thesis using assms r by (auto simp: text_insert_terms text_rep_def)
  next
    case False
    have "om_get (ti_doc_lengths ti) (rec_id r) = None" "posting_tf (ti_postings ti) t (rec_id r) = 0" for t
      using assms(1,3) by (auto simp: text_rep_def)
    moreover have "rec_id s \<noteq> rec_id r" if "s \<in> R" for s using that assms(3) by (metis image_eqI)
    ultimately show ?thesis using assms False r w
      by (auto simp: text_insert_terms text_rep_def Let_def split: nat.splits)
  qed
qed

lemma text_delete_terms:
  assumes "text_rep E f R ti" "r \<in> R"
  shows "text_delete E r f ti =
     (let ts = field_terms E f r in
      if ts = [] then ti
      else ti\<lparr>ti_postings := fold (posting_remove (rec_id r)) ts (ti_postings ti),
              ti_doc_lengths := om_remove (rec_id r) (ti_doc_lengths ti),
              ti_total_tokens := ti_total_tokens ti - length ts\<rparr>)"
proof -
  have "om_get (ti_doc_lengths ti) (rec_id r) = (case length (field_terms E f r) of 0 \<Rightarrow> None | n \<Rightarrow> Some n)"
    using assms by (simp add: text_rep_def)
  then show ?thesis
    by (auto simp: text_delete_def text_remove_def field_terms_def Let_def split: option.splits aura_value.splits nat.splits)
qed

lemma text_rep_del:
  assumes "text_rep E f R ti" "finite R" "inj_on rec_id R" "r \<in> R"
  shows "text_rep E f (R - {r}) (text_delete E r f ti)"
proof -
  let ?ts = "field_terms E f r"
  note w = fold_posting_remove[of "ti_postings ti" "rec_id r" ?ts]
  have ids: "rec_id ` (R - {r}) = rec_id ` R - {rec_id r}" using assms(3,4) by (auto simp: inj_on_def)
  have ne: "rec_id s \<noteq> rec_id r" if "s \<in> R" "s \<noteq> r" for s using that assms(3,4) by (auto simp: inj_on_def)
  have sum: "(\<Sum>s\<in>R. length (field_terms E f s)) = length ?ts + (\<Sum>s\<in>R - {r}. length (field_terms E f s))"
    using assms(2,4) by (simp add: sum.remove)
  have tf: "posting_tf (ti_postings ti) t (rec_id r) = count_list ?ts t" for t
    using assms(1,4) by (simp add: text_rep_def)
  show ?thesis
  proof (cases "?ts = []")
    case True
    then have "om_get (ti_doc_lengths ti) (rec_id r) = None" using assms(1,4) by (simp add: text_rep_def)
    then show ?thesis
      using assms(1) True sum tf unfolding text_delete_terms[OF assms(1,4)] text_rep_def ids by auto
  next
    case False
    have "posting_tf (ti_postings ti) t (rec_id r) = 0" if "t \<notin> set ?ts" for t
      using that tf by (simp add: count_list_0_iff)
    then show ?thesis
      using assms(1) False sum w ne unfolding text_delete_terms[OF assms(1,4)] text_rep_def ids
      by (auto simp: Let_def)
  qed
qed

interpretation ft: field_indexes "text_insert E" "text_delete E" "text_rep E" "\<lambda>f R. True" for E
  by unfold_locales (auto intro: text_rep_ins text_rep_del)

section \<open>The indexes of a collection\<close>

definition indexes_rep :: "'n index_env \<Rightarrow> collection_schema \<Rightarrow> record_t set \<Rightarrow> collection_indexes \<Rightarrow> bool" where
  "indexes_rep E s R ci \<longleftrightarrow>
     (let base = indexes_from_schema s in
      ci_primary_field ci = ci_primary_field base \<and> ci_unique_fields ci = ci_unique_fields base \<and>
      ci_secondary_fields ci = ci_secondary_fields base \<and>
      maps_rep (unique_rep E) (om_keys (ci_unique_maps base)) R (ci_unique_maps ci) \<and>
      maps_rep (\<lambda>f. posting_rep (field_key E f)) (om_keys (ci_secondary_maps base)) R (ci_secondary_maps ci) \<and>
      maps_rep (\<lambda>p. posting_rep (path_key E p)) (om_keys (ci_doc_path_maps base)) R (ci_doc_path_maps ci) \<and>
      maps_rep (text_rep E) (om_keys (ci_text_maps base)) R (ci_text_maps ci) \<and>
      maps_rep (vector_rep (\<lambda>f. the (vector_dim base f))) (om_keys (ci_vector_maps base)) R (ci_vector_maps ci))"

definition indexes_compat :: "'n index_env \<Rightarrow> collection_schema \<Rightarrow> record_t set \<Rightarrow> bool" where
  "indexes_compat E s R \<longleftrightarrow> (\<forall>f\<in>set (om_keys (ci_unique_maps (indexes_from_schema s))). unique_compat E f R)"

interpretation ix: record_index "index_insert E" "index_remove E" "indexes_rep E s" "indexes_compat E s" for E s
proof
  show "indexes_rep E s (insert r R) (index_insert E r m)"
    if "indexes_rep E s R m" "finite R" "indexes_compat E s (insert r R)" "rec_id r \<notin> rec_id ` R" for R m r
    using that by (auto simp: indexes_rep_def indexes_compat_def index_insert_def Let_def
      intro!: uq.maps.rep_ins sec.maps.rep_ins dp.maps.rep_ins vec.maps.rep_ins ft.maps.rep_ins)
  show "indexes_rep E s (R - {r}) (index_remove E r m)"
    if "indexes_rep E s R m" "finite R" "indexes_compat E s R" "inj_on rec_id R" "r \<in> R" for R m r
    using that by (auto simp: indexes_rep_def indexes_compat_def index_remove_def Let_def
      intro!: uq.maps.rep_del sec.maps.rep_del dp.maps.rep_del vec.maps.rep_del ft.maps.rep_del)
  show "indexes_compat E s S" if "indexes_compat E s R" "S \<subseteq> R" for R S
    using that unfolding indexes_compat_def by (rule uq.maps.compat_mono)
qed

end
