(* ===== verification/Index_Facts.thy ===== *)
theory Index_Facts
  imports Index_Rep
begin

text \<open>
  Consequences of the index contract: exact lookups and uniqueness checks, rebuilds, the
  consistency check, loading of snapshots, and the runs of a collection's indexes.
\<close>

section \<open>Fresh indexes\<close>

definition om_all :: "('v \<Rightarrow> bool) \<Rightarrow> (string, 'v) omap \<Rightarrow> bool" where
  "om_all P m \<longleftrightarrow> om_wf m \<and> (\<forall>f x. om_get m f = Some x \<longrightarrow> P x)"

lemma om_all_insert: "om_all P m \<Longrightarrow> P x \<Longrightarrow> om_all P (om_insert k x m)"
  by (auto simp: om_all_def)

lemma om_all_entry: "om_all P m \<Longrightarrow> P x \<Longrightarrow> om_all P (om_entry k x id m)"
  by (auto simp: om_all_def om_entry_def split: option.splits)

lemma om_all_fold_entry: "om_all P m \<Longrightarrow> P x \<Longrightarrow> om_all P (fold (\<lambda>p. om_entry p x id) ps m)"
  by (induction ps arbitrary: m) (auto simp: om_all_entry)

definition fresh_indexes :: "collection_indexes \<Rightarrow> bool" where
  "fresh_indexes ci \<longleftrightarrow>
     set (ci_unique_fields ci) = set (om_keys (ci_unique_maps ci)) \<and>
     set (ci_secondary_fields ci) = set (om_keys (ci_secondary_maps ci)) \<and>
     om_all (\<lambda>m. m = []) (ci_unique_maps ci) \<and> om_all (\<lambda>m. m = []) (ci_secondary_maps ci) \<and>
     om_all (\<lambda>m. m = []) (ci_doc_path_maps ci) \<and> om_all (\<lambda>t. t = text_index_default) (ci_text_maps ci) \<and>
     om_all (\<lambda>vi. vi_entries vi = []) (ci_vector_maps ci)"

lemma fresh_index_field: "fresh_indexes ci \<Longrightarrow> fresh_indexes (index_field f ci)"
  unfolding fresh_indexes_def index_field_def Let_def
  by (auto simp: set_om_keys vector_index_new_def intro!: om_all_insert split: field_type.split)

lemma fresh_fold_field: "fresh_indexes ci \<Longrightarrow> fresh_indexes (fold index_field fs ci)"
  by (induction fs arbitrary: ci) (auto simp: fresh_index_field)

lemma fresh_from_schema: "fresh_indexes (indexes_from_schema s)"
proof -
  let ?ci = "fold index_field (cs_fields s) \<lparr>ci_primary_field = None, ci_unique_fields = [], ci_secondary_fields = [],
    ci_unique_maps = [], ci_secondary_maps = [], ci_doc_path_maps = [], ci_text_maps = [], ci_vector_maps = [],
    ci_loaded_ann_metadata = [], ci_ann_cache = []\<rparr>"
  have "fresh_indexes ?ci" by (rule fresh_fold_field) (simp add: fresh_indexes_def om_all_def om_keys_def)
  moreover have "om_all (\<lambda>m. m = []) (fold (\<lambda>p. om_entry p [] id) (document_path_indexes s) [])"
    "om_all (\<lambda>t. t = text_index_default) (fold (\<lambda>p. om_entry p text_index_default id) (full_text_indexes s) [])"
    by (rule om_all_fold_entry; simp add: om_all_def)+
  ultimately show ?thesis by (simp add: indexes_from_schema_def Let_def fresh_indexes_def)
qed

lemma rep_fields_empty:
  "unique_rep E f {} []" "posting_rep key {} []" "text_rep E f {} text_index_default"
  "vector_rep dim f {} (vector_index_new (dim f))"
  by (auto simp: unique_rep_def posting_rep_def posting_ids_def text_rep_def text_index_default_def posting_wf_def
      posting_tf_def vector_rep_def vector_index_new_def)

lemma vector_dim_Some: "om_get (ci_vector_maps ci) f = Some vi \<Longrightarrow> vector_dim ci f = Some (vi_dim vi)"
  by (simp add: vector_dim_def)

lemma vector_rep_empty: "vi_entries vi = [] \<Longrightarrow> vi_dim vi = dim f \<Longrightarrow> vector_rep dim f {} vi"
  by (simp add: vector_rep_def)

lemma maps_rep_fresh: "om_all P m \<Longrightarrow> (\<And>f x. om_get m f = Some x \<Longrightarrow> P x \<Longrightarrow> rep f {} x) \<Longrightarrow> maps_rep rep (om_keys m) {} m"
  by (simp add: om_all_def maps_rep_def)

lemma rep_from_schema: "indexes_rep E s {} (indexes_from_schema s)"
  using fresh_from_schema[of s] unfolding indexes_rep_def fresh_indexes_def Let_def
  by (auto simp: vector_dim_Some rep_fields_empty intro!: maps_rep_fresh vector_rep_empty)

lemma rep_clear: "indexes_rep E s R ci \<Longrightarrow> indexes_rep E s {} (index_clear ci)"
  unfolding indexes_rep_def index_clear_def maps_rep_def Let_def
  by (auto simp: rep_fields_empty vector_rep_def vector_index_new_def)

section \<open>Lookups\<close>

text \<open>Which value of a record the index on \<open>f\<close> reads.\<close>

definition stored_key :: "'n index_env \<Rightarrow> collection_schema \<Rightarrow> string \<Rightarrow> record_t \<Rightarrow> string option" where
  "stored_key E s f r =
     (let base = indexes_from_schema s in
      if f \<in> set (om_keys (ci_unique_maps base)) \<or> f \<in> set (om_keys (ci_secondary_maps base))
      then field_key E f r else path_key E f r)"

lemma unique_rep_lookup:
  assumes "unique_rep E f R m"
  shows "set_option (om_get m k) = rec_id ` {r \<in> R. field_key E f r = Some k}"
proof -
  have "i \<in> set_option (om_get m k) \<longleftrightarrow> (\<exists>r\<in>R. rec_id r = i \<and> field_key E f r = Some k)" for i
    using assms by (simp add: unique_rep_def)
  then show ?thesis by (intro set_eqI) (simp only: image_iff mem_Collect_eq bex_simps, blast)
qed

lemma lookup_eq_exact:
  assumes "indexes_rep E s R ci" "lookup_eq E ci f v = Some ids"
  shows "distinct ids \<and> set ids = rec_id ` {r \<in> R. stored_key E s f r = Some (index_key E v)}"
proof -
  let ?base = "indexes_from_schema s"
  note rep = assms(1)[unfolded indexes_rep_def Let_def]
  have k: "om_keys (ci_unique_maps ci) = om_keys (ci_unique_maps ?base)"
    "om_keys (ci_secondary_maps ci) = om_keys (ci_secondary_maps ?base)"
    using rep by (simp_all add: maps_rep_def)
  consider m where "om_get (ci_unique_maps ci) f = Some m"
    | m where "om_get (ci_unique_maps ci) f = None" "om_get (ci_secondary_maps ci) f = Some m"
    | m where "om_get (ci_unique_maps ci) f = None" "om_get (ci_secondary_maps ci) f = None"
        "om_get (ci_doc_path_maps ci) f = Some m"
    using assms(2) by (cases "om_get (ci_unique_maps ci) f"; cases "om_get (ci_secondary_maps ci) f";
      cases "om_get (ci_doc_path_maps ci) f") (simp_all add: lookup_eq_def)
  then show ?thesis
  proof cases
    case 1
    then have "unique_rep E f R m" "stored_key E s f = field_key E f"
      using rep om_get_keys[OF 1] k by (auto simp: maps_rep_def stored_key_def fun_eq_iff)
    moreover have "ids = (case om_get m (index_key E v) of Some i \<Rightarrow> [i] | None \<Rightarrow> [])"
      using assms(2) 1 by (simp add: lookup_eq_def)
    ultimately show ?thesis using unique_rep_lookup[of E f R m "index_key E v"] by (simp split: option.splits)
  next
    case 2
    then have "posting_rep (field_key E f) R m" "stored_key E s f = field_key E f"
      using rep om_get_keys[OF 2(2)] k by (auto simp: maps_rep_def stored_key_def fun_eq_iff)
    then show ?thesis using assms(2) 2 by (auto simp: lookup_eq_def posting_rep_def posting_ids_def)
  next
    case 3
    then have "posting_rep (path_key E f) R m" "stored_key E s f = path_key E f"
      using rep k om_get_None[of "ci_unique_maps ci" f] om_get_None[of "ci_secondary_maps ci" f]
      by (auto simp: maps_rep_def stored_key_def fun_eq_iff)
    then show ?thesis using assms(2) 3 by (auto simp: lookup_eq_def posting_rep_def posting_ids_def)
  qed
qed

lemma lookup_eq_covered:
  assumes "indexes_rep E s R ci"
  shows "lookup_eq E ci f v = None \<longleftrightarrow> \<not> has_equality_index (indexes_from_schema s) f"
proof -
  have "om_keys (ci_unique_maps ci) = om_keys (ci_unique_maps (indexes_from_schema s))"
    "om_keys (ci_secondary_maps ci) = om_keys (ci_secondary_maps (indexes_from_schema s))"
    "om_keys (ci_doc_path_maps ci) = om_keys (ci_doc_path_maps (indexes_from_schema s))"
    using assms by (simp_all add: indexes_rep_def maps_rep_def Let_def)
  note this[THEN om_get_same_keys, of f]
  then show ?thesis by (auto simp: lookup_eq_def has_equality_index_def split: option.splits)
qed

section \<open>Uniqueness\<close>

definition unique_clash :: "'n index_env \<Rightarrow> record_t set \<Rightarrow> record_t \<Rightarrow> record_id option \<Rightarrow> string \<Rightarrow> bool" where
  "unique_clash E R r repl f \<longleftrightarrow>
     (\<exists>s\<in>R. rec_id s \<noteq> rec_id r \<and> Some (rec_id s) \<noteq> repl \<and> field_key E f r \<noteq> None \<and> field_key E f s = field_key E f r)"

lemma unique_clash_lookup:
  assumes "unique_rep E f R m" "field_key E f r = Some k"
  shows "unique_clash E R r repl f \<longleftrightarrow> (\<exists>i. om_get m k = Some i \<and> i \<noteq> rec_id r \<and> Some i \<noteq> repl)"
proof -
  have "om_get m k = Some i \<longleftrightarrow> (\<exists>s\<in>R. rec_id s = i \<and> field_key E f s = Some k)" for i
    using assms(1) by (simp add: unique_rep_def)
  then show ?thesis unfolding unique_clash_def assms(2) by auto
qed

lemma check_unique_fields_Cons:
  assumes "om_get (ci_unique_maps ci) f = Some m" "unique_rep E f R m"
  shows "check_unique_fields E ci r repl (f # fs) =
    (if unique_clash E R r repl f then Inl (Err EUniqueViolation) else check_unique_fields E ci r repl fs)"
proof (cases "field_key E f r")
  case None
  then have "\<not> unique_clash E R r repl f" by (simp add: unique_clash_def)
  then show ?thesis using None
    by (cases "om_get (rec_fields r) f") (simp_all add: field_key_def value_key_def split: if_splits)
next
  case (Some k)
  then obtain v where "om_get (rec_fields r) f = Some v" "\<not> is_null v" "index_key E v = k"
    by (auto simp: field_key_def value_key_def split: option.splits if_splits)
  then show ?thesis using assms(1) unique_clash_lookup[OF assms(2) Some, of repl] by (simp split: option.split)
qed

lemma check_unique_fields_iff:
  "\<forall>f\<in>set fs. \<exists>m. om_get (ci_unique_maps ci) f = Some m \<and> unique_rep E f R m \<Longrightarrow>
   check_unique_fields E ci r repl fs =
    (if \<exists>f\<in>set fs. unique_clash E R r repl f then Inl (Err EUniqueViolation) else Inr ())"
proof (induction fs)
  case (Cons f fs)
  then obtain m where "om_get (ci_unique_maps ci) f = Some m" "unique_rep E f R m" by auto
  then show ?case using Cons check_unique_fields_Cons[of ci f m E R r repl fs] by (simp del: check_unique_fields.simps)
qed simp

lemma rep_unique_fields:
  assumes "indexes_rep E s R ci"
  shows "ci_unique_fields ci = ci_unique_fields (indexes_from_schema s)"
    "set (ci_unique_fields ci) = set (om_keys (ci_unique_maps (indexes_from_schema s)))"
    "f \<in> set (ci_unique_fields ci) \<Longrightarrow> \<exists>m. om_get (ci_unique_maps ci) f = Some m \<and> unique_rep E f R m"
proof -
  show "ci_unique_fields ci = ci_unique_fields (indexes_from_schema s)"
    using assms by (simp add: indexes_rep_def Let_def)
  then show k: "set (ci_unique_fields ci) = set (om_keys (ci_unique_maps (indexes_from_schema s)))"
    using fresh_from_schema[of s] by (simp add: fresh_indexes_def)
  show "\<exists>m. om_get (ci_unique_maps ci) f = Some m \<and> unique_rep E f R m" if "f \<in> set (ci_unique_fields ci)"
    using that k assms om_get_None[of "ci_unique_maps ci" f] by (auto simp: indexes_rep_def maps_rep_def Let_def)
qed

lemma check_unique_iff:
  assumes "indexes_rep E s R ci"
  shows "check_unique E ci r repl =
    (if \<exists>f\<in>set (ci_unique_fields (indexes_from_schema s)). unique_clash E R r repl f
     then Inl (Err EUniqueViolation) else Inr ())"
  unfolding check_unique_def
  using check_unique_fields_iff[of "ci_unique_fields ci" ci E R r repl] rep_unique_fields(1,3)[OF assms] by simp

lemma unique_compat_insert:
  assumes "unique_compat E f R" "rec_id r \<notin> rec_id ` R"
  shows "unique_compat E f (insert r R) \<longleftrightarrow> \<not> unique_clash E R r None f"
proof
  have ne: "rec_id s \<noteq> rec_id r" if "s \<in> R" for s using that assms(2) by (metis image_eqI)
  show "\<not> unique_clash E R r None f" if "unique_compat E f (insert r R)"
    using that ne unfolding unique_compat_def unique_clash_def by (metis insertCI)
  show "unique_compat E f (insert r R)" if no: "\<not> unique_clash E R r None f"
    unfolding unique_compat_def
  proof (intro ballI impI)
    fix a b
    assume "a \<in> insert r R" "b \<in> insert r R" "field_key E f a \<noteq> None" "field_key E f a = field_key E f b"
    then show "a = b" using no ne assms(1) unfolding unique_clash_def unique_compat_def
      by (cases "a = r"; cases "b = r") (simp_all, metis+)
  qed
qed

lemma check_unique_compat:
  assumes "indexes_rep E s R ci" "indexes_compat E s R" "rec_id r \<notin> rec_id ` R"
  shows "check_unique E ci r None = (if indexes_compat E s (insert r R) then Inr () else Inl (Err EUniqueViolation))"
proof -
  have "(\<exists>f\<in>set (ci_unique_fields (indexes_from_schema s)). unique_clash E R r None f) \<longleftrightarrow> \<not> indexes_compat E s (insert r R)"
    using assms(2) rep_unique_fields(1,2)[OF assms(1)] unique_compat_insert[OF _ assms(3)]
    unfolding indexes_compat_def by metis
  then show ?thesis by (simp add: check_unique_iff[OF assms(1)])
qed

section \<open>Rebuilding\<close>

lemma rebuild_loop_rep:
  assumes "indexes_rep E s R ci" "finite R" "indexes_compat E s R" "distinct (map rec_id rs)"
    "rec_id ` set rs \<inter> rec_id ` R = {}"
  shows "fst (rebuild_loop E rs ci) = (if indexes_compat E s (R \<union> set rs) then Inr () else Inl (Err EUniqueViolation)) \<and>
    (indexes_compat E s (R \<union> set rs) \<longrightarrow> indexes_rep E s (R \<union> set rs) (snd (rebuild_loop E rs ci)))"
  using assms
proof (induction rs arbitrary: R ci)
  case (Cons r rs)
  have r: "rec_id r \<notin> rec_id ` R" using Cons.prems by auto
  show ?case
  proof (cases "indexes_compat E s (insert r R)")
    case True
    have "indexes_rep E s (insert r R) (index_insert E r ci)"
      using ix.rep_ins Cons.prems(1,2) True r by blast
    then show ?thesis
      using Cons.IH[of "insert r R" "index_insert E r ci"] Cons.prems True
        check_unique_compat[OF Cons.prems(1,3) r] by (auto simp: image_iff)
  next
    case False
    then have "\<not> indexes_compat E s (R \<union> set (r # rs))" using ix.compat_mono[of E s "R \<union> set (r # rs)" "insert r R"] by auto
    then show ?thesis using False check_unique_compat[OF Cons.prems(1,3) r] by simp
  qed
qed simp

lemma indexes_compat_empty: "indexes_compat E s {}"
  by (simp add: indexes_compat_def unique_compat_def)

lemma rebuild_rep:
  assumes "indexes_rep E s R ci" "distinct (map rec_id rs)"
  shows "fst (index_rebuild E rs ci) = (if indexes_compat E s (set rs) then Inr () else Inl (Err EUniqueViolation)) \<and>
    (indexes_compat E s (set rs) \<longrightarrow> indexes_rep E s (set rs) (snd (index_rebuild E rs ci)))"
  using rebuild_loop_rep[OF rep_clear[OF assms(1)] _ indexes_compat_empty assms(2)] by (simp add: index_rebuild_def)

section \<open>Consistency check\<close>

text \<open>Schemas without a dot in a field name: there, the index on a name and the path of that name read
  the same value.\<close>

definition plain_schema :: "collection_schema \<Rightarrow> bool" where
  "plain_schema s \<longleftrightarrow> list_all (\<lambda>f. CHR ''.'' \<notin> set (fd_name f)) (cs_fields s)"

lemma split_once_None: "d \<notin> set s \<Longrightarrow> split_once d s = None"
  by (induction s) auto

lemma path_key_plain: "CHR ''.'' \<notin> set f \<Longrightarrow> path_key E f r = field_key E f r"
  by (cases "om_get (rec_fields r) f") (simp_all add: path_key_def field_key_def record_get_path_def split_once_None)

lemma fold_index_field_keys:
  "set (om_keys (ci_unique_maps (fold index_field fs ci))) \<union> set (om_keys (ci_secondary_maps (fold index_field fs ci))) \<subseteq>
   set (om_keys (ci_unique_maps ci)) \<union> set (om_keys (ci_secondary_maps ci)) \<union> fd_name ` set fs"
proof (induction fs arbitrary: ci)
  case (Cons f fs)
  have "set (om_keys (ci_unique_maps (index_field f ci))) \<union> set (om_keys (ci_secondary_maps (index_field f ci))) \<subseteq>
    insert (fd_name f) (set (om_keys (ci_unique_maps ci)) \<union> set (om_keys (ci_secondary_maps ci)))"
    by (auto simp: index_field_def Let_def set_om_keys split: field_type.splits if_splits)
  then show ?case using Cons.IH[of "index_field f ci"] by auto
qed simp

lemma stored_key_plain:
  assumes "plain_schema s"
  shows "stored_key E s f r = path_key E f r"
proof -
  have "CHR ''.'' \<notin> set f"
    if "f \<in> set (om_keys (ci_unique_maps (indexes_from_schema s))) \<or> f \<in> set (om_keys (ci_secondary_maps (indexes_from_schema s)))"
    using that assms fold_index_field_keys[of "cs_fields s" "\<lparr>ci_primary_field = None, ci_unique_fields = [],
      ci_secondary_fields = [], ci_unique_maps = [], ci_secondary_maps = [], ci_doc_path_maps = [], ci_text_maps = [],
      ci_vector_maps = [], ci_loaded_ann_metadata = [], ci_ann_cache = []\<rparr>"]
    by (auto simp: indexes_from_schema_def Let_def plain_schema_def list_all_iff om_keys_def)
  then show ?thesis using path_key_plain[of f E r] by (auto simp: stored_key_def Let_def)
qed

lemma resolves_stored:
  assumes "indexes_rep E s R ci" "r \<in> R" "has_equality_index (indexes_from_schema s) f" "value_key E v = stored_key E s f r"
  shows "resolves E ci r f v"
proof (cases "value_key E v")
  case None
  then show ?thesis by (auto simp: resolves_def value_key_def split: option.splits)
next
  case (Some k)
  then obtain w where w: "v = Some w" "index_key E w = k" by (auto simp: value_key_def split: option.splits if_splits)
  obtain ids where "lookup_eq E ci f w = Some ids" using lookup_eq_covered[OF assms(1), of f w] assms(3) by auto
  then show ?thesis using lookup_eq_exact[OF assms(1)] w Some assms(2,4) by (auto simp: resolves_def)
qed

lemma rep_maps_wf:
  assumes "indexes_rep E s R ci"
  shows "om_wf (ci_unique_maps ci)" "om_wf (ci_secondary_maps ci)" "om_wf (ci_doc_path_maps ci)" "om_wf (ci_text_maps ci)"
    "om_wf (ci_vector_maps ci)"
  using assms fresh_from_schema[of s] unfolding indexes_rep_def maps_rep_def fresh_indexes_def om_all_def Let_def om_wf_keys
  by simp_all

lemma posting_tf_present:
  "posting_tf m t i \<noteq> 0 \<Longrightarrow> (case om_get m t of Some p \<Rightarrow> om_get p i \<noteq> None | None \<Rightarrow> False)"
  by (auto simp: posting_tf_def split: option.splits)

lemma text_resolves_rep:
  assumes "text_rep E f R ti" "r \<in> R"
  shows "text_resolves E r (f, ti)"
proof (cases "om_get (rec_fields r) f")
  case (Some v)
  have "posting_tf (ti_postings ti) t (rec_id r) \<noteq> 0" if "t \<in> set (field_terms E f r)" for t
    using assms that by (simp add: text_rep_def count_list_0_iff)
  note this[THEN posting_tf_present]
  then show ?thesis using Some by (cases v) (simp_all add: text_resolves_def field_terms_def list_all_iff)
qed (simp add: text_resolves_def)

lemma rep_consistent:
  assumes "indexes_rep E s R ci" "plain_schema s" "r \<in> R"
  shows "record_consistent E ci r"
proof -
  note rep = assms(1)[unfolded indexes_rep_def Let_def]
  have fs: "set (ci_unique_fields ci) = set (om_keys (ci_unique_maps (indexes_from_schema s)))"
    "set (ci_secondary_fields ci) = set (om_keys (ci_secondary_maps (indexes_from_schema s)))"
    "om_keys (ci_doc_path_maps ci) = om_keys (ci_doc_path_maps (indexes_from_schema s))"
    using rep fresh_from_schema[of s] by (simp_all add: maps_rep_def fresh_indexes_def)
  have "resolves E ci r f (om_get (rec_fields r) f)" if "f \<in> set (ci_unique_fields ci @ ci_secondary_fields ci)" for f
    by (rule resolves_stored[OF assms(1,3)])
      (use that fs in \<open>auto simp: has_equality_index_def om_get_None stored_key_def field_key_def Let_def\<close>)
  moreover have "resolves E ci r p (record_get_path r p)" if "p \<in> set (om_keys (ci_doc_path_maps ci))" for p
    by (rule resolves_stored[OF assms(1,3)])
      (use that fs assms(2) in \<open>auto simp: has_equality_index_def om_get_None stored_key_plain path_key_def\<close>)
  moreover have "text_resolves E r p" if "p \<in> set (ci_text_maps ci)" for p
    using that om_wf_get[OF rep_maps_wf(4)[OF assms(1)]] rep text_resolves_rep[OF _ assms(3), of E "fst p" "snd p"]
    by (auto simp: maps_rep_def)
  ultimately show ?thesis by (simp add: record_consistent_def list_all_iff)
qed

section \<open>Snapshots\<close>

lemma om_extend_wf: "om_wf (pre @ m) \<Longrightarrow> om_extend m pre = pre @ m"
proof (induction m arbitrary: pre)
  case (Cons p m)
  obtain k v where p: "p = (k, v)" by (cases p)
  have "om_extend m (pre @ [p]) = (pre @ [p]) @ m" by (rule Cons.IH) (use Cons.prems in simp)
  then show ?case using om_insert_append(2)[of pre k v] om_wf_append_less[of pre k v m] Cons.prems p
    by (simp add: om_extend_def)
qed (simp add: om_extend_def)

lemma load_each_maps:
  assumes "\<And>f x. (f, x) \<in> set suf \<Longrightarrow> fld (D (f, x)) = f \<and> upd (D (f, x)) (e f) = Inr x" "om_wf (pre @ suf)"
  shows "load_each (\<lambda>d. om_expect (fld d) (upd d)) (map D suf) (pre @ map (\<lambda>p. (fst p, e (fst p))) suf) = Inr (pre @ suf)"
  using assms
proof (induction suf arbitrary: pre)
  case (Cons p suf)
  obtain f x where p: "p = (f, x)" by (cases p)
  have lt: "\<forall>a\<in>fst ` set pre. a < f" using om_wf_append_less[of pre f x suf] Cons.prems(2) p by simp
  have D: "fld (D (f, x)) = f" "upd (D (f, x)) (e f) = Inr x" using Cons.prems(1)[of f x] p by auto
  have "load_each (\<lambda>d. om_expect (fld d) (upd d)) (map D suf) ((pre @ [p]) @ map (\<lambda>p. (fst p, e (fst p))) suf) = Inr ((pre @ [p]) @ suf)"
    by (rule Cons.IH) (use Cons.prems in auto)
  moreover have "om_expect f (upd (D (f, x))) (pre @ (f, e f) # map (\<lambda>p. (fst p, e (fst p))) suf) =
    Inr (pre @ (f, x) # map (\<lambda>p. (fst p, e (fst p))) suf)"
    by (simp add: om_expect_def om_get_append[OF lt] om_insert_append(1)[OF lt] D)
  ultimately show ?case using p D by simp
qed simp

lemma load_fields:
  assumes "om_wf m" "om_wf b" "om_keys b = om_keys m"
    "\<And>f x e. om_get m f = Some x \<Longrightarrow> om_get b f = Some e \<Longrightarrow> fld (D (f, x)) = f \<and> upd (D (f, x)) e = Inr x"
  shows "load_each (\<lambda>d. om_expect (fld d) (upd d)) (map D m) b = Inr m"
proof -
  have "fld (D (f, x)) = f \<and> upd (D (f, x)) (the (om_get b f)) = Inr x" if "(f, x) \<in> set m" for f x
  proof -
    have "om_get m f = Some x" using om_wf_get[OF assms(1) that] by simp
    moreover obtain e where "om_get b f = Some e"
      using om_get_None[of b f] assms(3) om_get_keys[OF calculation] by auto
    ultimately show ?thesis using assms(4) by simp
  qed
  then have "load_each (\<lambda>d. om_expect (fld d) (upd d)) (map D m) ([] @ map (\<lambda>p. (fst p, the (om_get b (fst p)))) m) = Inr ([] @ m)"
    by (rule load_each_maps) (use assms(1) in simp_all)
  then show ?thesis using om_map_of_keys[OF assms(2,3)] by simp
qed

lemma load_postings:
  "om_wf (pre @ ps) \<Longrightarrow> \<forall>(t, p)\<in>set ps. om_wf p \<Longrightarrow>
   fold (\<lambda>(term, posting). om_entry term [] (om_extend posting)) ps pre = pre @ ps"
proof (induction ps arbitrary: pre)
  case (Cons q ps)
  obtain t p where q: "q = (t, p)" by (cases q)
  have lt: "\<forall>a\<in>fst ` set pre. a < t" using om_wf_append_less[of pre t p ps] Cons.prems(1) q by simp
  have "om_entry t [] (om_extend p) pre = pre @ [q]"
    using om_extend_wf[of "[]" p] Cons.prems(2) q om_get_append[OF lt, of "[]"] by (auto simp: om_entry_def om_insert_append(2)[OF lt])
  moreover have "fold (\<lambda>(term, posting). om_entry term [] (om_extend posting)) ps (pre @ [q]) = (pre @ [q]) @ ps"
    by (rule Cons.IH) (use Cons.prems in auto)
  ultimately show ?case using q by simp
qed simp

lemma load_lengths:
  "om_wf (pre @ ls) \<Longrightarrow> ti_doc_lengths ti = pre \<Longrightarrow>
   fold (\<lambda>(i, len) ti. ti\<lparr>ti_doc_lengths := om_entry i 0 (\<lambda>n. n + len) (ti_doc_lengths ti),
     ti_total_tokens := ti_total_tokens ti + len\<rparr>) ls ti =
   ti\<lparr>ti_doc_lengths := pre @ ls, ti_total_tokens := ti_total_tokens ti + sum_list (om_values ls)\<rparr>"
proof (induction ls arbitrary: pre ti)
  case (Cons q ls)
  obtain i n where q: "q = (i, n)" by (cases q)
  have lt: "\<forall>a\<in>fst ` set pre. a < i" using om_wf_append_less[of pre i n ls] Cons.prems(1) q by simp
  have e: "om_entry i 0 (\<lambda>k. k + n) pre = pre @ [q]"
    using om_get_append[OF lt, of "[]"] q by (simp add: om_entry_def om_insert_append(2)[OF lt])
  show ?case
    using Cons.IH[of "pre @ [q]" "ti\<lparr>ti_doc_lengths := pre @ [q], ti_total_tokens := ti_total_tokens ti + n\<rparr>"] Cons.prems q e
    by (simp add: om_values_def)
qed (simp add: om_values_def)

lemma posting_wfD:
  assumes "posting_wf m" "om_get m t = Some p"
  shows "om_wf p" "p \<noteq> []" "om_get p i = Some n \<Longrightarrow> 0 < n"
  using assms unfolding posting_wf_def by blast+

lemma text_rep_length:
  assumes "text_rep E f R ti"
  shows "r \<in> R \<Longrightarrow> om_get (ti_doc_lengths ti) (rec_id r) =
      (if field_terms E f r = [] then None else Some (length (field_terms E f r)))"
    "i \<notin> rec_id ` R \<Longrightarrow> om_get (ti_doc_lengths ti) i = None"
  using assms by (auto simp: text_rep_def split: nat.splits)

lemma text_rep_docs:
  assumes "text_rep E f R ti"
  shows "set (om_keys (ti_doc_lengths ti)) = rec_id ` {r \<in> R. field_terms E f r \<noteq> []}"
proof (intro set_eqI iffI)
  fix i
  assume "i \<in> set (om_keys (ti_doc_lengths ti))"
  then have i: "om_get (ti_doc_lengths ti) i \<noteq> None" by (simp add: om_get_None)
  then have "i \<in> rec_id ` R" using text_rep_length(2)[OF assms, of i] by (cases "i \<in> rec_id ` R") simp_all
  then obtain r where "r \<in> R" "rec_id r = i" by blast
  then show "i \<in> rec_id ` {r \<in> R. field_terms E f r \<noteq> []}" using i text_rep_length(1)[OF assms, of r] by auto
next
  fix i
  assume "i \<in> rec_id ` {r \<in> R. field_terms E f r \<noteq> []}"
  then obtain r where "r \<in> R" "rec_id r = i" "field_terms E f r \<noteq> []" by auto
  then show "i \<in> set (om_keys (ti_doc_lengths ti))" using text_rep_length(1)[OF assms, of r] by (auto dest: om_get_keys)
qed

lemma text_rep_total:
  assumes "text_rep E f R ti" "finite R" "inj_on rec_id R"
  shows "ti_total_tokens ti = sum_list (om_values (ti_doc_lengths ti))"
proof -
  let ?m = "ti_doc_lengths ti" and ?n = "\<lambda>r. length (field_terms E f r)" and ?D = "{r \<in> R. field_terms E f r \<noteq> []}"
  have inj: "inj_on rec_id ?D" using assms(3) by (rule inj_on_subset) auto
  have "sum_list (om_values ?m) = (\<Sum>k\<in>rec_id ` ?D. the (om_get ?m k))"
    using om_sum_values[of ?m] text_rep_docs[OF assms(1)] assms(1) by (simp add: text_rep_def)
  also have "\<dots> = (\<Sum>r\<in>?D. the (om_get ?m (rec_id r)))" using sum.reindex[OF inj] by (simp add: comp_def)
  also have "\<dots> = sum ?n ?D" by (rule sum.cong) (simp_all add: text_rep_length(1)[OF assms(1)])
  also have "\<dots> = sum ?n R" by (rule sum.mono_neutral_left) (use assms(2) in auto)
  finally show ?thesis using assms(1) by (simp add: text_rep_def)
qed

lemma text_rep_no_lengths:
  assumes "text_rep E f R ti" "ti_doc_lengths ti = []"
  shows "ti_postings ti = []"
proof (rule ccontr)
  assume "ti_postings ti \<noteq> []"
  then obtain t p ps where ps: "ti_postings ti = (t, p) # ps" by (cases "ti_postings ti") auto
  have wf: "posting_wf (ti_postings ti)" using assms(1) by (simp add: text_rep_def)
  have get: "om_get (ti_postings ti) t = Some p" using ps by simp
  obtain i n q where p: "p = (i, n) # q" using posting_wfD(2)[OF wf get] by (cases p) auto
  then have "0 < n" using posting_wfD(3)[OF wf get, of i n] by simp
  then have tf: "posting_tf (ti_postings ti) t i \<noteq> 0" using ps p by (simp add: posting_tf_def)
  have "i \<in> rec_id ` R"
  proof (rule ccontr)
    assume "i \<notin> rec_id ` R"
    then have "posting_tf (ti_postings ti) t i = 0" using assms(1) by (simp add: text_rep_def)
    then show False using tf by simp
  qed
  then obtain r where r: "r \<in> R" "rec_id r = i" by auto
  have "field_terms E f r = []" using text_rep_length(1)[OF assms(1) r(1)] assms(2) by (simp split: if_splits)
  moreover have "posting_tf (ti_postings ti) t (rec_id r) = count_list (field_terms E f r) t"
    using assms(1) r(1) by (simp add: text_rep_def)
  ultimately show False using tf r(2) by simp
qed

lemma load_text_index_rep:
  assumes "text_rep E f R ti" "finite R" "inj_on rec_id R"
  shows "load_text_index \<lparr>tid_field = f, tid_postings = ti_postings ti, tid_doc_lengths = ti_doc_lengths ti\<rparr> text_index_default = ti"
proof -
  have wf: "om_wf (ti_postings ti)" "om_wf (ti_doc_lengths ti)" "\<forall>(t, p)\<in>set (ti_postings ti). om_wf p"
  proof -
    have w: "posting_wf (ti_postings ti)" using assms(1) by (simp add: text_rep_def)
    then show "om_wf (ti_postings ti)" "om_wf (ti_doc_lengths ti)" using assms(1) by (simp_all add: text_rep_def posting_wf_def)
    then show "\<forall>(t, p)\<in>set (ti_postings ti). om_wf p"
      using posting_wfD(1)[OF w] om_wf_get[of "ti_postings ti"] by (metis case_prodI2 fst_conv snd_conv)
  qed
  have p: "fold (\<lambda>(term, posting). om_entry term [] (om_extend posting)) (ti_postings ti) [] = ti_postings ti"
    using load_postings[of "[]" "ti_postings ti"] wf by simp
  show ?thesis
  proof (cases "ti_doc_lengths ti = []")
    case True
    then have "ti_postings ti = []" "ti_total_tokens ti = 0"
      using text_rep_no_lengths[OF assms(1)] text_rep_total[OF assms] by (simp_all add: om_values_def)
    then show ?thesis using True
      by (simp add: load_text_index_def rebuild_lengths_def text_index_default_def om_values_def Let_def)
  next
    case False
    then show ?thesis
      using load_lengths[of "[]" "ti_doc_lengths ti" "\<lparr>ti_postings = ti_postings ti, ti_doc_lengths = [], ti_total_tokens = 0\<rparr>"]
        wf p text_rep_total[OF assms] by (simp add: load_text_index_def text_index_default_def Let_def)
  qed
qed

lemma rep_keys:
  assumes "indexes_rep E s R ci"
  shows "om_keys (ci_unique_maps ci) = om_keys (ci_unique_maps (indexes_from_schema s))"
    "om_keys (ci_secondary_maps ci) = om_keys (ci_secondary_maps (indexes_from_schema s))"
    "om_keys (ci_doc_path_maps ci) = om_keys (ci_doc_path_maps (indexes_from_schema s))"
    "om_keys (ci_text_maps ci) = om_keys (ci_text_maps (indexes_from_schema s))"
    "om_keys (ci_vector_maps ci) = om_keys (ci_vector_maps (indexes_from_schema s))"
  using assms by (simp_all add: indexes_rep_def maps_rep_def Let_def)

lemma rep_get:
  assumes "indexes_rep E s R ci"
  shows "om_get (ci_unique_maps ci) f = Some m \<Longrightarrow> unique_rep E f R m"
    "om_get (ci_secondary_maps ci) f = Some p \<Longrightarrow> posting_rep (field_key E f) R p"
    "om_get (ci_doc_path_maps ci) f = Some p \<Longrightarrow> posting_rep (path_key E f) R p"
    "om_get (ci_text_maps ci) f = Some ti \<Longrightarrow> text_rep E f R ti"
    "om_get (ci_vector_maps ci) f = Some vi \<Longrightarrow> vector_rep (\<lambda>f. the (vector_dim (indexes_from_schema s) f)) f R vi"
  using assms by (simp_all add: indexes_rep_def maps_rep_def Let_def)

lemma fresh_get:
  "om_get (ci_unique_maps (indexes_from_schema s)) f = Some m \<Longrightarrow> m = []"
  "om_get (ci_secondary_maps (indexes_from_schema s)) f = Some p \<Longrightarrow> p = []"
  "om_get (ci_doc_path_maps (indexes_from_schema s)) f = Some p \<Longrightarrow> p = []"
  "om_get (ci_text_maps (indexes_from_schema s)) f = Some ti \<Longrightarrow> ti = text_index_default"
  "om_get (ci_vector_maps (indexes_from_schema s)) f = Some vi \<Longrightarrow> vi_entries vi = []"
  using fresh_from_schema[of s] by (simp_all add: fresh_indexes_def om_all_def)

lemma load_maps:
  assumes "indexes_rep E s R ci" "finite R" "inj_on rec_id R"
  defines "base \<equiv> indexes_from_schema s"
  shows "load_each load_unique (map (\<lambda>(f, m). \<lparr>uid_field = f, uid_entries = m\<rparr>) (ci_unique_maps ci)) (ci_unique_maps base) = Inr (ci_unique_maps ci)"
    "load_each load_secondary (map (\<lambda>(f, m). \<lparr>sid_field = f, sid_entries = m\<rparr>) (ci_secondary_maps ci)) (ci_secondary_maps base) = Inr (ci_secondary_maps ci)"
    "load_each load_secondary (map (\<lambda>(f, m). \<lparr>sid_field = f, sid_entries = m\<rparr>) (ci_doc_path_maps ci)) (ci_doc_path_maps base) = Inr (ci_doc_path_maps ci)"
    "load_each load_text (map (\<lambda>(f, ti). \<lparr>tid_field = f, tid_postings = ti_postings ti, tid_doc_lengths = ti_doc_lengths ti\<rparr>) (ci_text_maps ci)) (ci_text_maps base) = Inr (ci_text_maps ci)"
    "load_each load_vector (map (\<lambda>(f, vi). \<lparr>vid_field = f, vid_dim = vi_dim vi, vid_entries = vi_entries vi\<rparr>) (ci_vector_maps ci)) (ci_vector_maps base) = Inr (ci_vector_maps ci)"
proof -
  note wf = rep_maps_wf[OF assms(1)] rep_maps_wf[OF rep_from_schema[of E s], folded base_def]
  note keys = rep_keys[OF assms(1), folded base_def, symmetric]
  have ext: "om_extend m [] = m" if "om_wf m" for m using om_extend_wf[of "[]" m] that by simp
  note get = rep_get[OF assms(1)] and fresh = fresh_get[of s, folded base_def]
  show "load_each load_unique (map (\<lambda>(f, m). \<lparr>uid_field = f, uid_entries = m\<rparr>) (ci_unique_maps ci)) (ci_unique_maps base) = Inr (ci_unique_maps ci)"
    unfolding load_unique_def[abs_def] by (rule load_fields[OF wf(1,6) keys(1)]) (auto dest!: get(1) fresh(1) simp: unique_rep_def ext)
  show "load_each load_secondary (map (\<lambda>(f, m). \<lparr>sid_field = f, sid_entries = m\<rparr>) (ci_secondary_maps ci)) (ci_secondary_maps base) = Inr (ci_secondary_maps ci)"
    unfolding load_secondary_def[abs_def] by (rule load_fields[OF wf(2,7) keys(2)]) (auto dest!: get(2) fresh(2) simp: posting_rep_def ext)
  show "load_each load_secondary (map (\<lambda>(f, m). \<lparr>sid_field = f, sid_entries = m\<rparr>) (ci_doc_path_maps ci)) (ci_doc_path_maps base) = Inr (ci_doc_path_maps ci)"
    unfolding load_secondary_def[abs_def] by (rule load_fields[OF wf(3,8) keys(3)]) (auto dest!: get(3) fresh(3) simp: posting_rep_def ext)
  show "load_each load_text (map (\<lambda>(f, ti). \<lparr>tid_field = f, tid_postings = ti_postings ti, tid_doc_lengths = ti_doc_lengths ti\<rparr>) (ci_text_maps ci)) (ci_text_maps base) = Inr (ci_text_maps ci)"
    unfolding load_text_def[abs_def] by (rule load_fields[OF wf(4,9) keys(4)]) (auto dest!: get(4) fresh(4) simp: load_text_index_rep[OF _ assms(2,3)])
  have "vi_dim vi = vi_dim ve \<and> ve\<lparr>vi_entries := om_extend (vi_entries vi) (vi_entries ve)\<rparr> = vi"
    if "om_get (ci_vector_maps ci) f = Some vi" "om_get (ci_vector_maps base) f = Some ve" for f vi ve
    using get(5)[OF that(1)] fresh(5)[OF that(2)] that(2) by (simp add: vector_rep_def vector_dim_Some base_def ext)
  then show "load_each load_vector (map (\<lambda>(f, vi). \<lparr>vid_field = f, vid_dim = vi_dim vi, vid_entries = vi_entries vi\<rparr>) (ci_vector_maps ci)) (ci_vector_maps base) = Inr (ci_vector_maps ci)"
    unfolding load_vector_def[abs_def] by (intro load_fields[OF wf(5,10) keys(5)]) simp
qed

lemma schema_cache: "ci_ann_cache (indexes_from_schema s) = []"
proof -
  have "ci_ann_cache (fold index_field fs ci) = ci_ann_cache ci" for fs ci
    by (induction fs arbitrary: ci) (auto simp: index_field_def Let_def split: field_type.split)
  then show ?thesis by (simp add: indexes_from_schema_def Let_def)
qed

lemma from_snapshot_rep:
  assumes "indexes_rep E s R ci" "finite R" "inj_on rec_id R"
  shows "from_snapshot s (index_snapshot_of ci v fp) = Inr (ci\<lparr>ci_loaded_ann_metadata := ann_preview_status ci fp, ci_ann_cache := []\<rparr>)"
proof -
  let ?base = "indexes_from_schema s"
  have pf: "ci_primary_field ?base = ci_primary_field ci" "ci_unique_fields ?base = ci_unique_fields ci"
    "ci_secondary_fields ?base = ci_secondary_fields ci"
    using assms(1) by (simp_all add: indexes_rep_def Let_def)
  have "snapshot_shape ?base (index_snapshot_of ci v fp)"
    using rep_keys[OF assms(1)]
    by (simp add: snapshot_shape_def same_fields_def index_snapshot_of_def om_keys_def comp_def case_prod_beta)
  then show ?thesis using pf schema_cache[of s] load_maps[OF assms]
    by (simp add: from_snapshot_def Let_def index_snapshot_of_def bind_res_def)
qed

section \<open>Runs\<close>

text \<open>The operations on the indexes of a collection that keep them in step with its records, of which \<open>R\<close> are stored before
  and \<open>R'\<close> after: an insertion or replacement that \<open>check_unique\<close> has just accepted, a removal, a rebuild that succeeds, and
  loading a snapshot.\<close>

inductive index_op :: "'n index_env \<Rightarrow> collection_schema \<Rightarrow> record_t set \<Rightarrow> collection_indexes \<Rightarrow> record_t set \<Rightarrow>
    collection_indexes \<Rightarrow> bool" for E s where
  op_insert: "rec_id r \<notin> rec_id ` R \<Longrightarrow> check_unique E ci r None = Inr () \<Longrightarrow>
    index_op E s R ci (insert r R) (index_insert E r ci)"
| op_remove: "r \<in> R \<Longrightarrow> index_op E s R ci (R - {r}) (index_remove E r ci)"
| op_replace: "old \<in> R \<Longrightarrow> rec_id new = rec_id old \<Longrightarrow> check_unique E ci new (Some (rec_id old)) = Inr () \<Longrightarrow>
    index_op E s R ci (insert new (R - {old})) (index_insert E new (index_remove E old ci))"
| op_rebuild: "distinct (map rec_id rs) \<Longrightarrow> index_rebuild E rs ci = (Inr (), ci') \<Longrightarrow> index_op E s R ci (set rs) ci'"
| op_snapshot: "from_snapshot s (index_snapshot_of ci v fp) = Inr ci' \<Longrightarrow> index_op E s R ci R ci'"

text \<open>The indexes of a collection with schema \<open>s\<close> holding the records \<open>R\<close>, reached by these operations and by approximate
  searches, which change nothing but the cache of graphs; here the cache may become any.\<close>

inductive index_run :: "'n index_env \<Rightarrow> collection_schema \<Rightarrow> record_t set \<Rightarrow> collection_indexes \<Rightarrow> bool" for E s where
  run_new: "index_run E s {} (indexes_from_schema s)"
| run_op: "index_run E s R ci \<Longrightarrow> index_op E s R ci R' ci' \<Longrightarrow> index_run E s R' ci'"
| run_search: "index_run E s R ci \<Longrightarrow> index_run E s R (ci\<lparr>ci_ann_cache := cache\<rparr>)"

lemma rep_ann: "indexes_rep E s R (ci\<lparr>ci_loaded_ann_metadata := x\<rparr>) = indexes_rep E s R ci"
  "indexes_rep E s R (ci\<lparr>ci_ann_cache := c\<rparr>) = indexes_rep E s R ci"
  by (simp_all add: indexes_rep_def)

lemma replace_compat:
  assumes "indexes_rep E s R ci" "indexes_compat E s R" "inj_on rec_id R" "old \<in> R" "rec_id new = rec_id old"
    "check_unique E ci new (Some (rec_id old)) = Inr ()"
  shows "indexes_compat E s (insert new (R - {old}))"
  unfolding indexes_compat_def
proof
  fix f
  assume f: "f \<in> set (om_keys (ci_unique_maps (indexes_from_schema s)))"
  have fresh: "rec_id new \<notin> rec_id ` (R - {old})" using assms(3-5) by (auto simp: inj_on_def)
  have "unique_compat E f (R - {old})" using assms(2) f by (auto simp: indexes_compat_def unique_compat_def)
  moreover have "\<not> unique_clash E R new (Some (rec_id old)) f"
    using assms(6) f rep_unique_fields(1,2)[OF assms(1)] by (auto simp: check_unique_iff[OF assms(1)] split: if_splits)
  then have "\<not> unique_clash E (R - {old}) new None f"
    using assms(3-5) by (auto simp: unique_clash_def inj_on_def)
  ultimately show "unique_compat E f (insert new (R - {old}))" using unique_compat_insert[OF _ fresh] by blast
qed

lemma index_op_rep:
  assumes "index_op E s R ci R' ci'" "finite R \<and> inj_on rec_id R \<and> indexes_compat E s R \<and> indexes_rep E s R ci"
  shows "finite R' \<and> inj_on rec_id R' \<and> indexes_compat E s R' \<and> indexes_rep E s R' ci'"
  using assms
proof cases
  case (op_insert r)
  then have "indexes_compat E s (insert r R)" using assms(2) check_unique_compat[of E s R ci r] by (simp split: if_splits)
  then show ?thesis using assms(2) op_insert ix.rep_ins[of E s R ci r] by auto
next
  case (op_remove r)
  then show ?thesis using assms(2) ix.rep_del[of E s R ci r] ix.compat_mono[of E s R "R - {r}"] by (auto intro: inj_on_subset)
next
  case (op_replace old new)
  then have "indexes_compat E s (insert new (R - {old}))" using assms(2) replace_compat[of E s R ci old new] by simp
  moreover have "inj_on rec_id (insert new (R - {old}))" using assms(2) op_replace by (auto simp: inj_on_def)
  ultimately show ?thesis using assms(2) op_replace ix.rep_replace[of E s R ci old new] by simp
next
  case (op_rebuild rs)
  then show ?thesis using assms(2) rebuild_rep[of E s R ci rs] by (auto simp: distinct_map split: if_splits)
next
  case (op_snapshot v fp)
  then show ?thesis using assms(2) from_snapshot_rep[of E s R ci v fp] by (auto simp: rep_ann)
qed

lemma index_run_rep:
  "index_run E s R ci \<Longrightarrow> finite R \<and> inj_on rec_id R \<and> indexes_compat E s R \<and> indexes_rep E s R ci"
proof (induction rule: index_run.induct)
  case (run_op R ci R' ci')
  then show ?case using index_op_rep[of E s R ci R' ci'] by blast
qed (simp_all add: rep_from_schema indexes_compat_empty rep_ann)

text \<open>No operation leaves a graph in the cache.\<close>

lemma maintained_cache [simp]: "ci_ann_cache (index_insert E r ci) = []" "ci_ann_cache (index_remove E r ci) = []"
  "ci_ann_cache (index_clear ci) = []"
  by (simp_all add: index_insert_def index_remove_def index_clear_def invalidate_ann_cache_def Let_def)

lemma rebuild_loop_cache: "rebuild_loop E rs ci = (r, ci') \<Longrightarrow> ci_ann_cache ci = [] \<Longrightarrow> ci_ann_cache ci' = []"
proof (induction rs arbitrary: ci)
  case (Cons a rs)
  then show ?case using Cons.IH[of "index_insert E a ci"] by (auto split: sum.splits)
qed simp

lemma snapshot_cache: "from_snapshot s snap = Inr ci \<Longrightarrow> ci_ann_cache ci = []"
  using schema_cache[of s] by (auto simp: from_snapshot_def Let_def bind_res_def split: if_splits sum.splits)

lemma index_op_cache: "index_op E s R ci R' ci' \<Longrightarrow> ci_ann_cache ci' = []"
  by (induction rule: index_op.induct) (auto simp: index_rebuild_def dest: snapshot_cache rebuild_loop_cache)

end
