(* ===== verification/Index_Props.thy ===== *)
theory Index_Props
  imports Index_Facts Core_Props
begin

text \<open>
  Snapshot files, and the properties of the indexes with their witnesses.
\<close>

text \<open>Every vector of the snapshot is finite; \<open>serde_json\<close> writes other floats as null.\<close>

definition finite_vectors :: "index_snapshot \<Rightarrow> bool" where
  "finite_vectors snap = list_all (\<lambda>v. list_all (\<lambda>p. list_all f32_is_finite (snd p)) (vid_entries v)) (is_vectors snap)"

text \<open>The documented behaviour of \<open>serde_json\<close> on snapshots.\<close>

definition snapshot_codec :: "index_codec \<Rightarrow> bool" where
  "snapshot_codec c \<longleftrightarrow>
     (\<forall>snap b. finite_vectors snap \<longrightarrow> snapshot_to_vec c snap = Some b \<longrightarrow> snapshot_from_slice c b = Some snap)"

lemma parse_frame:
  assumes "length payload < 2 ^ 32"
  shows "parse_snapshot c (frame_snapshot c payload) =
    (case snapshot_from_slice c payload of None \<Rightarrow> Inl ECorruption | Some s \<Rightarrow> Inr s)"
proof -
  have len: "unat (word_of_nat (length payload) :: u32) = length payload" using assms by (simp add: unsigned_of_nat take_bit_nat_eq_self)
  have crc: "unat w < 256 ^ 4" for w :: u32
  proof -
    have "unat w < 2 ^ LENGTH(32)" by (rule unsigned_less)
    then show ?thesis by simp
  qed
  have m: "length INDEX_MAGIC = 4" by (simp add: INDEX_MAGIC_def as_bytes_def)
  have v: "unat INDEX_FORMAT_VERSION < 256 ^ 4" by (rule crc)
  show ?thesis
    using assms crc[of "index_crc32 c payload"] v unfolding parse_snapshot_def frame_snapshot_def len Let_def
    by (simp add: m of_be_bytes_be_bytes del: be_bytes.simps)
qed

lemma snapshot_file_roundtrip:
  assumes "snapshot_codec c" "finite_vectors snap" "write_snapshot c path snap d = (r, d')"
    "\<And>b. snapshot_to_vec c snap = Some b \<Longrightarrow> length b < 2 ^ 32"
  shows "(r = Inr () \<and> read_snapshot c path (d'\<lparr>dir_script := []\<rparr>) = (Inr snap, d'\<lparr>dir_script := []\<rparr>)) \<or>
    ((r = Inl EIo \<or> r = Inl EStorage) \<and> file_of d' path = file_of d path)"
proof (cases "snapshot_to_vec c snap")
  case None
  then show ?thesis using assms(3) by (auto simp: write_snapshot_def io_error_def)
next
  case (Some b)
  then have w: "fs_swap (path @ ''.tmp'') path (frame_snapshot c b) d = (r, d')" using assms(3) by (simp add: write_snapshot_def)
  have "parse_snapshot c (frame_snapshot c b) = Inr snap"
    using parse_frame[of b c] assms(1,2,4) Some by (auto simp: snapshot_codec_def)
  moreover have "fs_read path (d'\<lparr>dir_script := []\<rparr>) = (Inr x, d'\<lparr>dir_script := []\<rparr>)" if "file_of d' path = Some x" for x
    using that by (simp add: fs_read_def io_pop_def file_of_def)
  ultimately show ?thesis using fs_swap_file[OF w] by (auto simp: read_snapshot_def io_bind_def)
qed

section \<open>An example\<close>

definition demo_index_env :: "demo_num index_env" where
  "demo_index_env =
     \<lparr>ie_json = demo_json\<lparr>json_to_string := (\<lambda>j. case j of JString s \<Rightarrow> Some s | _ \<Rightarrow> None)\<rparr>,
      ie_tokenize = (\<lambda>s. filter (\<lambda>t. t \<noteq> []) (split_on CHR '' '' s))\<rparr>"

definition demo_schema :: collection_schema where
  "demo_schema =
     (schema_new ''users'')
       \<lparr>cs_fields := [(field_def_new ''email'' FString)\<lparr>fd_primary_key := True\<rparr>,
          (field_def_new ''status'' FString)\<lparr>fd_indexed := True\<rparr>, field_def_new ''vec'' (FVector 2)],
        cs_indexes := [\<lparr>ix_path = ''status'', ix_kind = FullText\<rparr>]\<rparr>"

definition demo_user :: "record_id \<Rightarrow> string \<Rightarrow> string \<Rightarrow> record_t" where
  "demo_user i email status =
     record_new i ''users'' [(''email'', VText email), (''status'', VText status), (''vec'', VVector [0x3F800000, 0])]"

definition demo_indexes :: collection_indexes where
  "demo_indexes =
     index_insert demo_index_env (demo_user 2 ''b'' ''on'')
       (index_insert demo_index_env (demo_user 1 ''a'' ''on'') (indexes_from_schema demo_schema))"

lemma demo_index_run:
  "index_run demo_index_env demo_schema {demo_user 2 ''b'' ''on'', demo_user 1 ''a'' ''on''} demo_indexes"
proof -
  have "index_run demo_index_env demo_schema {demo_user 1 ''a'' ''on''}
    (index_insert demo_index_env (demo_user 1 ''a'' ''on'') (indexes_from_schema demo_schema))"
    by (rule run_op[OF run_new op_insert]) (simp, code_simp)
  then show ?thesis unfolding demo_indexes_def
    by (rule run_op[OF _ op_insert]) (simp add: demo_user_def record_new_def, code_simp)
qed

definition demo_index_codec :: index_codec where
  "demo_index_codec =
     \<lparr>snapshot_to_vec = (\<lambda>s. if s = index_snapshot_of demo_indexes 1 7 then Some [1] else None),
      snapshot_from_slice = (\<lambda>b. if b = [1] then Some (index_snapshot_of demo_indexes 1 7) else None),
      imanifest_to_vec = (\<lambda>_. None), imanifest_from_slice = (\<lambda>_. None), index_crc32 = (\<lambda>_. 5)\<rparr>"

section \<open>Properties\<close>

text \<open>C27. After any sequence of removals, successful rebuilds, snapshot loads, and insertions and replacements each of which
  \<open>check_unique\<close> accepted on the indexes it changes, an equality lookup returns each record whose indexed value has the key
  of the query value, once, and no other; it declines exactly the fields without an index; and two records never share
  the key of a unique field.  The engine does not always check a record on the indexes it then changes: an update and a
  commit check all their records before they change the indexes, and the theorem does not cover them when two of those records
  clash with one another.\<close>

theorem index_lookup_exact:
  assumes "index_run E s R ci"
  shows "(case lookup_eq E ci f v of
      None \<Rightarrow> \<not> has_equality_index (indexes_from_schema s) f
    | Some ids \<Rightarrow> distinct ids \<and> set ids = rec_id ` {r \<in> R. stored_key E s f r = Some (index_key E v)}) \<and>
    indexes_compat E s R"
proof (cases "lookup_eq E ci f v")
  case None
  then show ?thesis using lookup_eq_covered[of E s R ci f v] index_run_rep[OF assms] by auto
next
  case (Some ids)
  then show ?thesis using lookup_eq_exact[of E s R ci f v ids] index_run_rep[OF assms] by auto
qed

theorem index_lookup_exact_witness:
  "lookup_eq demo_index_env demo_indexes ''status'' (VText ''on'') = Some [1, 2] \<and>
   set [1, 2] = rec_id ` {r \<in> {demo_user 2 ''b'' ''on'', demo_user 1 ''a'' ''on''}.
     stored_key demo_index_env demo_schema ''status'' r = Some (index_key demo_index_env (VText ''on''))}"
proof -
  have l: "lookup_eq demo_index_env demo_indexes ''status'' (VText ''on'') = Some [1, 2]" by code_simp
  show ?thesis using index_lookup_exact[OF demo_index_run, of "''status''" "VText ''on''"] l by simp
qed

text \<open>C28. The uniqueness check accepts a record exactly when no other record, apart from the one it
  replaces, holds the same non-null value in a unique field; it never panics.\<close>

theorem check_unique_exact:
  assumes "index_run E s R ci"
  shows "check_unique E ci r repl =
    (if \<exists>f\<in>set (ci_unique_fields ci). unique_clash E R r repl f then Inl (Err EUniqueViolation) else Inr ())"
  using index_run_rep[OF assms] rep_unique_fields(1)[of E s R ci] check_unique_iff[of E s R ci r repl] by auto

theorem check_unique_exact_witness:
  "check_unique demo_index_env demo_indexes (demo_user 3 ''a'' ''off'') None = Inl (Err EUniqueViolation) \<and>
   (\<exists>f\<in>set (ci_unique_fields demo_indexes).
      unique_clash demo_index_env {demo_user 2 ''b'' ''on'', demo_user 1 ''a'' ''on''} (demo_user 3 ''a'' ''off'') None f)"
proof -
  have "check_unique demo_index_env demo_indexes (demo_user 3 ''a'' ''off'') None = Inl (Err EUniqueViolation)" by code_simp
  then show ?thesis using check_unique_exact[OF demo_index_run, of "demo_user 3 ''a'' ''off''" None] by (simp split: if_splits)
qed

text \<open>C29. A rebuild succeeds exactly when the records respect the unique fields, and then answers every
  lookup with the same records as the incrementally maintained indexes of the same records.\<close>

theorem rebuild_equals_incremental:
  assumes "index_run E s R ci" "index_run E s S ci0" "distinct (map rec_id rs)"
  shows "fst (index_rebuild E rs ci0) = (if indexes_compat E s (set rs) then Inr () else Inl (Err EUniqueViolation)) \<and>
    (set rs = R \<longrightarrow> map_option set (lookup_eq E (snd (index_rebuild E rs ci0)) f v) = map_option set (lookup_eq E ci f v))"
proof -
  have R: "indexes_compat E s R" "indexes_rep E s R ci" "indexes_rep E s S ci0"
    using index_run_rep assms(1,2) by blast+
  note b = rebuild_rep[OF R(3) assms(3)]
  have "map_option set (lookup_eq E ci' f v) = map_option set (lookup_eq E ci f v)" if "indexes_rep E s R ci'" for ci'
    using lookup_eq_exact[OF that, of f v] lookup_eq_exact[OF R(2), of f v]
      lookup_eq_covered[OF that, of f v] lookup_eq_covered[OF R(2), of f v]
    by (cases "lookup_eq E ci' f v"; cases "lookup_eq E ci f v") auto
  then show ?thesis using b R(1) by auto
qed

theorem rebuild_equals_incremental_witness:
  "map_option set (lookup_eq demo_index_env (snd (index_rebuild demo_index_env
     [demo_user 1 ''a'' ''on'', demo_user 2 ''b'' ''on''] demo_indexes)) ''status'' (VText ''on'')) = Some {1, 2}"
proof -
  have "map_option set (lookup_eq demo_index_env demo_indexes ''status'' (VText ''on'')) = Some {1, 2}" by code_simp
  moreover have "distinct (map rec_id [demo_user 1 ''a'' ''on'', demo_user 2 ''b'' ''on''])" by code_simp
  ultimately show ?thesis
    using rebuild_equals_incremental[OF demo_index_run demo_index_run,
      of "[demo_user 1 ''a'' ''on'', demo_user 2 ''b'' ''on'']" "''status''" "VText ''on''"] by auto
qed

text \<open>C30. The consistency check of \<open>auradb check\<close> passes on the records the indexes hold, when no field
  name contains a dot.\<close>

theorem consistency_check_passes:
  assumes "index_run E s R ci" "plain_schema s" "set rs \<subseteq> R"
  shows "consistency_check E ci rs = Inr (length rs)"
proof -
  have "record_consistent E ci r" if "r \<in> set rs" for r
    using rep_consistent[of E s R ci r] index_run_rep[OF assms(1)] assms(2,3) that by blast
  then show ?thesis by (simp add: consistency_check_def list_all_iff)
qed

theorem consistency_check_passes_witness:
  "consistency_check demo_index_env demo_indexes [demo_user 2 ''b'' ''on''] = Inr 1"
proof -
  have "plain_schema demo_schema" by code_simp
  then show ?thesis
    using consistency_check_passes[OF demo_index_run, of "[demo_user 2 ''b'' ''on'']"] by simp
qed

text \<open>C31. Snapshots of finite vectors survive the disk: after a successful write, reading the file and
  loading it gives back the indexes, with no graph cached; a failed write leaves the old file.\<close>

theorem index_snapshot_roundtrip:
  assumes "index_run E s R ci" "snapshot_codec c" "finite_vectors (index_snapshot_of ci v fp)"
    "\<And>b. snapshot_to_vec c (index_snapshot_of ci v fp) = Some b \<Longrightarrow> length b < 2 ^ 32"
    "write_snapshot c path (index_snapshot_of ci v fp) d = (r, d')"
  shows "if r = Inr ()
    then (\<exists>snap. fst (read_snapshot c path (d'\<lparr>dir_script := []\<rparr>)) = Inr snap \<and> is_fingerprint snap = fp \<and>
       from_snapshot s snap = Inr (ci\<lparr>ci_loaded_ann_metadata := ann_preview_status ci fp, ci_ann_cache := []\<rparr>))
    else file_of d' path = file_of d path"
proof -
  have "from_snapshot s (index_snapshot_of ci v fp) = Inr (ci\<lparr>ci_loaded_ann_metadata := ann_preview_status ci fp, ci_ann_cache := []\<rparr>)"
    using index_run_rep[OF assms(1)] from_snapshot_rep by blast
  moreover have "is_fingerprint (index_snapshot_of ci v fp) = fp" by (simp add: index_snapshot_of_def)
  ultimately show ?thesis using snapshot_file_roundtrip[OF assms(2,3,5,4)] by auto
qed

theorem index_snapshot_roundtrip_witness:
  "let d' = snd (write_snapshot demo_index_codec ''u.idx'' (index_snapshot_of demo_indexes 1 7) \<lparr>dir_files = [], dir_synced = [], dir_script = []\<rparr>)
   in \<exists>snap. fst (read_snapshot demo_index_codec ''u.idx'' (d'\<lparr>dir_script := []\<rparr>)) = Inr snap \<and>
        from_snapshot demo_schema snap = Inr (demo_indexes\<lparr>ci_loaded_ann_metadata := ann_preview_status demo_indexes 7, ci_ann_cache := []\<rparr>)"
proof -
  let ?d = "\<lparr>dir_files = [], dir_synced = [], dir_script = []\<rparr>"
  obtain r d' where w: "write_snapshot demo_index_codec ''u.idx'' (index_snapshot_of demo_indexes 1 7) ?d = (r, d')" by fastforce
  have ok: "r = Inr ()" using w
    by (simp add: write_snapshot_def demo_index_codec_def fs_swap_def io_bind_def fs_write_def fs_rename_def io_pop_def)
  have c: "snapshot_codec demo_index_codec" by (simp add: snapshot_codec_def demo_index_codec_def)
  have l: "length b < 2 ^ 32" if "snapshot_to_vec demo_index_codec (index_snapshot_of demo_indexes 1 7) = Some b" for b
    using that by (auto simp: demo_index_codec_def)
  have f: "finite_vectors (index_snapshot_of demo_indexes 1 7)" by code_simp
  show ?thesis using index_snapshot_roundtrip[OF demo_index_run c f l w] w ok by auto
qed

end
