(* ===== verification/Txn.thy ===== *)
theory Txn
  imports Index Store
begin

text \<open>
  Transactions as staged write sets (\<open>auradb-txn\<close>), the derivation of record ids
  (\<open>auradb\<close>: \<open>idgen.rs\<close>) and planner statistics (\<open>auradb-query\<close>: \<open>stats.rs\<close>).  A key is a
  collection and a record id; the derived order of the struct is the lexicographic order.
\<close>

section \<open>Transactions\<close>

type_synonym key = "collection_id \<times> record_id"

datatype staged_op = StagedPut record_t | StagedDelete

record transaction =
  tx_id :: txn_id
  tx_read_ts :: commit_ts
  tx_observed :: "(key, nat option) omap"
  tx_staged :: "(key, staged_op) omap"
  tx_finished :: bool

definition begin_at :: "txn_id \<Rightarrow> commit_ts \<Rightarrow> transaction" where
  "begin_at i read_ts =
     \<lparr>tx_id = i, tx_read_ts = read_ts, tx_observed = [], tx_staged = [], tx_finished = False\<rparr>"

definition txn_begin :: "txn_id \<Rightarrow> transaction" where
  "txn_begin i = begin_at i 0"

definition txn_is_empty :: "transaction \<Rightarrow> bool" where
  "txn_is_empty t \<longleftrightarrow> tx_staged t = []"

definition observe :: "key \<Rightarrow> nat option \<Rightarrow> transaction \<Rightarrow> transaction" where
  "observe k version t = t\<lparr>tx_observed := om_entry k version id (tx_observed t)\<rparr>"

definition stage_put :: "record_t \<Rightarrow> nat option \<Rightarrow> transaction \<Rightarrow> transaction" where
  "stage_put r prior_version t =
     (let k = (rec_collection r, rec_id r); t = observe k prior_version t
      in t\<lparr>tx_staged := om_insert k (StagedPut r) (tx_staged t)\<rparr>)"

definition stage_delete :: "collection_id \<Rightarrow> record_id \<Rightarrow> nat option \<Rightarrow> transaction \<Rightarrow> transaction" where
  "stage_delete c i prior_version t =
     (let k = (c, i); t = observe k prior_version t
      in t\<lparr>tx_staged := om_insert k StagedDelete (tx_staged t)\<rparr>)"

definition staged :: "transaction \<Rightarrow> key \<Rightarrow> staged_op option" where
  "staged t k = om_get (tx_staged t) k"

definition into_batch :: "(key \<Rightarrow> nat) \<Rightarrow> transaction \<Rightarrow> batch" where
  "into_batch version_for t =
     \<lparr>b_txn_id = tx_id t,
      b_ops = map (\<lambda>(k, op). case op of
                StagedPut r \<Rightarrow> OpPut 0 (r\<lparr>rec_version := version_for k, rec_created_txn := tx_id t\<rparr>)
              | StagedDelete \<Rightarrow> OpDelete 0 (fst k) (snd k)) (tx_staged t)\<rparr>"

definition txn_finish :: "transaction \<Rightarrow> transaction" where
  "txn_finish t = t\<lparr>tx_finished := True\<rparr>"

section \<open>Record ids\<close>

unbundle bit_operations_syntax

definition FNV_OFFSET :: u128 where
  "FNV_OFFSET = 0x6c62272e07bb014262b821756295c58d"

definition FNV_PRIME :: u128 where
  "FNV_PRIME = 0x0000000001000000000000000000013b"

definition fnv1a_128 :: "u8 list \<Rightarrow> u128" where
  "fnv1a_128 bytes = fold (\<lambda>b h. (h XOR ucast b) * FNV_PRIME) bytes FNV_OFFSET"

definition derive_id :: "'n index_env \<Rightarrow> string \<Rightarrow> aura_value \<Rightarrow> record_id" where
  "derive_id E collection pk = fnv1a_128 (as_bytes (collection @ CHR 0x00 # index_key E pk))"

definition record_id_for :: "'n index_env \<Rightarrow> collection_schema \<Rightarrow> document \<Rightarrow> u64 \<Rightarrow> (error, record_id) result" where
  "record_id_for E s doc fallback =
     (case schema_primary_key s of
        Some pk \<Rightarrow>
          (case om_get doc (fd_name pk) of
             None \<Rightarrow> Inl ESchemaViolation
           | Some v \<Rightarrow> if is_null v then Inl ESchemaViolation else Inr (derive_id E (cs_name s) v))
      | None \<Rightarrow> Inr (ucast fallback))"

section \<open>Planner statistics\<close>

record collection_stats =
  sta_row_count :: nat
  sta_field_cardinality :: "(string, nat) omap"
  sta_vector_count :: "(string, nat) omap"
  sta_text_field_docs :: "(string, nat) omap"
  sta_avg_record_size :: nat

definition collection_stats_default :: collection_stats where
  "collection_stats_default =
     \<lparr>sta_row_count = 0, sta_field_cardinality = [], sta_vector_count = [], sta_text_field_docs = [],
      sta_avg_record_size = 0\<rparr>"

record planner_stats =
  pst_format_version :: u32
  pst_collections :: "(string, collection_stats) omap"

text \<open>\<open>serde_json\<close> on documents and statistics.\<close>

record stats_codec =
  fields_to_vec :: "document \<Rightarrow> u8 list option"
  stats_to_vec :: "planner_stats \<Rightarrow> u8 list option"
  stats_from_slice :: "u8 list \<Rightarrow> planner_stats option"

definition STATS_FORMAT_VERSION :: u32 where
  "STATS_FORMAT_VERSION = 1"

definition planner_stats_default :: planner_stats where
  "planner_stats_default = \<lparr>pst_format_version = STATS_FORMAT_VERSION, pst_collections = []\<rparr>"

record stats_acc =
  acc_distinct :: "(string, string list) omap"
  acc_vectors :: "(string, nat) omap"
  acc_texts :: "(string, nat) omap"
  acc_rows :: nat
  acc_size :: nat

definition cardinality_fields :: "collection_schema \<Rightarrow> string list" where
  "cardinality_fields s =
     map fd_name (filter (\<lambda>f. fd_primary_key f \<or> fd_unique f \<or> fd_indexed f) (cs_fields s)) @ document_path_indexes s"

definition vector_fields :: "collection_schema \<Rightarrow> string list" where
  "vector_fields s = map fd_name (filter (\<lambda>f. case fd_field_type f of FVector _ \<Rightarrow> True | _ \<Rightarrow> False) (cs_fields s))"

definition stats_distinct :: "'n index_env \<Rightarrow> record_t \<Rightarrow> string \<Rightarrow> (string, string list) omap \<Rightarrow> (string, string list) omap" where
  "stats_distinct E r field m =
     (case record_get_path r field of
        Some v \<Rightarrow> if is_null v then m else om_entry field [] (List.insert (index_key E v)) m
      | None \<Rightarrow> m)"

definition stats_vector :: "record_t \<Rightarrow> string \<Rightarrow> (string, nat) omap \<Rightarrow> (string, nat) omap" where
  "stats_vector r field m =
     (case om_get (rec_fields r) field of Some (VVector _) \<Rightarrow> om_entry field 0 Suc m | _ \<Rightarrow> m)"

definition stats_text :: "record_t \<Rightarrow> string \<Rightarrow> (string, nat) omap \<Rightarrow> (string, nat) omap" where
  "stats_text r field m =
     (case om_get (rec_fields r) field of
        Some (VText s) \<Rightarrow> if trim s = [] then m else om_entry field 0 Suc m
      | _ \<Rightarrow> m)"

definition stats_record :: "'n index_env \<Rightarrow> stats_codec \<Rightarrow> collection_schema \<Rightarrow> record_t \<Rightarrow> stats_acc \<Rightarrow> stats_acc" where
  "stats_record E k s r a =
     \<lparr>acc_distinct = fold (stats_distinct E r) (cardinality_fields s) (acc_distinct a),
      acc_vectors = fold (stats_vector r) (vector_fields s) (acc_vectors a),
      acc_texts = fold (stats_text r) (full_text_indexes s) (acc_texts a),
      acc_rows = acc_rows a + 1,
      acc_size = acc_size a + (case fields_to_vec k (rec_fields r) of Some b \<Rightarrow> length b | None \<Rightarrow> 0)\<rparr>"

definition stats_compute :: "'n index_env \<Rightarrow> stats_codec \<Rightarrow> collection_schema \<Rightarrow> record_t list \<Rightarrow> collection_stats" where
  "stats_compute E k s records =
     (let a = fold (stats_record E k s) records
                \<lparr>acc_distinct = [], acc_vectors = [], acc_texts = [], acc_rows = 0, acc_size = 0\<rparr>
      in \<lparr>sta_row_count = acc_rows a,
          sta_field_cardinality = om_map (\<lambda>_. length) (acc_distinct a),
          sta_vector_count = acc_vectors a,
          sta_text_field_docs = acc_texts a,
          sta_avg_record_size = (if acc_rows a = 0 then 0 else acc_size a div acc_rows a)\<rparr>)"

definition stats_cardinality :: "collection_stats \<Rightarrow> string \<Rightarrow> nat option" where
  "stats_cardinality st field = om_get (sta_field_cardinality st) field"

definition stats_get :: "planner_stats \<Rightarrow> string \<Rightarrow> collection_stats option" where
  "stats_get p collection = om_get (pst_collections p) collection"

definition STATS_FILE :: string where
  "STATS_FILE = ''planner_stats.json''"

definition stats_load :: "stats_codec \<Rightarrow> dir \<Rightarrow> planner_stats \<times> dir" where
  "stats_load k d =
     (case fs_read STATS_FILE d of
        (Inl _, d) \<Rightarrow> (planner_stats_default, d)
      | (Inr bytes, d) \<Rightarrow>
          (case stats_from_slice k bytes of
             Some st \<Rightarrow> if pst_format_version st = STATS_FORMAT_VERSION then (st, d) else (planner_stats_default, d)
           | None \<Rightarrow> (planner_stats_default, d)))"

definition stats_save :: "stats_codec \<Rightarrow> planner_stats \<Rightarrow> unit io" where
  "stats_save k st =
     (case stats_to_vec k st of
        None \<Rightarrow> io_error EStorage
      | Some bytes \<Rightarrow> fs_swap ''planner_stats.tmp'' STATS_FILE bytes)"

end
