(* ===== verification/Engine.thy ===== *)
theory Engine
  imports Txn Index_Persist
begin

text \<open>
  The engine (\<open>auradb\<close>: \<open>engine.rs\<close>): the state behind the mutex, opening, the checks a write
  goes through, and auto-commit mutations.  The wall clock is the argument \<open>now\<close>.  \<open>en_aux\<close>
  holds the files beside the storage: index snapshots, their manifest and the planner statistics.  A
  replicated log is any type \<open>'l\<close> with the operation \<open>ev_replicate\<close> of the environment.
\<close>

section \<open>State\<close>

record ('n, 'l) engine_env =
  ev_store :: store_codec
  ev_index :: "'n index_env"
  ev_snapshot :: index_codec
  ev_stats :: stats_codec
  ev_replicate :: "batch \<Rightarrow> 'l \<Rightarrow> (error, commit_ts, 'l) result_st"

datatype txn_state = TxnActive | TxnTimedOut

record txn_entry =
  te_read_ts :: commit_ts
  te_started_at :: u64
  te_last_activity :: u64
  te_connection_id :: "u64 option"
  te_state :: txn_state

record 'l engine =
  en_storage :: storage
  en_indexes :: "(string, collection_indexes) omap"
  en_clock :: logical_clock
  en_aux :: dir
  en_loaded :: nat
  en_rebuilt :: nat
  en_txns :: "(txn_id, txn_entry) omap"
  en_transaction_timeout_secs :: u64
  en_transaction_timeouts_total :: nat
  en_gc_min_retained_versions :: nat
  en_planner_stats :: planner_stats
  en_cluster :: "'l option"
  en_poisoned :: bool

type_synonym ('l, 'a) en_op = "'l engine \<Rightarrow> (fault, 'a, 'l engine) result_st"

text \<open>The \<open>?\<close> operator on engine methods.\<close>

definition en_bind :: "('l, 'a) en_op \<Rightarrow> ('a \<Rightarrow> ('l, 'b) en_op) \<Rightarrow> ('l, 'b) en_op" where
  "en_bind m f e = (case m e of (Inl x, e) \<Rightarrow> (Inl x, e) | (Inr a, e) \<Rightarrow> f a e)"

definition en_return :: "'a \<Rightarrow> ('l, 'a) en_op" where
  "en_return a e = (Inr a, e)"

definition en_fail :: "error \<Rightarrow> ('l, 'a) en_op" where
  "en_fail x e = (Inl (Err x), e)"

definition en_result :: "'a eresult \<Rightarrow> ('l, 'a) en_op" where
  "en_result r e = (r, e)"

definition on_storage :: "(storage \<Rightarrow> (error, 'a, storage) result_st) \<Rightarrow> ('l, 'a) en_op" where
  "on_storage f e = (case f (en_storage e) of (r, st) \<Rightarrow> (lift_err r, e\<lparr>en_storage := st\<rparr>))"

definition on_aux :: "'a io \<Rightarrow> ('l, 'a) en_op" where
  "on_aux f e = (case f (en_aux e) of (r, d) \<Rightarrow> (lift_err r, e\<lparr>en_aux := d\<rparr>))"

text \<open>\<open>self.lock()\<close>: a panic under the guard poisons the mutex, and a poisoned mutex panics.\<close>

definition locked :: "('l, 'a) en_op \<Rightarrow> ('l, 'a) en_op" where
  "locked f e =
     (if en_poisoned e then (Inl Panic, e)
      else (case f e of
              (Inl Panic, e) \<Rightarrow> (Inl Panic, e\<lparr>en_poisoned := True\<rparr>)
            | r \<Rightarrow> r))"

section \<open>Opening\<close>

definition load_snapshot ::
  "('n, 'l) engine_env \<Rightarrow> index_manifest option \<Rightarrow> collection_schema \<Rightarrow> u64 \<Rightarrow> dir \<Rightarrow> collection_indexes option eresult \<times> dir" where
  "load_snapshot V manifest s fp d =
     (case Option.bind manifest (\<lambda>m. om_get (im_files m) (cs_name s)) of
        None \<Rightarrow> (Inr None, d)
      | Some file \<Rightarrow>
          (case read_snapshot (ev_snapshot V) file d of
             (Inl _, d) \<Rightarrow> (Inr None, d)
           | (Inr snap, d) \<Rightarrow>
               if is_fingerprint snap \<noteq> fp then (Inr None, d)
               else (case from_snapshot s snap of
                       Inr ci \<Rightarrow> (Inr (Some ci), d)
                     | Inl Panic \<Rightarrow> (Inl Panic, d)
                     | Inl (Err _) \<Rightarrow> (Inr None, d))))"

record load_state =
  ls_indexes :: "(string, collection_indexes) omap"
  ls_loaded :: nat
  ls_rebuilt :: nat

fun load_indexes ::
  "('n, 'l) engine_env \<Rightarrow> storage \<Rightarrow> index_manifest option \<Rightarrow> collection_schema list \<Rightarrow> load_state \<Rightarrow> dir \<Rightarrow>
   (fault, load_state, dir) result_st" where
  "load_indexes V st manifest [] ls d = (Inr ls, d)"
| "load_indexes V st manifest (s # ss) ls d =
     (let records = storage_scan st (cs_name s) in
      case load_snapshot V manifest s (fingerprint records) d of
        (Inl x, d) \<Rightarrow> (Inl x, d)
      | (Inr (Some ci), d) \<Rightarrow>
          load_indexes V st manifest ss
            (ls\<lparr>ls_indexes := om_insert (cs_name s) ci (ls_indexes ls), ls_loaded := ls_loaded ls + 1\<rparr>) d
      | (Inr None, d) \<Rightarrow>
          (case index_rebuild (ev_index V) records (indexes_from_schema s) of
             (Inl x, _) \<Rightarrow> (Inl x, d)
           | (Inr _, ci) \<Rightarrow>
               load_indexes V st manifest ss
                 (ls\<lparr>ls_indexes := om_insert (cs_name s) ci (ls_indexes ls), ls_rebuilt := ls_rebuilt ls + 1\<rparr>) d))"

record engine_options =
  eo_sync_on_commit :: bool
  eo_gc_min_retained_versions :: nat
  eo_transaction_timeout_secs :: u64

definition engine_options_default :: engine_options where
  "engine_options_default =
     \<lparr>eo_sync_on_commit = True, eo_gc_min_retained_versions = 1, eo_transaction_timeout_secs = 300\<rparr>"

definition engine_open ::
  "('n, 'l) engine_env \<Rightarrow> engine_options \<Rightarrow> dir \<Rightarrow> dir \<Rightarrow> 'l engine eresult" where
  "engine_open V opts d aux =
     (case open_with (ev_store V) (eo_sync_on_commit opts) d of
        (Inl x, _) \<Rightarrow> Inl (Err x)
      | (Inr st, _) \<Rightarrow>
          (let (stats, aux) = stats_load (ev_stats V) aux;
               (manifest, aux) = (case load_manifest (ev_snapshot V) aux of
                                    (Inr m, aux) \<Rightarrow> (m, aux) | (Inl _, aux) \<Rightarrow> (None, aux))
           in case load_indexes V st manifest (list_schemas st) \<lparr>ls_indexes = [], ls_loaded = 0, ls_rebuilt = 0\<rparr> aux of
                (Inl x, _) \<Rightarrow> Inl x
              | (Inr ls, aux) \<Rightarrow>
                  Inr \<lparr>en_storage = st, en_indexes = ls_indexes ls, en_clock = clock_new (st_max_txn_id st + 1),
                       en_aux = aux, en_loaded = ls_loaded ls, en_rebuilt = ls_rebuilt ls, en_txns = [],
                       en_transaction_timeout_secs = eo_transaction_timeout_secs opts,
                       en_transaction_timeouts_total = 0,
                       en_gc_min_retained_versions = max (eo_gc_min_retained_versions opts) 1,
                       en_planner_stats = stats, en_cluster = None, en_poisoned = False\<rparr>))"

definition attach_replicated_log :: "'l \<Rightarrow> 'l engine \<Rightarrow> 'l engine" where
  "attach_replicated_log l e = e\<lparr>en_cluster := Some l\<rparr>"

section \<open>Checks\<close>

definition schema_for :: "'l engine \<Rightarrow> string \<Rightarrow> (error, collection_schema) result" where
  "schema_for e collection =
     (case get_schema (en_storage e) collection of None \<Rightarrow> Inl ENotFound | Some s \<Rightarrow> Inr s)"

definition resolve_link :: "('n, 'l) engine_env \<Rightarrow> 'l engine \<Rightarrow> string \<Rightarrow> aura_value \<Rightarrow> record_t option" where
  "resolve_link V e target k = storage_get (en_storage e) target (derive_id (ev_index V) target k)"

definition link_keys :: "relationship_t \<Rightarrow> aura_value \<Rightarrow> (error, aura_value list) result" where
  "link_keys rel v =
     (if is_null v then Inr []
      else (case (rel_cardinality rel, v) of
              (ToOne, v) \<Rightarrow> Inr [v]
            | (ToMany, VArray items) \<Rightarrow> Inr items
            | _ \<Rightarrow> Inl ESchemaViolation))"

definition referential_check ::
  "('n, 'l) engine_env \<Rightarrow> 'l engine \<Rightarrow> collection_schema \<Rightarrow> document \<Rightarrow> (error, unit) result" where
  "referential_check V e s doc =
     check_all (\<lambda>rel.
       case om_get doc (rel_name rel) of
         None \<Rightarrow> Inr ()
       | Some v \<Rightarrow>
           (case link_keys rel v of
              Inl x \<Rightarrow> Inl x
            | Inr keys \<Rightarrow> check_all (\<lambda>k. guard (resolve_link V e (rel_target rel) k \<noteq> None) ESchemaViolation) keys))
       (cs_relationships s)"

definition refers_to :: "relationship_t \<Rightarrow> aura_value \<Rightarrow> record_t \<Rightarrow> bool" where
  "refers_to rel pk r =
     (case record_get r (rel_name rel) of
        Some (VText t) \<Rightarrow> value_eq (VText t) pk
      | Some (VArray items) \<Rightarrow> list_ex (\<lambda>v. value_eq v pk) items
      | _ \<Rightarrow> False)"

definition inbound_link_check :: "'l engine \<Rightarrow> string \<Rightarrow> record_t \<Rightarrow> (error, unit) result" where
  "inbound_link_check e collection target =
     (case get_schema (en_storage e) collection of
        None \<Rightarrow> Inr ()
      | Some s \<Rightarrow>
          (case schema_primary_key s of
             None \<Rightarrow> Inr ()
           | Some pk \<Rightarrow>
               (case om_get (rec_fields target) (fd_name pk) of
                  None \<Rightarrow> Inr ()
                | Some pk_value \<Rightarrow>
                    check_all (\<lambda>rs.
                      check_all (\<lambda>rel.
                        if rel_target rel \<noteq> collection \<or> rel_on_delete rel \<noteq> Restrict then Inr ()
                        else check_all (\<lambda>r. guard (\<not> refers_to rel pk_value r) EConflict)
                               (storage_scan (en_storage e) (cs_name rs)))
                        (cs_relationships rs))
                      (list_schemas (en_storage e)))))"

text \<open>The keys of a batch are strings, the field name and the value text joined by a zero byte.\<close>

fun check_pending_unique ::
  "'n index_env \<Rightarrow> record_t \<Rightarrow> field_def list \<Rightarrow> string set \<Rightarrow> (error, string set) result" where
  "check_pending_unique E r [] pending = Inr pending"
| "check_pending_unique E r (f # fs) pending =
     (if \<not> (fd_primary_key f \<or> fd_unique f) then check_pending_unique E r fs pending
      else (case om_get (rec_fields r) (fd_name f) of
              None \<Rightarrow> check_pending_unique E r fs pending
            | Some v \<Rightarrow>
                if is_null v then check_pending_unique E r fs pending
                else (let k = fd_name f @ CHR 0x00 # index_key E v in
                      if k \<in> pending then Inl EUniqueViolation
                      else check_pending_unique E r fs (insert k pending))))"

section \<open>Commits\<close>

definition engine_commit_batch :: "('n, 'l) engine_env \<Rightarrow> batch \<Rightarrow> ('l, commit_ts) en_op" where
  "engine_commit_batch V b e =
     (case en_cluster e of
        None \<Rightarrow> on_storage (commit_batch (ev_store V) b) e
      | Some l \<Rightarrow>
          (case ev_replicate V b l of
             (Inl x, l) \<Rightarrow> (Inl (Err x), e\<lparr>en_cluster := Some l\<rparr>)
           | (Inr index, l) \<Rightarrow>
               en_bind (on_storage (apply_committed_batch (ev_store V) b index)) (\<lambda>_. en_return index)
                 (e\<lparr>en_cluster := Some l\<rparr>)))"

definition refresh_stats_row_count :: "string \<Rightarrow> 'l engine \<Rightarrow> 'l engine" where
  "refresh_stats_row_count collection e =
     (let count = storage_count (en_storage e) collection; p = en_planner_stats e
      in e\<lparr>en_planner_stats :=
             p\<lparr>pst_collections := om_entry collection collection_stats_default (\<lambda>s. s\<lparr>sta_row_count := count\<rparr>)
                                   (pst_collections p)\<rparr>\<rparr>)"

text \<open>One step of the loop that brings an index up to date: the old record goes, the new one comes.\<close>

definition index_delta :: "'n index_env \<Rightarrow> record_t option \<Rightarrow> record_t option \<Rightarrow> collection_indexes \<Rightarrow> collection_indexes" where
  "index_delta E old new ci =
     (let ci = (case old of None \<Rightarrow> ci | Some r \<Rightarrow> index_remove E r ci)
      in case new of None \<Rightarrow> ci | Some r \<Rightarrow> index_insert E r ci)"

definition delta_collection :: "record_t option \<times> record_t option \<Rightarrow> string eresult" where
  "delta_collection d =
     (case d of
        (Some r, _) \<Rightarrow> Inr (rec_collection r)
      | (None, Some r) \<Rightarrow> Inr (rec_collection r)
      | (None, None) \<Rightarrow> Inl Panic)"

fun apply_deltas ::
  "('n, 'l) engine_env \<Rightarrow> (record_t option \<times> record_t option) list \<Rightarrow> string list \<Rightarrow> ('l, string list) en_op" where
  "apply_deltas V [] affected e = (Inr affected, e)"
| "apply_deltas V (d # ds) affected e =
     (case delta_collection d of
        Inl x \<Rightarrow> (Inl x, e)
      | Inr collection \<Rightarrow>
          apply_deltas V ds (List.insert collection affected)
            (case om_get (en_indexes e) collection of
               None \<Rightarrow> e
             | Some ci \<Rightarrow>
                 e\<lparr>en_indexes := om_insert collection (index_delta (ev_index V) (fst d) (snd d) ci) (en_indexes e)\<rparr>))"

definition op_delta :: "storage \<Rightarrow> log_op \<Rightarrow> record_t option \<times> record_t option" where
  "op_delta st op =
     (case op of
        OpPut _ r \<Rightarrow> (storage_get st (rec_collection r) (rec_id r), Some r)
      | OpDelete _ c i \<Rightarrow> (storage_get st c i, None))"

definition apply_replicated_batch :: "('n, 'l) engine_env \<Rightarrow> batch \<Rightarrow> commit_ts \<Rightarrow> ('l, unit) en_op" where
  "apply_replicated_batch V b log_index e =
     (if log_index \<le> commit_watermark (en_storage e) then (Inr (), e)
      else
        (let deltas = map (op_delta (en_storage e)) (b_ops b) in
         en_bind (on_storage (apply_committed_batch (ev_store V) b log_index)) (\<lambda>_.
         en_bind (apply_deltas V deltas []) (\<lambda>affected e.
           (Inr (), fold refresh_stats_row_count affected e))) e))"

end
