(* ===== verification/Engine_Ops.thy ===== *)
theory Engine_Ops
  imports Engine
begin

text \<open>
  Mutations, transactions and maintenance of the engine (\<open>auradb\<close>: \<open>engine.rs\<close>).  Each public
  method takes the lock; the methods here are the bodies under the guard, and \<open>locked\<close> wraps them.
\<close>

section \<open>Auto-commit writes\<close>

datatype write_mode = WriteInsert | WriteUpsert

definition next_id :: "'l engine \<Rightarrow> u64 \<times> 'l engine" where
  "next_id e = (case clock_tick (en_clock e) of (n, c) \<Rightarrow> (n, e\<lparr>en_clock := c\<rparr>))"

definition next_version :: "record_t option \<Rightarrow> nat" where
  "next_version existing = (case existing of Some r \<Rightarrow> rec_version r + 1 | None \<Rightarrow> 1)"

text \<open>The checks of one document once it has its fallback id: the record it replaces, the new record
  and the unique keys taken so far.\<close>

definition check_write ::
  "('n, 'l) engine_env \<Rightarrow> 'l engine \<Rightarrow> collection_schema \<Rightarrow> string \<Rightarrow> write_mode \<Rightarrow> txn_id \<Rightarrow> document \<Rightarrow> string set \<Rightarrow> u64 \<Rightarrow>
   (record_t option \<times> record_t \<times> string set) eresult" where
  "check_write V e s collection mode t doc pending fallback =
     (case record_id_for (ev_index V) s doc fallback of
        Inl x \<Rightarrow> Inl (Err x)
      | Inr i \<Rightarrow>
        (let existing = storage_get (en_storage e) collection i in
         if existing \<noteq> None \<and> mode = WriteInsert then Inl (Err EUniqueViolation)
         else (case referential_check V e s doc of
           Inl x \<Rightarrow> Inl (Err x)
         | Inr _ \<Rightarrow>
           (let r = \<lparr>rec_id = i, rec_collection = collection, rec_fields = doc, rec_version = next_version existing,
                     rec_created_txn = t\<rparr> in
            case om_get (en_indexes e) collection of
              None \<Rightarrow> Inl Panic
            | Some ci \<Rightarrow>
              (case check_unique (ev_index V) ci r (map_option rec_id existing) of
                 Inl x \<Rightarrow> Inl x
               | Inr _ \<Rightarrow>
                 (case check_pending_unique (ev_index V) r (cs_fields s) pending of
                    Inl x \<Rightarrow> Inl (Err x)
                  | Inr pending \<Rightarrow> Inr (existing, r, pending)))))))"

text \<open>The loop that validates the documents of one write.\<close>

fun prepare_writes ::
  "('n, 'l) engine_env \<Rightarrow> collection_schema \<Rightarrow> string \<Rightarrow> write_mode \<Rightarrow> txn_id \<Rightarrow> document list \<Rightarrow>
   (record_t option \<times> record_t) list \<Rightarrow> string set \<Rightarrow> ('l, (record_t option \<times> record_t) list) en_op" where
  "prepare_writes V s collection mode t [] prepared pending e = (Inr prepared, e)"
| "prepare_writes V s collection mode t (doc # docs) prepared pending e =
     (case validate_record s doc of
        Inl x \<Rightarrow> (Inl (Err x), e)
      | Inr _ \<Rightarrow>
        (let (fallback, e) = next_id e in
         case check_write V e s collection mode t doc pending fallback of
           Inl x \<Rightarrow> (Inl x, e)
         | Inr (existing, r, pending) \<Rightarrow>
             prepare_writes V s collection mode t docs (prepared @ [(existing, r)]) pending e))"

text \<open>\<open>indexes.get_mut(collection).expect(...)\<close> and the loop over the prepared records.\<close>

definition update_index ::
  "('n, 'l) engine_env \<Rightarrow> string \<Rightarrow> (record_t option \<times> record_t option) list \<Rightarrow> ('l, unit) en_op" where
  "update_index V collection deltas e =
     (case om_get (en_indexes e) collection of
        None \<Rightarrow> (Inl Panic, e)
      | Some ci \<Rightarrow>
          (Inr (), e\<lparr>en_indexes := om_insert collection
             (fold (\<lambda>(old, new). index_delta (ev_index V) old new) deltas ci) (en_indexes e)\<rparr>))"

text \<open>\<open>iter().map(|r| r.id.to_string())\<close>.\<close>

fun display_ids :: "record_t list \<Rightarrow> string list" where
  "display_ids [] = []"
| "display_ids (r # rs) = record_id_display (rec_id r) # display_ids rs"

definition write_result :: "(record_t option \<times> record_t) list \<Rightarrow> mutation_result" where
  "write_result prepared =
     \<lparr>mr_inserted = length (filter (\<lambda>(old, _). old = None) prepared),
      mr_updated = length (filter (\<lambda>(old, _). old \<noteq> None) prepared),
      mr_deleted = 0, mr_ids = display_ids (map snd prepared)\<rparr>"

definition write_records ::
  "('n, 'l) engine_env \<Rightarrow> string \<Rightarrow> document list \<Rightarrow> write_mode \<Rightarrow> txn_id \<Rightarrow> ('l, mutation_result) en_op" where
  "write_records V collection docs mode t e =
     (case schema_for e collection of
        Inl x \<Rightarrow> (Inl (Err x), e)
      | Inr s \<Rightarrow>
          en_bind (prepare_writes V s collection mode t docs [] {}) (\<lambda>prepared.
          en_bind (engine_commit_batch V \<lparr>b_txn_id = t, b_ops = map (\<lambda>(_, r). OpPut 0 r) prepared\<rparr>) (\<lambda>_.
          en_bind (update_index V collection (map (\<lambda>(old, new). (old, Some new)) prepared)) (\<lambda>_.
          en_return (write_result prepared)))) e)"

definition set_fields :: "document \<Rightarrow> document \<Rightarrow> document" where
  "set_fields old new = fold (\<lambda>(k, v). om_insert k v) new old"

fun prepare_updates ::
  "('n, 'l) engine_env \<Rightarrow> 'l engine \<Rightarrow> collection_schema \<Rightarrow> string \<Rightarrow> document \<Rightarrow> txn_id \<Rightarrow> record_t list \<Rightarrow>
   (record_t \<times> record_t) list eresult" where
  "prepare_updates V e s collection new_fields t [] = Inr []"
| "prepare_updates V e s collection new_fields t (old # olds) =
     (let doc = set_fields (rec_fields old) new_fields in
      case validate_record s doc of
        Inl x \<Rightarrow> Inl (Err x)
      | Inr _ \<Rightarrow>
        (case referential_check V e s doc of
           Inl x \<Rightarrow> Inl (Err x)
         | Inr _ \<Rightarrow>
           (let new = \<lparr>rec_id = rec_id old, rec_collection = collection, rec_fields = doc,
                       rec_version = rec_version old + 1, rec_created_txn = t\<rparr> in
            case om_get (en_indexes e) collection of
              None \<Rightarrow> Inl Panic
            | Some ci \<Rightarrow>
              (case check_unique (ev_index V) ci new (Some (rec_id old)) of
                 Inl x \<Rightarrow> Inl x
               | Inr _ \<Rightarrow>
                 (case prepare_updates V e s collection new_fields t olds of
                    Inl x \<Rightarrow> Inl x
                  | Inr rest \<Rightarrow> Inr ((old, new) # rest))))))"

definition filter_targets :: "('n, 'l) engine_env \<Rightarrow> filter_t option \<Rightarrow> record_t list \<Rightarrow> record_t list" where
  "filter_targets V flt records = filter (matches_opt (ie_tokenize (ev_index V)) flt) records"

definition update_records ::
  "('n, 'l) engine_env \<Rightarrow> string \<Rightarrow> filter_t option \<Rightarrow> document \<Rightarrow> txn_id \<Rightarrow> ('l, mutation_result) en_op" where
  "update_records V collection flt new_fields t e =
     (case schema_for e collection of
        Inl x \<Rightarrow> (Inl (Err x), e)
      | Inr s \<Rightarrow>
          if (case schema_primary_key s of Some pk \<Rightarrow> om_get new_fields (fd_name pk) \<noteq> None | None \<Rightarrow> False)
          then (Inl (Err EInvalidRequest), e)
          else
            (case prepare_updates V e s collection new_fields t (filter_targets V flt (storage_scan (en_storage e) collection)) of
               Inl x \<Rightarrow> (Inl x, e)
             | Inr prepared \<Rightarrow>
                 if prepared = [] then (Inr mutation_result_empty, e)
                 else
                   en_bind (engine_commit_batch V \<lparr>b_txn_id = t, b_ops = map (\<lambda>(_, r). OpPut 0 r) prepared\<rparr>) (\<lambda>_.
                   en_bind (update_index V collection (map (\<lambda>(old, new). (Some old, Some new)) prepared)) (\<lambda>_.
                   en_return (mutation_result_empty
                     \<lparr>mr_updated := length prepared, mr_ids := display_ids (map snd prepared)\<rparr>))) e))"

definition delete_records ::
  "('n, 'l) engine_env \<Rightarrow> string \<Rightarrow> filter_t option \<Rightarrow> txn_id \<Rightarrow> ('l, mutation_result) en_op" where
  "delete_records V collection flt t e =
     (case schema_for e collection of
        Inl x \<Rightarrow> (Inl (Err x), e)
      | Inr _ \<Rightarrow>
          (let targets = filter_targets V flt (storage_scan (en_storage e) collection) in
           case check_all (inbound_link_check e collection) targets of
             Inl x \<Rightarrow> (Inl (Err x), e)
           | Inr _ \<Rightarrow>
               if targets = [] then (Inr mutation_result_empty, e)
               else
                 en_bind (engine_commit_batch V \<lparr>b_txn_id = t, b_ops = map (\<lambda>r. OpDelete 0 collection (rec_id r)) targets\<rparr>) (\<lambda>_.
                 en_bind (update_index V collection (map (\<lambda>old. (Some old, None)) targets)) (\<lambda>_.
                 en_return (mutation_result_empty
                   \<lparr>mr_deleted := length targets, mr_ids := display_ids targets\<rparr>))) e))"

definition apply_mutation :: "('n, 'l) engine_env \<Rightarrow> mutation \<Rightarrow> ('l, mutation_result) en_op" where
  "apply_mutation V m =
     en_bind
       (case m of
          Insert c doc \<Rightarrow> write_records V c [doc] WriteInsert TXN_AUTO
        | Upsert c doc \<Rightarrow> write_records V c [doc] WriteUpsert TXN_AUTO
        | BulkInsert c docs \<Rightarrow> write_records V c docs WriteInsert TXN_AUTO
        | Update c flt new_fields \<Rightarrow> update_records V c flt new_fields TXN_AUTO
        | Delete c flt \<Rightarrow> delete_records V c flt TXN_AUTO)
       (\<lambda>result e. (Inr result, refresh_stats_row_count (mutation_collection m) e))"

definition engine_insert :: "('n, 'l) engine_env \<Rightarrow> string \<Rightarrow> document \<Rightarrow> ('l, record_id) en_op" where
  "engine_insert V collection doc =
     en_bind (locked (apply_mutation V (Insert collection doc))) (\<lambda>result.
       case mr_ids result of
         [] \<Rightarrow> en_fail EInternal
       | i # _ \<Rightarrow> (case record_id_from_str i of Inr k \<Rightarrow> en_return k | Inl _ \<Rightarrow> en_fail EInternal))"

section \<open>Schemas\<close>

text \<open>The part that \<open>create_schema\<close> and \<open>install_snapshot\<close> share.\<close>

definition register_schema :: "('n, 'l) engine_env \<Rightarrow> collection_schema \<Rightarrow> ('l, unit) en_op" where
  "register_schema V s e =
     (case validate_definition s of
        Inl x \<Rightarrow> (Inl (Err x), e)
      | Inr _ \<Rightarrow>
          en_bind (on_storage (put_schema (ev_store V) s)) (\<lambda>_ e.
            (let records = storage_scan (en_storage e) (cs_name s) in
             case index_rebuild (ev_index V) records (indexes_from_schema s) of
               (Inl x, _) \<Rightarrow> (Inl x, e)
             | (Inr _, ci) \<Rightarrow>
                 (let e = e\<lparr>en_indexes := om_insert (cs_name s) ci (en_indexes e)\<rparr>; p = en_planner_stats e
                  in (Inr (), e\<lparr>en_planner_stats :=
                        p\<lparr>pst_collections := om_insert (cs_name s)
                            (stats_compute (ev_index V) (ev_stats V) s records) (pst_collections p)\<rparr>\<rparr>)))) e)"

definition create_schema :: "('n, 'l) engine_env \<Rightarrow> collection_schema \<Rightarrow> ('l, unit) en_op" where
  "create_schema V s = register_schema V s"

definition engine_drop_schema :: "('n, 'l) engine_env \<Rightarrow> string \<Rightarrow> ('l, unit) en_op" where
  "engine_drop_schema V name =
     en_bind (on_storage (drop_schema (ev_store V) name)) (\<lambda>_ e.
       (Inr (), e\<lparr>en_indexes := om_remove name (en_indexes e)\<rparr>))"

definition persist_stats :: "('n, 'l) engine_env \<Rightarrow> ('l, unit) en_op" where
  "persist_stats V e = on_aux (stats_save (ev_stats V) (en_planner_stats e)) e"

definition analyze_all :: "('n, 'l) engine_env \<Rightarrow> ('l, unit) en_op" where
  "analyze_all V e =
     (let collections = fold (\<lambda>s. om_insert (cs_name s)
            (stats_compute (ev_index V) (ev_stats V) s (storage_scan (en_storage e) (cs_name s))))
            (list_schemas (en_storage e)) []
      in persist_stats V (e\<lparr>en_planner_stats := planner_stats_default\<lparr>pst_collections := collections\<rparr>\<rparr>))"

fun register_schemas :: "('n, 'l) engine_env \<Rightarrow> collection_schema list \<Rightarrow> ('l, unit) en_op" where
  "register_schemas V [] e = (Inr (), e)"
| "register_schemas V (s # ss) e = en_bind (register_schema V s) (\<lambda>_. register_schemas V ss) e"

fun snapshot_ops :: "('n, 'l) engine_env \<Rightarrow> (string \<times> document) list \<Rightarrow> log_op list \<Rightarrow> ('l, log_op list) en_op" where
  "snapshot_ops V [] ops e = (Inr ops, e)"
| "snapshot_ops V ((collection, doc) # rs) ops e =
     (case schema_for e collection of
        Inl x \<Rightarrow> (Inl (Err x), e)
      | Inr s \<Rightarrow>
          (let (fallback, e) = next_id e in
           case record_id_for (ev_index V) s doc fallback of
             Inl x \<Rightarrow> (Inl (Err x), e)
           | Inr i \<Rightarrow>
               snapshot_ops V rs
                 (ops @ [OpPut 0 \<lparr>rec_id = i, rec_collection = collection, rec_fields = doc,
                                  rec_version = next_version (storage_get (en_storage e) collection i),
                                  rec_created_txn = TXN_AUTO\<rparr>]) e))"

definition engine_install_snapshot ::
  "('n, 'l) engine_env \<Rightarrow> collection_schema list \<Rightarrow> (string \<times> document) list \<Rightarrow> commit_ts \<Rightarrow> ('l, unit) en_op" where
  "engine_install_snapshot V schemas records log_index e =
     (if log_index \<le> commit_watermark (en_storage e) then (Inr (), e)
      else
        en_bind (register_schemas V schemas) (\<lambda>_.
        en_bind (snapshot_ops V records []) (\<lambda>ops.
        en_bind (apply_replicated_batch V \<lparr>b_txn_id = TXN_AUTO, b_ops = ops\<rparr> log_index) (\<lambda>_.
        analyze_all V))) e)"

end
