(* ===== verification/Engine_Txn.thy ===== *)
theory Engine_Txn
  imports Engine_Ops
begin

text \<open>
  Transactions, garbage collection and maintenance of the engine (\<open>auradb\<close>: \<open>engine.rs\<close>).
\<close>

section \<open>The registry\<close>

definition begin_with_connection :: "u64 option \<Rightarrow> u64 \<Rightarrow> 'l engine \<Rightarrow> transaction \<times> 'l engine" where
  "begin_with_connection connection_id now e =
     (let read_ts = commit_watermark (en_storage e); (i, e) = next_id e
      in (begin_at i read_ts,
          e\<lparr>en_txns := om_insert i \<lparr>te_read_ts = read_ts, te_started_at = now, te_last_activity = now,
                                  te_connection_id = connection_id, te_state = TxnActive\<rparr> (en_txns e)\<rparr>))"

definition touch_txn :: "txn_id \<Rightarrow> u64 \<Rightarrow> ('l, unit) en_op" where
  "touch_txn i now e =
     (case om_get (en_txns e) i of
        None \<Rightarrow> (Inr (), e)
      | Some t \<Rightarrow>
          (case te_state t of
             TxnActive \<Rightarrow> (Inr (), e\<lparr>en_txns := om_insert i (t\<lparr>te_last_activity := now\<rparr>) (en_txns e)\<rparr>)
           | TxnTimedOut \<Rightarrow> (Inl (Err ETransactionTimeout), e)))"

definition txn_expired :: "u64 \<Rightarrow> u64 \<Rightarrow> txn_entry \<Rightarrow> bool" where
  "txn_expired timeout now t \<longleftrightarrow> te_state t = TxnActive \<and> timeout \<le> sat_sub now (te_last_activity t)"

definition reap_transactions :: "u64 \<Rightarrow> 'l engine \<Rightarrow> nat \<times> 'l engine" where
  "reap_transactions now e =
     (if en_transaction_timeout_secs e = 0 then (0, e)
      else
        (let timeout = en_transaction_timeout_secs e;
             reaped = length (filter (txn_expired timeout now) (om_values (en_txns e)))
         in (reaped,
             e\<lparr>en_txns := om_map (\<lambda>_ t. if txn_expired timeout now t then t\<lparr>te_state := TxnTimedOut\<rparr> else t) (en_txns e),
               en_transaction_timeouts_total := en_transaction_timeouts_total e + reaped\<rparr>)))"

definition oldest_active_read_ts :: "'l engine \<Rightarrow> commit_ts option" where
  "oldest_active_read_ts e =
     (case map te_read_ts (filter (\<lambda>t. te_state t = TxnActive) (om_values (en_txns e))) of
        [] \<Rightarrow> None
      | t # ts \<Rightarrow> Some (fold min ts t))"

definition gc_cutoff :: "'l engine \<Rightarrow> commit_ts" where
  "gc_cutoff e = (case oldest_active_read_ts e of Some t \<Rightarrow> t | None \<Rightarrow> commit_watermark (en_storage e))"

section \<open>Reading\<close>

definition txn_get_visible :: "storage \<Rightarrow> transaction \<Rightarrow> collection_id \<Rightarrow> record_id \<Rightarrow> record_t option" where
  "txn_get_visible st t c i =
     (case staged t (c, i) of
        Some (StagedPut r) \<Rightarrow> Some r
      | Some StagedDelete \<Rightarrow> None
      | None \<Rightarrow> get_as_of st c i (tx_read_ts t))"

definition overlay_scan :: "storage \<Rightarrow> transaction \<Rightarrow> collection_id \<Rightarrow> record_t list" where
  "overlay_scan st t c =
     filter (\<lambda>r. staged t (c, rec_id r) = None) (scan_as_of st c (tx_read_ts t)) @
     List.map_filter (\<lambda>op. case op of
         StagedPut r \<Rightarrow> if rec_collection r = c then Some r else None
       | StagedDelete \<Rightarrow> None) (om_values (tx_staged t))"

text \<open>\<open>TxnView\<close>: the overlay holds an index for the queried collection when something is staged.\<close>

definition txn_view ::
  "('n, 'l) engine_env \<Rightarrow> transaction \<Rightarrow> string \<Rightarrow> 'l engine \<Rightarrow> (string, collection_indexes) omap eresult" where
  "txn_view V t collection e =
     (if txn_is_empty t then Inr []
      else
        (case get_schema (en_storage e) collection of
           None \<Rightarrow> Inr []
         | Some s \<Rightarrow>
             (case index_rebuild (ev_index V) (overlay_scan (en_storage e) t collection) (indexes_from_schema s) of
                (Inl x, _) \<Rightarrow> Inl x
              | (Inr _, ci) \<Rightarrow> Inr [(collection, ci)])))"

definition view_indexes :: "(string, collection_indexes) omap \<Rightarrow> 'l engine \<Rightarrow> string \<Rightarrow> collection_indexes option" where
  "view_indexes overlay e collection =
     (case om_get overlay collection of Some ci \<Rightarrow> Some ci | None \<Rightarrow> om_get (en_indexes e) collection)"

section \<open>Staging\<close>

definition staged_record :: "transaction \<Rightarrow> string \<Rightarrow> record_id \<Rightarrow> document \<Rightarrow> record_t" where
  "staged_record t collection i doc =
     \<lparr>rec_id = i, rec_collection = collection, rec_fields = doc, rec_version = 0, rec_created_txn = tx_id t\<rparr>"

type_synonym 'l stage_result = "mutation_result eresult \<times> transaction \<times> 'l engine"

text \<open>One document of an insert, upsert or bulk insert; \<open>count\<close> says how the result counts it.\<close>

definition stage_document ::
  "('n, 'l) engine_env \<Rightarrow> collection_schema \<Rightarrow> string \<Rightarrow> document \<Rightarrow> bool \<Rightarrow> mutation_result \<Rightarrow> transaction \<Rightarrow> 'l engine \<Rightarrow>
   'l stage_result" where
  "stage_document V s collection doc bulk result t e =
     (case validate_record s doc of
        Inl x \<Rightarrow> (Inl (Err x), t, e)
      | Inr _ \<Rightarrow>
          (let (fallback, e) = next_id e in
           case record_id_for (ev_index V) s doc fallback of
             Inl x \<Rightarrow> (Inl (Err x), t, e)
           | Inr i \<Rightarrow>
               (let existing = txn_get_visible (en_storage e) t collection i in
                case referential_check V e s doc of
                  Inl x \<Rightarrow> (Inl (Err x), t, e)
                | Inr _ \<Rightarrow>
                    (let t = stage_put (staged_record t collection i doc) (map_option rec_version existing) t;
                         result = (if \<not> bulk \<and> existing \<noteq> None then result\<lparr>mr_updated := mr_updated result + 1\<rparr>
                                   else result\<lparr>mr_inserted := mr_inserted result + 1\<rparr>)
                     in (Inr (result\<lparr>mr_ids := mr_ids result @ [record_id_display i]\<rparr>), t, e)))))"

fun stage_documents ::
  "('n, 'l) engine_env \<Rightarrow> collection_schema \<Rightarrow> string \<Rightarrow> document list \<Rightarrow> mutation_result \<Rightarrow> transaction \<Rightarrow> 'l engine \<Rightarrow>
   'l stage_result" where
  "stage_documents V s collection [] result t e = (Inr result, t, e)"
| "stage_documents V s collection (doc # docs) result t e =
     (case stage_document V s collection doc True result t e of
        (Inl x, t, e) \<Rightarrow> (Inl x, t, e)
      | (Inr result, t, e) \<Rightarrow> stage_documents V s collection docs result t e)"

fun stage_updates ::
  "('n, 'l) engine_env \<Rightarrow> collection_schema \<Rightarrow> string \<Rightarrow> document \<Rightarrow> record_t list \<Rightarrow> mutation_result \<Rightarrow> transaction \<Rightarrow> 'l engine \<Rightarrow>
   'l stage_result" where
  "stage_updates V s collection new_fields [] result t e = (Inr result, t, e)"
| "stage_updates V s collection new_fields (old # olds) result t e =
     (let doc = set_fields (rec_fields old) new_fields in
      case validate_record s doc of
        Inl x \<Rightarrow> (Inl (Err x), t, e)
      | Inr _ \<Rightarrow>
          (case referential_check V e s doc of
             Inl x \<Rightarrow> (Inl (Err x), t, e)
           | Inr _ \<Rightarrow>
               stage_updates V s collection new_fields olds
                 (result\<lparr>mr_updated := mr_updated result + 1, mr_ids := mr_ids result @ [record_id_display (rec_id old)]\<rparr>)
                 (stage_put (staged_record t collection (rec_id old) doc) (Some (rec_version old)) t) e))"

definition stage_deletes :: "string \<Rightarrow> record_t list \<Rightarrow> transaction \<Rightarrow> transaction" where
  "stage_deletes collection targets t =
     fold (\<lambda>old. stage_delete collection (rec_id old) (Some (rec_version old))) targets t"

definition stage_mutation :: "('n, 'l) engine_env \<Rightarrow> mutation \<Rightarrow> transaction \<Rightarrow> 'l engine \<Rightarrow> 'l stage_result" where
  "stage_mutation V m t e =
     (let collection = mutation_collection m in
      case schema_for e collection of
        Inl x \<Rightarrow> (Inl (Err x), t, e)
      | Inr s \<Rightarrow>
          (case m of
             Insert _ doc \<Rightarrow> stage_document V s collection doc False mutation_result_empty t e
           | Upsert _ doc \<Rightarrow> stage_document V s collection doc False mutation_result_empty t e
           | BulkInsert _ docs \<Rightarrow> stage_documents V s collection docs mutation_result_empty t e
           | Update _ flt new_fields \<Rightarrow>
               stage_updates V s collection new_fields (filter_targets V flt (overlay_scan (en_storage e) t collection))
                 mutation_result_empty t e
           | Delete _ flt \<Rightarrow>
               (let targets = filter_targets V flt (overlay_scan (en_storage e) t collection)
                in (Inr (mutation_result_empty\<lparr>mr_deleted := length targets,
                           mr_ids := display_ids targets\<rparr>),
                    stage_deletes collection targets t, e))))"

definition stage :: "('n, 'l) engine_env \<Rightarrow> u64 \<Rightarrow> mutation \<Rightarrow> transaction \<Rightarrow> 'l engine \<Rightarrow> 'l stage_result" where
  "stage V now m t e =
     (case touch_txn (tx_id t) now e of
        (Inl x, e) \<Rightarrow> (Inl x, t, e)
      | (Inr _, e) \<Rightarrow> stage_mutation V m t e)"

section \<open>Commit and rollback\<close>

definition conflicts :: "storage \<Rightarrow> commit_ts \<Rightarrow> key \<Rightarrow> bool" where
  "conflicts st read_ts k =
     (case latest_commit_ts st (fst k) (snd k) of Some latest \<Rightarrow> read_ts < latest | None \<Rightarrow> False)"

text \<open>Validation of one staged operation: the storage operation and the index update.\<close>

definition commit_op ::
  "('n, 'l) engine_env \<Rightarrow> 'l engine \<Rightarrow> txn_id \<Rightarrow> key \<times> staged_op \<Rightarrow> (log_op \<times> record_t option \<times> record_t option) eresult" where
  "commit_op V e t p =
     (case p of
        (k, StagedPut r) \<Rightarrow>
          (case schema_for e (fst k) of
             Inl x \<Rightarrow> Inl (Err x)
           | Inr s \<Rightarrow>
               (let existing = storage_get (en_storage e) (fst k) (snd k) in
                case referential_check V e s (rec_fields r) of
                  Inl x \<Rightarrow> Inl (Err x)
                | Inr _ \<Rightarrow>
                    (case (case om_get (en_indexes e) (fst k) of
                             Some ci \<Rightarrow> check_unique (ev_index V) ci r (map_option rec_id existing)
                           | None \<Rightarrow> Inr ()) of
                       Inl x \<Rightarrow> Inl x
                     | Inr _ \<Rightarrow>
                         (let r = r\<lparr>rec_version := next_version existing, rec_created_txn := t\<rparr>
                          in Inr (OpPut 0 r, existing, Some r)))))
      | (k, StagedDelete) \<Rightarrow>
          (let existing = storage_get (en_storage e) (fst k) (snd k) in
           case (case existing of None \<Rightarrow> Inr () | Some r \<Rightarrow> inbound_link_check e (fst k) r) of
             Inl x \<Rightarrow> Inl (Err x)
           | Inr _ \<Rightarrow> Inr (OpDelete 0 (fst k) (snd k), existing, None)))"

fun commit_ops ::
  "('n, 'l) engine_env \<Rightarrow> 'l engine \<Rightarrow> txn_id \<Rightarrow> (key \<times> staged_op) list \<Rightarrow> (log_op \<times> record_t option \<times> record_t option) list eresult" where
  "commit_ops V e t [] = Inr []"
| "commit_ops V e t (p # ps) =
     (case commit_op V e t p of
        Inl x \<Rightarrow> Inl x
      | Inr op \<Rightarrow> (case commit_ops V e t ps of Inl x \<Rightarrow> Inl x | Inr ops \<Rightarrow> Inr (op # ops)))"

definition commit_transaction :: "('n, 'l) engine_env \<Rightarrow> transaction \<Rightarrow> ('l, unit) en_op" where
  "commit_transaction V t e =
     (if list_ex (conflicts (en_storage e) (tx_read_ts t)) (om_keys (tx_staged t)) then (Inl (Err EConflict), e)
      else
        (case commit_ops V e (tx_id t) (tx_staged t) of
           Inl x \<Rightarrow> (Inl x, e)
         | Inr ops \<Rightarrow>
             if ops = [] then (Inr (), e)
             else
               en_bind (engine_commit_batch V \<lparr>b_txn_id = tx_id t, b_ops = map fst ops\<rparr>) (\<lambda>_.
               en_bind (apply_deltas V (map snd ops) []) (\<lambda>affected e.
                 (Inr (), fold refresh_stats_row_count affected e))) e))"

definition commit :: "('n, 'l) engine_env \<Rightarrow> transaction \<Rightarrow> ('l, unit) en_op" where
  "commit V t e =
     (if map_option te_state (om_get (en_txns e) (tx_id t)) = Some TxnTimedOut
      then (Inl (Err ETransactionTimeout), e\<lparr>en_txns := om_remove (tx_id t) (en_txns e)\<rparr>)
      else
        (case commit_transaction V t e of
           (Inl Panic, e) \<Rightarrow> (Inl Panic, e)
         | (r, e) \<Rightarrow> (r, e\<lparr>en_txns := om_remove (tx_id t) (en_txns e)\<rparr>)))"

definition rollback :: "transaction \<Rightarrow> 'l engine \<Rightarrow> 'l engine" where
  "rollback t e = e\<lparr>en_txns := om_remove (tx_id t) (en_txns e)\<rparr>"

section \<open>Garbage collection and maintenance\<close>

definition engine_gc :: "('n, 'l) engine_env \<Rightarrow> ('l, gc_report) en_op" where
  "engine_gc V e = on_storage (storage_gc (ev_store V) (gc_cutoff e) (en_gc_min_retained_versions e)) e"

definition gc_dry_run :: "'l engine \<Rightarrow> gc_report" where
  "gc_dry_run e = gc_preview (en_storage e) (gc_cutoff e) (en_gc_min_retained_versions e)"

fun write_snapshots :: "('n, 'l) engine_env \<Rightarrow> storage \<Rightarrow> (string \<times> collection_indexes) list \<Rightarrow> (string, string) omap \<Rightarrow>
    (string, string) omap io" where
  "write_snapshots V st [] files = io_return files"
| "write_snapshots V st ((name, ci) # rest) files =
     (let snap = index_snapshot_of ci (cat_schema_version (st_catalog st)) (fingerprint (storage_scan st name));
          file = index_filename name
      in io_bind (write_snapshot (ev_snapshot V) file snap) (\<lambda>_.
           write_snapshots V st rest (om_insert name file files)))"

definition ends_with :: "string \<Rightarrow> string \<Rightarrow> bool" where
  "ends_with s suffix = starts_with (rev s) (rev suffix)"

text \<open>\<open>read_dir\<close> and the removal of snapshots of dropped collections; failures are ignored.\<close>

definition prune_snapshots :: "string list \<Rightarrow> unit io" where
  "prune_snapshots keep d =
     (case io_pop d of
        (IoFail _, d) \<Rightarrow> (Inr (), d)
      | (IoOk, d) \<Rightarrow>
          fold (\<lambda>name m. io_bind m (\<lambda>_. io_ignore (fs_remove name)))
            (filter (\<lambda>name. ends_with name ''.idx'' \<and> name \<notin> set keep) (om_keys (dir_files d))) (io_return ()) d)"

definition persist_indexes :: "('n, 'l) engine_env \<Rightarrow> ('l, unit) en_op" where
  "persist_indexes V e =
     on_aux
       (io_bind fs_call (\<lambda>_.
        io_bind (write_snapshots V (en_storage e) (en_indexes e) []) (\<lambda>files.
        io_bind (prune_snapshots (om_values files)) (\<lambda>_.
        save_manifest (ev_snapshot V) \<lparr>im_format_version = INDEX_FORMAT_VERSION, im_files = files\<rparr>)))) e"

definition engine_compact :: "('n, 'l) engine_env \<Rightarrow> ('l, compaction_report) en_op" where
  "engine_compact V =
     en_bind (on_storage (storage_compact (ev_store V))) (\<lambda>report.
     en_bind (persist_indexes V) (\<lambda>_.
     en_bind (analyze_all V) (\<lambda>_.
     en_return report)))"

definition engine_flush :: "('n, 'l) engine_env \<Rightarrow> ('l, unit) en_op" where
  "engine_flush V = on_storage (storage_flush (ev_store V))"

definition checkpoint :: "('n, 'l) engine_env \<Rightarrow> ('l, unit) en_op" where
  "checkpoint V =
     en_bind (engine_flush V) (\<lambda>_. en_bind (persist_indexes V) (\<lambda>_. persist_stats V))"

fun rebuild_all :: "('n, 'l) engine_env \<Rightarrow> collection_schema list \<Rightarrow> ('l, unit) en_op" where
  "rebuild_all V [] e = (Inr (), e)"
| "rebuild_all V (s # ss) e =
     (case index_rebuild (ev_index V) (storage_scan (en_storage e) (cs_name s)) (indexes_from_schema s) of
        (Inl x, _) \<Rightarrow> (Inl x, e)
      | (Inr _, ci) \<Rightarrow> rebuild_all V ss (e\<lparr>en_indexes := om_insert (cs_name s) ci (en_indexes e)\<rparr>))"

definition rebuild_indexes :: "('n, 'l) engine_env \<Rightarrow> ('l, nat \<times> nat) en_op" where
  "rebuild_indexes V e =
     (let schemas = list_schemas (en_storage e) in
      en_bind (rebuild_all V schemas) (\<lambda>_ e.
        en_bind (persist_indexes V) (\<lambda>_ e. (Inr (en_loaded e, en_rebuilt e), e))
          (e\<lparr>en_loaded := 0, en_rebuilt := length schemas\<rparr>)) (e\<lparr>en_indexes := []\<rparr>))"

fun check_indexes :: "('n, 'l) engine_env \<Rightarrow> 'l engine \<Rightarrow> (string \<times> collection_indexes) list \<Rightarrow> nat \<Rightarrow> (error, nat) result" where
  "check_indexes V e [] checked = Inr checked"
| "check_indexes V e ((name, ci) # rest) checked =
     (case consistency_check (ev_index V) ci (storage_scan (en_storage e) name) of
        Inl x \<Rightarrow> Inl x
      | Inr n \<Rightarrow> check_indexes V e rest (checked + n))"

definition check_consistency :: "('n, 'l) engine_env \<Rightarrow> 'l engine \<Rightarrow> (error, nat) result" where
  "check_consistency V e = check_indexes V e (en_indexes e) 0"

record active_transaction =
  at_id :: txn_id
  at_read_ts :: commit_ts
  at_age_secs :: u64
  at_idle_secs :: u64
  at_connection_id :: "u64 option"
  at_state :: txn_state

definition active_transactions :: "u64 \<Rightarrow> 'l engine \<Rightarrow> active_transaction list" where
  "active_transactions now e =
     map (\<lambda>(i, t). \<lparr>at_id = i, at_read_ts = te_read_ts t, at_age_secs = sat_sub now (te_started_at t),
                    at_idle_secs = sat_sub now (te_last_activity t), at_connection_id = te_connection_id t,
                    at_state = te_state t\<rparr>) (en_txns e)"

record engine_stats =
  es_collections :: nat
  es_records :: nat
  es_versions :: nat
  es_active_transactions :: nat
  es_timed_out_transactions :: nat
  es_oldest_active_read_ts :: "commit_ts option"
  es_oldest_transaction_age_secs :: "u64 option"
  es_transaction_timeouts_total :: nat
  es_schema_version :: nat

definition engine_stats_of :: "u64 \<Rightarrow> 'l engine \<Rightarrow> engine_stats" where
  "engine_stats_of now e =
     (let active = filter (\<lambda>t. te_state t = TxnActive) (om_values (en_txns e));
          ages = map (\<lambda>t. sat_sub now (te_started_at t)) active
      in \<lparr>es_collections = collection_count (en_storage e), es_records = total_records (en_storage e),
          es_versions = total_versions (st_records (en_storage e)), es_active_transactions = length active,
          es_timed_out_transactions = length (filter (\<lambda>t. te_state t = TxnTimedOut) (om_values (en_txns e))),
          es_oldest_active_read_ts = oldest_active_read_ts e,
          es_oldest_transaction_age_secs = (case ages of [] \<Rightarrow> None | a # as \<Rightarrow> Some (fold max as a)),
          es_transaction_timeouts_total = en_transaction_timeouts_total e,
          es_schema_version = cat_schema_version (st_catalog (en_storage e))\<rparr>)"

end
