(* ===== verification/Engine_Keeps.thy ===== *)
theory Engine_Keeps
  imports Engine_Txn Store_Durability
begin

text \<open>
  What the engine's operations leave of a snapshot.  A reader at timestamp \<open>t\<close> does not notice a storage
  step that keeps the visible value of every key at \<open>t\<close>; every operation of the engine is such a step
  (\<open>op_keeps\<close>, the collection \<open>keeps\<close>), garbage collection when its cutoff is at most \<open>t\<close>.
\<close>

section \<open>Storage steps that keep a snapshot\<close>

definition store_wf :: "storage \<Rightarrow> bool" where
  "store_wf st \<longleftrightarrow> rec_wf (st_records st) (st_last_commit_ts st)"

text \<open>A step of the storage that a reader at timestamp \<open>t\<close> does not notice.\<close>

definition keeps_snapshot :: "commit_ts \<Rightarrow> storage \<Rightarrow> storage \<Rightarrow> bool" where
  "keeps_snapshot t st st' \<longleftrightarrow>
     (store_wf st \<and> t \<le> st_last_commit_ts st \<longrightarrow>
      store_wf st' \<and> st_last_commit_ts st \<le> st_last_commit_ts st' \<and>
      (\<forall>c i. visible_value t (chain_of (st_records st') c i) = visible_value t (chain_of (st_records st) c i)))"

named_theorems keeps \<open>steps that keep a snapshot\<close>

lemma keeps_same [keeps]:
  "st_records st' = st_records st \<Longrightarrow> st_last_commit_ts st' = st_last_commit_ts st \<Longrightarrow> keeps_snapshot t st st'"
  by (simp add: keeps_snapshot_def store_wf_def)

lemma keeps_trans: "keeps_snapshot t st st' \<Longrightarrow> keeps_snapshot t st' st'' \<Longrightarrow> keeps_snapshot t st st''"
  unfolding keeps_snapshot_def by fastforce

lemma append_chain:
  assumes "append_batch c b ts st = (Inr (), st')" "st_last_commit_ts st < ts" "store_wf st"
  shows "chain_of (st_records st') col i = (case last_write (b_ops b) (col, i) of None \<Rightarrow> chain_of (st_records st) col i
    | Some w \<Rightarrow> chain_of (st_records st) col i @ [\<lparr>v_commit_ts = ts, v_value = w\<rparr>])"
proof -
  have "\<forall>v\<in>set (chain_of (st_records st) col i). v_commit_ts v < ts"
    using assms rec_wfD(4)[of "st_records st" "st_last_commit_ts st"] by (force simp: store_wf_def)
  then show ?thesis
    using chain_of_apply_batch[of "st_records st" col i ts "b_ops (stamped b ts)"] append_batch_mem(4)[OF assms(1)]
    by (auto simp: apply_batch_def stamped_def last_write_stamp)
qed

lemma keeps_append:
  assumes "append_batch c b ts st = (r, st')" "st_last_commit_ts st < ts"
  shows "keeps_snapshot t st st'"
proof (cases "r = Inr ()")
  case True
  then have st': "st_records st' = apply_batch (stamped b ts) (st_records st)" "st_last_commit_ts st' = ts"
    using append_batch_mem(4)[OF assms(1)] by auto
  show ?thesis unfolding keeps_snapshot_def
  proof (intro impI conjI allI)
    assume wf: "store_wf st \<and> t \<le> st_last_commit_ts st"
    show "store_wf st'" using wf rec_wf_stamped[of "st_records st" _ ts b] assms(2) st' by (auto simp: store_wf_def)
    show "st_last_commit_ts st \<le> st_last_commit_ts st'" using assms(2) st' by simp
    fix col i
    show "visible_value t (chain_of (st_records st') col i) = visible_value t (chain_of (st_records st) col i)"
      using append_chain[of c b ts st st' col i] assms wf True
      by (auto simp: visible_value_def visible_at_snoc split: option.splits)
  qed
next
  case False
  then show ?thesis using append_batch_mem(5)[OF assms(1)] by (intro keeps_same) auto
qed

lemma commit_batch_get:
  assumes "store_wf st" "commit_batch c b st = (Inr ts, st')"
  shows "storage_get st' col i = (case last_write (b_ops b) (col, i) of Some w \<Rightarrow> w | None \<Rightarrow> storage_get st col i)"
proof (cases "b_ops b = []")
  case True
  then show ?thesis using assms(2) by (auto simp: commit_batch_def last_write_def)
next
  case False
  obtain r' where r': "append_batch c b (st_last_commit_ts st + 1) st = (r', st')" "r' = Inr ()" "ts = st_last_commit_ts st + 1"
    using commit_batch_append[OF False assms(2)] by blast
  have "append_batch c b ts st = (Inr (), st')" "st_last_commit_ts st < ts" using r' by auto
  from append_chain[OF this assms(1), of col i] show ?thesis
    by (auto simp: gets_chain_of latest_value_def chain_latest_def split: option.splits)
qed

lemma keeps_commit [keeps]: "commit_batch c b st = (r, st') \<Longrightarrow> keeps_snapshot t st st'"
  using keeps_append[of c b "st_last_commit_ts st + 1" st]
  by (auto simp: commit_batch_def Let_def split: if_splits prod.splits sum.splits intro: keeps_same)

lemma keeps_advance: "st_last_commit_ts st \<le> ts \<Longrightarrow> keeps_snapshot t st (st\<lparr>st_last_commit_ts := ts\<rparr>)"
  by (auto simp: keeps_snapshot_def store_wf_def intro: rec_wf_mono)

lemma keeps_apply_committed [keeps]: "apply_committed_batch c b ts st = (r, st') \<Longrightarrow> keeps_snapshot t st st'"
  using keeps_append[of c b ts st r st'] keeps_advance[of st ts]
  by (auto simp: apply_committed_batch_def split: if_splits intro: keeps_same)

lemma keeps_put_schema [keeps]:
  assumes "put_schema c s st = (r, st')"
  shows "keeps_snapshot t st st'"
proof -
  have "(st_records st' = st_records st \<or> st_records st' = ensure_collection (cs_name s) (st_records st)) \<and>
    st_last_commit_ts st' = st_last_commit_ts st"
    using assms by (auto simp: put_schema_def Let_def split: sum.splits prod.splits)
  then show ?thesis by (auto simp: keeps_snapshot_def store_wf_def chain_of_ensure intro: rec_wf_ensure)
qed

lemma rewrite_segment_mem:
  "rewrite_segment c st = (r, st') \<Longrightarrow> st_records st' = st_records st \<and> st_last_commit_ts st' = st_last_commit_ts st"
  by (auto simp: rewrite_segment_def Let_def split: prod.splits sum.splits)

lemma keeps_compact [keeps]: "storage_compact c st = (r, st') \<Longrightarrow> keeps_snapshot t st st'"
  by (rule keeps_same)
    (auto simp: storage_compact_def Let_def split: prod.splits sum.splits dest!: rewrite_segment_mem)

lemma keeps_flush [keeps]: "storage_flush c st = (r, st') \<Longrightarrow> keeps_snapshot t st st'"
  by (rule keeps_same) (auto simp: storage_flush_def split: prod.splits)

lemma storage_gc_mem:
  assumes "storage_gc c cutoff keep st = (r, st')"
  shows "st_last_commit_ts st' = st_last_commit_ts st \<and>
    (st_records st' = st_records st \<or> st_records st' = gc_all cutoff (max keep 1) (st_records st))"
proof -
  obtain x y where "gc_records cutoff (max keep 1) (st_records st) 0 0 = (gc_all cutoff (max keep 1) (st_records st), x, y)"
    using gc_records_eq[of cutoff "max keep 1" "st_records st" 0 0] by auto
  then show ?thesis using assms
    by (auto simp: storage_gc_def Let_def split: prod.splits sum.splits dest!: rewrite_segment_mem)
qed

lemma keeps_gc:
  assumes "storage_gc c cutoff keep st = (r, st')" "cutoff \<le> t"
  shows "keeps_snapshot t st st'"
  unfolding keeps_snapshot_def
proof (intro impI conjI allI)
  assume wf: "store_wf st \<and> t \<le> st_last_commit_ts st"
  note m = storage_gc_mem[OF assms(1)]
  show "store_wf st'" using wf m rec_wf_gc[of "st_records st"] by (auto simp: store_wf_def)
  show "st_last_commit_ts st \<le> st_last_commit_ts st'" using m by simp
  fix col i
  have "rec_wf (st_records st) (st_last_commit_ts st)" using wf by (simp add: store_wf_def)
  then show "visible_value t (chain_of (st_records st') col i) = visible_value t (chain_of (st_records st) col i)"
    using m gc_chain_visible[OF rec_wfD(3) assms(2)] chain_of_gc by auto
qed

text \<open>A step that such a reader notices in the collections \<open>D\<close> at most: \<open>drop_schema\<close> takes the versions of the collection
  it drops away.\<close>

definition keeps_outside :: "collection_id set \<Rightarrow> commit_ts \<Rightarrow> storage \<Rightarrow> storage \<Rightarrow> bool" where
  "keeps_outside D t st st' \<longleftrightarrow>
     (store_wf st \<and> t \<le> st_last_commit_ts st \<longrightarrow>
      store_wf st' \<and> st_last_commit_ts st \<le> st_last_commit_ts st' \<and>
      (\<forall>c i. c \<notin> D \<longrightarrow> visible_value t (chain_of (st_records st') c i) = visible_value t (chain_of (st_records st) c i)))"

lemma keeps_outsideI: "keeps_snapshot t st st' \<Longrightarrow> keeps_outside D t st st'"
  by (simp add: keeps_snapshot_def keeps_outside_def)

lemma keeps_outside_trans: "keeps_outside D t st st' \<Longrightarrow> keeps_outside D' t st' st'' \<Longrightarrow> keeps_outside (D \<union> D') t st st''"
  unfolding keeps_outside_def by fastforce

lemma chain_of_remove: "chain_of (om_remove n recs) c i = (if c = n then [] else chain_of recs c i)" if "om_wf recs"
  using that by (simp add: chain_of_def chain_get_def)

lemma rec_wf_remove:
  assumes "rec_wf recs ts"
  shows "rec_wf (om_remove n recs) ts"
  using assms rec_wfD(1)[OF assms] by (auto simp: rec_wf_def chain_of_remove split: if_splits)

lemma keeps_drop:
  assumes "drop_schema c name st = (r, st')"
  shows "keeps_outside {name} t st st'"
proof -
  let ?b = "\<lparr>b_txn_id = TXN_AUTO, b_ops = map (OpDelete 0 name) (live_ids (st_records st) name)\<rparr>"
  obtain r1 st1 where b: "commit_batch c ?b st = (r1, st1)" by fastforce
  have r: "(st_records st' = st_records st \<or> st_records st' = om_remove name (st_records st)) \<and> st_last_commit_ts st' = st_last_commit_ts st \<or>
      (st_records st' = st_records st1 \<or> st_records st' = om_remove name (st_records st1)) \<and> st_last_commit_ts st' = st_last_commit_ts st1"
    using assms b by (auto simp: drop_schema_def Let_def split: if_splits prod.splits sum.splits)
  have "keeps_outside {name} t s st'" if "st_records st' = st_records s \<or> st_records st' = om_remove name (st_records s)"
    "st_last_commit_ts st' = st_last_commit_ts s" for s
    using that rec_wfD(1)[of "st_records s" "st_last_commit_ts s"]
    by (auto simp: keeps_outside_def store_wf_def chain_of_remove intro: rec_wf_remove)
  then show ?thesis using r keeps_outside_trans[OF keeps_outsideI[OF keeps_commit[OF b]], where D = "{name}" and D' = "{name}" and t = t and st'' = st'] by auto
qed

section \<open>Engine operations\<close>

text \<open>An engine operation keeps the snapshot at \<open>t\<close>, whatever it returns.\<close>

definition op_keeps :: "commit_ts \<Rightarrow> ('l, 'a) en_op \<Rightarrow> bool" where
  "op_keeps t m \<longleftrightarrow> (\<forall>e r e'. m e = (r, e') \<longrightarrow> keeps_snapshot t (en_storage e) (en_storage e'))"

lemma op_keepsI: "(\<And>e r e'. m e = (r, e') \<Longrightarrow> keeps_snapshot t (en_storage e) (en_storage e')) \<Longrightarrow> op_keeps t m"
  by (simp add: op_keeps_def)

lemma op_keepsD: "op_keeps t m \<Longrightarrow> m e = (r, e') \<Longrightarrow> keeps_snapshot t (en_storage e) (en_storage e')"
  by (simp add: op_keeps_def)

lemma keeps_refl [simp, keeps]: "keeps_snapshot t st st"
  by (rule keeps_same) simp_all

lemma op_keeps_bind [keeps]: "op_keeps t m \<Longrightarrow> (\<And>a. op_keeps t (f a)) \<Longrightarrow> op_keeps t (en_bind m f)"
  by (rule op_keepsI) (auto simp: en_bind_def split: prod.splits sum.splits dest!: op_keepsD intro: keeps_trans)

lemma op_keeps_basic [keeps]: "op_keeps t (en_return a)" "op_keeps t (en_fail x)" "op_keeps t (on_aux g)"
  by (auto simp: op_keeps_def en_return_def en_fail_def on_aux_def split: prod.splits)

lemma op_keeps_storage [keeps]:
  "(\<And>st r st'. f st = (r, st') \<Longrightarrow> keeps_snapshot t st st') \<Longrightarrow> op_keeps t (on_storage f)"
  by (rule op_keepsI) (auto simp: on_storage_def split: prod.splits)

lemma op_keeps_locked [keeps]: "op_keeps t m \<Longrightarrow> op_keeps t (locked m)"
  by (rule op_keepsI) (auto simp: locked_def split: if_splits prod.splits sum.splits fault.splits dest!: op_keepsD)

lemma op_keeps_on_storage [keeps]:
  "op_keeps t (on_storage (commit_batch c b))" "op_keeps t (on_storage (apply_committed_batch c b ts))"
  "op_keeps t (on_storage (put_schema c s))" "op_keeps t (on_storage (storage_compact c))"
  "op_keeps t (on_storage (storage_flush c))"
  by (rule op_keeps_storage; (rule keeps; assumption))+


lemma op_keeps_commit_batch [keeps]: "op_keeps t (engine_commit_batch V b)"
proof (rule op_keepsI)
  fix e r e'
  assume m: "engine_commit_batch V b e = (r, e')"
  show "keeps_snapshot t (en_storage e) (en_storage e')"
  proof (cases "en_cluster e")
    case None
    then show ?thesis using m op_keepsD[OF op_keeps_on_storage(1)] by (simp add: engine_commit_batch_def)
  next
    case (Some l)
    have k: "op_keeps t (en_bind (on_storage (apply_committed_batch (ev_store V) b ts)) (\<lambda>_. en_return ts))" for ts
      by (intro keeps)
    show ?thesis using m Some op_keepsD[OF k, of _ "e\<lparr>en_cluster := _\<rparr>"]
      by (fastforce simp: engine_commit_batch_def split: prod.splits sum.splits)
  qed
qed

lemma refresh_storage [simp]: "en_storage (refresh_stats_row_count c e) = en_storage e"
  by (simp add: refresh_stats_row_count_def Let_def)

lemma fold_refresh_storage [simp]: "en_storage (fold refresh_stats_row_count cs e) = en_storage e"
  by (induction cs arbitrary: e) simp_all

lemma op_keeps_refresh [keeps]: "op_keeps t (\<lambda>e. (r, refresh_stats_row_count c e))"
    "op_keeps t (\<lambda>e. (r, fold refresh_stats_row_count cs e))"
  by (simp_all add: op_keeps_def)

lemma apply_deltas_storage: "apply_deltas V ds cs e = (r, e') \<Longrightarrow> en_storage e' = en_storage e"
  by (induction V ds cs e rule: apply_deltas.induct) (auto split: sum.splits option.splits)

lemma op_keeps_deltas [keeps]: "op_keeps t (apply_deltas V ds cs)"
  by (auto simp: op_keeps_def dest: apply_deltas_storage)

lemma next_id_storage: "next_id e = (n, e') \<Longrightarrow> en_storage e' = en_storage e"
  by (auto simp: next_id_def split: prod.splits)

lemma prepare_writes_storage: "prepare_writes V s c mode t docs ps pend e = (r, e') \<Longrightarrow> en_storage e' = en_storage e"
proof (induction docs arbitrary: ps pend e)
  case (Cons doc docs)
  obtain n e1 where n: "next_id e = (n, e1)" by fastforce
  show ?case
  proof (cases "validate_record s doc")
    case (Inr u)
    then show ?thesis using Cons n next_id_storage[OF n]
      by (cases "check_write V e1 s c mode t doc pend n") auto
  qed (use Cons.prems in simp)
qed simp

lemma update_index_storage: "update_index V c ds e = (r, e') \<Longrightarrow> en_storage e' = en_storage e"
  by (auto simp: update_index_def split: option.splits)

lemma op_keeps_prepare [keeps]: "op_keeps t (prepare_writes V s c mode x docs ps pend)" "op_keeps t (update_index V c ds)"
  by (auto simp: op_keeps_def dest: prepare_writes_storage update_index_storage)

lemma op_keeps_case:
  "op_keeps t (\<lambda>e. case f e of Inl x \<Rightarrow> (g x, e) | Inr y \<Rightarrow> h y e)"
  if "\<And>y. op_keeps t (h y)"
  by (rule op_keepsI) (auto split: sum.splits dest: op_keepsD[OF that])

lemma op_keeps_write_records [keeps]: "op_keeps t (write_records V c docs mode x)"
  unfolding write_records_def[abs_def] by (rule op_keeps_case) (intro keeps)

lemma op_keeps_update_records [keeps]: "op_keeps t (update_records V c flt fs x)"
proof (rule op_keepsI)
  fix e r e'
  assume m: "update_records V c flt fs x e = (r, e')"
  have k: "op_keeps t (en_bind (engine_commit_batch V b) (\<lambda>_. en_bind (update_index V c ds) (\<lambda>_. en_return res)))" for b ds res
    by (intro keeps)
  show "keeps_snapshot t (en_storage e) (en_storage e')"
    using m by (auto simp: update_records_def split: sum.splits if_splits dest: op_keepsD[OF k])
qed

lemma op_keeps_delete_records [keeps]: "op_keeps t (delete_records V c flt x)"
proof (rule op_keepsI)
  fix e r e'
  assume m: "delete_records V c flt x e = (r, e')"
  have k: "op_keeps t (en_bind (engine_commit_batch V b) (\<lambda>_. en_bind (update_index V c ds) (\<lambda>_. en_return res)))" for b ds res
    by (intro keeps)
  show "keeps_snapshot t (en_storage e) (en_storage e')"
    using m by (auto simp: delete_records_def Let_def split: sum.splits if_splits dest: op_keepsD[OF k])
qed

lemma op_keeps_apply_mutation [keeps]: "op_keeps t (apply_mutation V m)"
  unfolding apply_mutation_def by (intro op_keeps_bind op_keeps_refresh) (cases m; simp add: keeps)

lemma op_keeps_replicated [keeps]: "op_keeps t (apply_replicated_batch V b ts)"
proof (rule op_keepsI)
  fix e r e'
  assume m: "apply_replicated_batch V b ts e = (r, e')"
  have k: "op_keeps t (en_bind (on_storage (apply_committed_batch (ev_store V) b ts)) (\<lambda>_.
      en_bind (apply_deltas V ds []) (\<lambda>affected e. (Inr (), fold refresh_stats_row_count affected e))))" for ds
    by (intro keeps)
  show "keeps_snapshot t (en_storage e) (en_storage e')"
    using m by (auto simp: apply_replicated_batch_def Let_def split: if_splits dest: op_keepsD[OF k])
qed

lemma op_keeps_register [keeps]: "op_keeps t (register_schema V s)"
proof -
  have "op_keeps t (\<lambda>e. let records = storage_scan (en_storage e) (cs_name s) in
    case index_rebuild (ev_index V) records (indexes_from_schema s) of
      (Inl x, _) \<Rightarrow> (Inl x, e)
    | (Inr _, ci) \<Rightarrow>
      (let e = e\<lparr>en_indexes := om_insert (cs_name s) ci (en_indexes e)\<rparr>; p = en_planner_stats e
       in (Inr (), e\<lparr>en_planner_stats := p\<lparr>pst_collections := om_insert (cs_name s)
             (stats_compute (ev_index V) (ev_stats V) s records) (pst_collections p)\<rparr>\<rparr>)))"
    by (rule op_keepsI) (auto simp: Let_def split: prod.splits sum.splits)
  then show ?thesis unfolding register_schema_def[abs_def] by (intro op_keeps_case op_keeps_bind op_keeps_on_storage)
qed

lemma op_keeps_create [keeps]: "op_keeps t (create_schema V s)"
  by (simp add: create_schema_def keeps)

lemma op_keeps_registers [keeps]: "op_keeps t (register_schemas V ss)"
proof (induction ss)
  case (Cons s ss)
  have "op_keeps t (en_bind (register_schema V s) (\<lambda>_. register_schemas V ss))" by (intro keeps Cons)
  then show ?case by (simp add: op_keeps_def)
qed (simp add: op_keeps_def)

lemma snapshot_ops_storage: "snapshot_ops V rs ops e = (r, e') \<Longrightarrow> en_storage e' = en_storage e"
proof (induction rs arbitrary: ops e)
  case (Cons p rs)
  obtain c doc where p: "p = (c, doc)" by (cases p)
  obtain n e1 where n: "next_id e = (n, e1)" by fastforce
  show ?case
  proof (cases "schema_for e c")
    case (Inr s)
    then show ?thesis using Cons p n next_id_storage[OF n] by (cases "record_id_for (ev_index V) s doc n") (auto simp: Let_def)
  qed (use Cons.prems p in simp)
qed simp

lemma op_keeps_snapshot_ops [keeps]: "op_keeps t (snapshot_ops V rs ops)"
  by (auto simp: op_keeps_def dest: snapshot_ops_storage)

lemma op_keeps_aux [keeps]: "op_keeps t (persist_stats V)" "op_keeps t (analyze_all V)" "op_keeps t (persist_indexes V)"
  by (auto simp: op_keeps_def persist_stats_def analyze_all_def persist_indexes_def on_aux_def Let_def split: prod.splits)

lemma op_keeps_if: "op_keeps t f \<Longrightarrow> op_keeps t (\<lambda>e. if b e then (x, e) else f e)"
  by (rule op_keepsI) (auto split: if_splits dest: op_keepsD)

lemma op_keeps_install [keeps]: "op_keeps t (engine_install_snapshot V ss rs ts)"
  unfolding engine_install_snapshot_def[abs_def] by (rule op_keeps_if) (intro keeps)

lemma touch_txn_storage: "touch_txn i now e = (r, e') \<Longrightarrow> en_storage e' = en_storage e"
  by (auto simp: touch_txn_def split: option.splits txn_state.splits)

lemma stage_document_storage: "stage_document V s c doc bulk res t e = (r, t', e') \<Longrightarrow> en_storage e' = en_storage e"
proof -
  obtain n e1 where n: "next_id e = (n, e1)" by fastforce
  show "stage_document V s c doc bulk res t e = (r, t', e') \<Longrightarrow> en_storage e' = en_storage e"
    using next_id_storage[OF n] by (auto simp: stage_document_def n Let_def split: sum.splits)
qed

lemma stage_documents_storage: "stage_documents V s c docs res t e = (r, t', e') \<Longrightarrow> en_storage e' = en_storage e"
proof (induction docs arbitrary: res t e)
  case (Cons doc docs)
  obtain r1 t1 e1 where 1: "stage_document V s c doc True res t e = (r1, t1, e1)" by (metis prod_cases3)
  then show ?case using Cons stage_document_storage[OF 1] by (cases r1) auto
qed simp

lemma stage_updates_engine: "stage_updates V s c fs olds res t e = (r, t', e') \<Longrightarrow> e' = e"
  by (induction olds arbitrary: res t) (auto simp: Let_def split: sum.splits)

lemma stage_storage:
  assumes "stage V now m t e = (r, t', e')"
  shows "en_storage e' = en_storage e"
proof -
  obtain r1 e1 where 1: "touch_txn (tx_id t) now e = (r1, e1)" by fastforce
  show ?thesis
  proof (cases r1)
    case (Inr u)
    then have 2: "stage_mutation V m t e1 = (r, t', e')" using assms 1 by (simp add: stage_def)
    have "en_storage e' = en_storage e1"
    proof (cases "schema_for e1 (mutation_collection m)")
      case (Inr s)
      then show ?thesis using 2 by (cases m)
        (auto simp: stage_mutation_def Let_def dest: stage_document_storage stage_documents_storage stage_updates_engine)
    qed (use 2 in \<open>simp add: stage_mutation_def Let_def\<close>)
    then show ?thesis using touch_txn_storage[OF 1] by simp
  qed (use assms 1 touch_txn_storage[OF 1] in \<open>auto simp: stage_def\<close>)
qed

lemma op_keeps_commit_transaction [keeps]: "op_keeps t (commit_transaction V x)"
proof (rule op_keepsI)
  fix e r e'
  assume m: "commit_transaction V x e = (r, e')"
  have k: "op_keeps t (en_bind (engine_commit_batch V b) (\<lambda>_. en_bind (apply_deltas V ds []) (\<lambda>affected e.
      (Inr (), fold refresh_stats_row_count affected e))))" for b ds
    by (intro keeps)
  show "keeps_snapshot t (en_storage e) (en_storage e')"
    using m by (auto simp: commit_transaction_def split: sum.splits if_splits dest: op_keepsD[OF k])
qed

lemma commit_storage:
  assumes "commit V x e = (r, e')"
  shows "en_storage e' = en_storage e \<or> (\<exists>r1 e1. commit_transaction V x e = (r1, e1) \<and> en_storage e' = en_storage e1 \<and> r = r1)"
  using assms by (auto simp: commit_def split: if_splits prod.splits sum.splits fault.splits)

lemma op_keeps_commit [keeps]: "op_keeps t (commit V x)"
  by (rule op_keepsI) (auto dest!: commit_storage dest: op_keepsD[OF op_keeps_commit_transaction])

lemma rebuild_all_storage: "rebuild_all V ss e = (r, e') \<Longrightarrow> en_storage e' = en_storage e"
  by (induction ss arbitrary: e) (auto split: prod.splits sum.splits)

lemma op_keeps_rebuild [keeps]: "op_keeps t (rebuild_indexes V)"
proof (rule op_keepsI)
  fix e r e'
  assume "rebuild_indexes V e = (r, e')"
  then have "en_storage e' = en_storage e"
    by (auto simp: rebuild_indexes_def Let_def en_bind_def persist_indexes_def on_aux_def split: prod.splits sum.splits
        dest!: rebuild_all_storage)
  then show "keeps_snapshot t (en_storage e) (en_storage e')" by simp
qed

lemma op_keeps_maintenance [keeps]: "op_keeps t (engine_compact V)" "op_keeps t (engine_flush V)" "op_keeps t (checkpoint V)"
  unfolding engine_compact_def checkpoint_def engine_flush_def by (intro keeps)+

end
