(* ===== verification/Engine_Session.thy ===== *)
theory Engine_Session
  imports Engine_Keeps
begin

text \<open>
  The engine as a step relation, and a transaction as a session in it: its own staging interleaved with
  the steps of everyone else.  A session keeps the snapshot the transaction began with; a commit writes what was
  staged.
\<close>

section \<open>Steps and sessions\<close>

definition txn_active :: "'l engine \<Rightarrow> txn_id \<Rightarrow> commit_ts \<Rightarrow> bool" where
  "txn_active e i t \<longleftrightarrow> (\<exists>x. om_get (en_txns e) i = Some x \<and> te_state x = TxnActive \<and> te_read_ts x = t)"

text \<open>What any client, replica or background task may do to an engine: every public method.  A step is
  labelled with the collections it drops.\<close>

inductive engine_step :: "('n, 'l) engine_env \<Rightarrow> collection_id set \<Rightarrow> 'l engine \<Rightarrow> 'l engine \<Rightarrow> bool" for V where
  step_mutate: "locked (apply_mutation V m) e = (r, e') \<Longrightarrow> engine_step V {} e e'"
| step_create: "locked (create_schema V s) e = (r, e') \<Longrightarrow> engine_step V {} e e'"
| step_drop: "locked (engine_drop_schema V name) e = (r, e') \<Longrightarrow> engine_step V {name} e e'"
| step_replicated: "locked (apply_replicated_batch V b ts) e = (r, e') \<Longrightarrow> engine_step V {} e e'"
| step_install: "locked (engine_install_snapshot V ss rs ts) e = (r, e') \<Longrightarrow> engine_step V {} e e'"
| step_begin: "begin_with_connection conn now e = (x, e') \<Longrightarrow> engine_step V {} e e'"
| step_stage: "stage V now m x e = (r, x', e') \<Longrightarrow> engine_step V {} e e'"
| step_commit: "locked (commit V x) e = (r, e') \<Longrightarrow> engine_step V {} e e'"
| step_rollback: "engine_step V {} e (rollback x e)"
| step_reap: "reap_transactions now e = (n, e') \<Longrightarrow> engine_step V {} e e'"
| step_gc: "locked (engine_gc V) e = (r, e') \<Longrightarrow> engine_step V {} e e'"
| step_compact: "locked (engine_compact V) e = (r, e') \<Longrightarrow> engine_step V {} e e'"
| step_flush: "locked (engine_flush V) e = (r, e') \<Longrightarrow> engine_step V {} e e'"
| step_checkpoint: "locked (checkpoint V) e = (r, e') \<Longrightarrow> engine_step V {} e e'"
| step_rebuild: "locked (rebuild_indexes V) e = (r, e') \<Longrightarrow> engine_step V {} e e'"
| step_analyze: "locked (analyze_all V) e = (r, e') \<Longrightarrow> engine_step V {} e e'"

text \<open>A transaction staging its own writes while others run, for as long as it is registered as active; \<open>D\<close> are the collections
  that were dropped meanwhile.\<close>

inductive txn_session ::
  "('n, 'l) engine_env \<Rightarrow> collection_id set \<Rightarrow> transaction \<times> 'l engine \<Rightarrow> transaction \<times> 'l engine \<Rightarrow> bool" for V where
  session_start: "txn_session V {} p p"
| session_other:
    "txn_session V D p (x, e) \<Longrightarrow> txn_active e (tx_id x) (tx_read_ts x) \<Longrightarrow> engine_step V D' e e' \<Longrightarrow>
     txn_session V (D \<union> D') p (x, e')"
| session_stage:
    "txn_session V D p (x, e) \<Longrightarrow> txn_active e (tx_id x) (tx_read_ts x) \<Longrightarrow> stage V now m x e = (r, x', e') \<Longrightarrow>
     txn_session V D p (x', e')"

inductive_cases engine_stepE: "engine_step V D e e'"

lemma fold_min_le: "fold min xs (a :: nat) \<le> a \<and> (\<forall>x\<in>set xs. fold min xs a \<le> x)"
proof (induction xs arbitrary: a)
  case (Cons x xs)
  show ?case using Cons[of "min x a"] by auto
qed simp

lemma gc_cutoff_active:
  assumes "txn_active e i t"
  shows "gc_cutoff e \<le> t"
proof -
  obtain x where x: "om_get (en_txns e) i = Some x" "te_state x = TxnActive" "te_read_ts x = t"
    using assms by (auto simp: txn_active_def)
  let ?l = "map te_read_ts (filter (\<lambda>t. te_state t = TxnActive) (om_values (en_txns e)))"
  have "x \<in> set (om_values (en_txns e))" using x(1) by (force simp: om_get_def om_values_def dest: map_of_SomeD)
  then have "t \<in> set ?l" using x by auto
  then obtain y ys where y: "?l = y # ys" "t \<in> set (y # ys)" by (cases ?l) auto
  then show ?thesis using fold_min_le[of ys y] by (auto simp: gc_cutoff_def oldest_active_read_ts_def)
qed

lemma locked_keeps: "op_keeps t m \<Longrightarrow> locked m e = (r, e') \<Longrightarrow> keeps_snapshot t (en_storage e) (en_storage e')"
  by (rule op_keepsD[OF op_keeps_locked])

lemma begin_storage: "begin_with_connection conn now e = (x, e') \<Longrightarrow> en_storage e' = en_storage e"
  by (auto simp: begin_with_connection_def Let_def split: prod.splits dest!: next_id_storage)

lemma reap_storage: "reap_transactions now e = (n, e') \<Longrightarrow> en_storage e' = en_storage e"
  by (auto simp: reap_transactions_def Let_def split: if_splits)

lemma gc_keeps:
  assumes "locked (engine_gc V) e = (r, e')" "gc_cutoff e \<le> t"
  shows "keeps_snapshot t (en_storage e) (en_storage e')"
proof -
  obtain r1 st where g: "storage_gc (ev_store V) (gc_cutoff e) (en_gc_min_retained_versions e) (en_storage e) = (r1, st)"
    by fastforce
  have "en_storage e' = en_storage e \<or> en_storage e' = st"
    using assms(1) g by (auto simp: locked_def engine_gc_def on_storage_def split: if_splits sum.splits fault.splits)
  then show ?thesis using keeps_gc[OF g assms(2)] by auto
qed

lemma drop_keeps:
  assumes "locked (engine_drop_schema V name) e = (r, e')"
  shows "keeps_outside {name} t (en_storage e) (en_storage e')"
proof -
  obtain r1 st where d: "drop_schema (ev_store V) name (en_storage e) = (r1, st)" by fastforce
  have "en_storage e' = en_storage e \<or> en_storage e' = st"
    using assms d by (auto simp: locked_def engine_drop_schema_def en_bind_def on_storage_def lift_err_def
        split: if_splits sum.splits fault.splits prod.splits)
  then show ?thesis using keeps_drop[OF d] keeps_outsideI[OF keeps_refl] by auto
qed

lemma step_keeps: "engine_step V D e e' \<Longrightarrow> gc_cutoff e \<le> t \<Longrightarrow> keeps_outside D t (en_storage e) (en_storage e')"
proof (induction rule: engine_step.induct)
  case (step_rollback e x)
  then show ?case by (simp add: rollback_def keeps_outsideI)
qed (blast intro: keeps_outsideI drop_keeps locked_keeps keeps gc_keeps
      keeps_same[OF arg_cong[of _ _ st_records] arg_cong[of _ _ st_last_commit_ts]] dest: begin_storage reap_storage stage_storage)+

text \<open>What staging keeps of a transaction: its identity and snapshot, an ordered write set, and each
  staged record under its own key.\<close>

definition txn_wf :: "transaction \<Rightarrow> bool" where
  "txn_wf x \<longleftrightarrow> om_wf (tx_staged x) \<and>
     (\<forall>k r. staged x k = Some (StagedPut r) \<longrightarrow> k = (rec_collection r, rec_id r))"

definition txn_follows :: "transaction \<Rightarrow> transaction \<Rightarrow> bool" where
  "txn_follows x x' \<longleftrightarrow> tx_id x' = tx_id x \<and> tx_read_ts x' = tx_read_ts x \<and> (txn_wf x \<longrightarrow> txn_wf x')"

lemma follows_trans: "txn_follows x y \<Longrightarrow> txn_follows y z \<Longrightarrow> txn_follows x z"
  by (simp add: txn_follows_def)

lemma follows_basic [simp]: "txn_follows x x" "txn_follows x (stage_put r v x)" "txn_follows x (stage_delete c i v x)"
  by (auto simp: txn_follows_def txn_wf_def stage_put_def stage_delete_def observe_def staged_def Let_def split: if_splits)

lemma follows_document: "stage_document V s c doc bulk res x e = (r, x', e') \<Longrightarrow> txn_follows x x'"
  by (auto simp: stage_document_def Let_def split: sum.splits prod.splits)

lemma follows_documents: "stage_documents V s c docs res x e = (r, x', e') \<Longrightarrow> txn_follows x x'"
proof (induction docs arbitrary: res x e)
  case (Cons doc docs)
  obtain r1 x1 e1 where 1: "stage_document V s c doc True res x e = (r1, x1, e1)" by (metis prod_cases3)
  then show ?case using Cons follows_document[OF 1] by (cases r1) (auto intro: follows_trans)
qed simp

lemma follows_updates: "stage_updates V s c fs olds res x e = (r, x', e') \<Longrightarrow> txn_follows x x'"
proof (induction olds arbitrary: res x)
  case (Cons old olds)
  let ?doc = "set_fields (rec_fields old) fs"
  show ?case
  proof (cases "validate_record s ?doc")
    case (Inr u)
    then show ?thesis using Cons.prems
      by (cases "referential_check V e s ?doc") (auto simp: Let_def intro: follows_trans[OF follows_basic(2)] dest!: Cons.IH)
  qed (use Cons.prems in simp)
qed simp

lemma follows_deletes: "txn_follows x (stage_deletes c targets x)"
  unfolding stage_deletes_def
  by (induction targets arbitrary: x) (auto intro: follows_trans[OF follows_basic(3)])

lemma follows_stage:
  assumes "stage V now m x e = (r, x', e')"
  shows "txn_follows x x'"
proof -
  obtain r1 e1 where 1: "touch_txn (tx_id x) now e = (r1, e1)" by fastforce
  have "x' = x \<or> stage_mutation V m x e1 = (r, x', e')" using assms 1 by (auto simp: stage_def split: sum.splits)
  moreover have "txn_follows x x'" if "stage_mutation V m x e1 = (r, x', e')"
  proof (cases "schema_for e1 (mutation_collection m)")
    case (Inr s)
    then show ?thesis using that by (cases m) (auto simp: stage_mutation_def Let_def
      dest: follows_document follows_documents follows_updates intro: follows_deletes)
  qed (use that in \<open>simp add: stage_mutation_def Let_def\<close>)
  ultimately show ?thesis by auto
qed

lemma session_keeps:
  assumes "txn_session V D (x0, e0) (x, e)"
  shows "txn_follows x0 x \<and> keeps_outside D (tx_read_ts x0) (en_storage e0) (en_storage e)"
proof -
  have "txn_session V D p q \<Longrightarrow> txn_follows (fst p) (fst q) \<and>
    keeps_outside D (tx_read_ts (fst p)) (en_storage (snd p)) (en_storage (snd q))" for D p q
  proof (induction rule: txn_session.induct)
    case (session_other D p x e D' e')
    then have "tx_read_ts x = tx_read_ts (fst p)" by (simp add: txn_follows_def)
    then have "keeps_outside D' (tx_read_ts (fst p)) (en_storage e) (en_storage e')"
      using step_keeps[OF session_other.hyps(3)] gc_cutoff_active[OF session_other.hyps(2)] by simp
    then show ?case using session_other.IH by (auto intro: keeps_outside_trans)
  next
    case (session_stage D p x e now m r x' e')
    then show ?case using stage_storage[OF session_stage.hyps(3)] follows_stage[OF session_stage.hyps(3)]
      by (auto intro: follows_trans)
  qed (simp add: keeps_outsideI)
  from this[OF assms] show ?thesis by simp
qed

lemma begin_txn:
  "begin_with_connection conn now e = (x, e') \<Longrightarrow>
   tx_read_ts x = st_last_commit_ts (en_storage e) \<and> tx_staged x = [] \<and> txn_wf x \<and> txn_active e' (tx_id x) (tx_read_ts x)"
  by (auto simp: begin_with_connection_def Let_def begin_at_def commit_watermark_def txn_wf_def staged_def txn_active_def
      split: prod.splits)

lemma latest_visible: "store_wf st \<Longrightarrow> visible_value (st_last_commit_ts st) (chain_of (st_records st) c i) = storage_get st c i"
  using visible_at_latest[of "chain_of (st_records st) c i"] rec_wfD(4)[of "st_records st" "st_last_commit_ts st"]
  by (auto simp: gets_chain_of visible_value_def latest_value_def store_wf_def)

lemma session_snapshot:
  assumes "store_wf (en_storage e)" "begin_with_connection conn now e = (x0, e0)" "txn_session V D (x0, e0) (x, e')"
  shows "store_wf (en_storage e')" "txn_wf x" "tx_read_ts x = st_last_commit_ts (en_storage e)"
    "tx_read_ts x \<le> st_last_commit_ts (en_storage e')"
    "c \<notin> D \<Longrightarrow> get_as_of (en_storage e') c i (tx_read_ts x) = storage_get (en_storage e) c i"
    "c \<notin> D \<Longrightarrow> scan_as_of (en_storage e') c (tx_read_ts x) = storage_scan (en_storage e) c"
proof -
  note b = begin_txn[OF assms(2)] begin_storage[OF assms(2)] and k = session_keeps[OF assms(3)]
  show wf: "store_wf (en_storage e')" and x: "txn_wf x" and t: "tx_read_ts x = st_last_commit_ts (en_storage e)"
    and "tx_read_ts x \<le> st_last_commit_ts (en_storage e')"
    using assms(1) b k by (auto simp: txn_follows_def keeps_outside_def)
  assume c: "c \<notin> D"
  have v: "visible_value (tx_read_ts x) (chain_of (st_records (en_storage e')) c i) = storage_get (en_storage e) c i" for i
    using latest_visible[OF assms(1), of c i] assms(1) b k t c by (auto simp: keeps_outside_def)
  then show "get_as_of (en_storage e') c i (tx_read_ts x) = storage_get (en_storage e) c i" by (simp add: gets_chain_of)
  have "live_in (visible_value (tx_read_ts x)) (st_records (en_storage e')) c = live_in latest_value (st_records (en_storage e)) c"
    by (rule live_in_cong2[OF wf[unfolded store_wf_def] assms(1)[unfolded store_wf_def]])
      (use visible_value_simps v gets_chain_of(2) in auto)
  then show "scan_as_of (en_storage e') c (tx_read_ts x) = storage_scan (en_storage e) c" by (simp add: scans_live_in)
qed

section \<open>Commit\<close>

text \<open>The value that a committed write installs.\<close>

definition installed :: "'l engine \<Rightarrow> txn_id \<Rightarrow> key \<Rightarrow> staged_op \<Rightarrow> record_t option" where
  "installed e i k s =
     (case s of
        StagedPut r \<Rightarrow> Some (r\<lparr>rec_version := next_version (storage_get (en_storage e) (fst k) (snd k)), rec_created_txn := i\<rparr>)
      | StagedDelete \<Rightarrow> None)"

lemma last_write_Cons:
  "last_write (op # ops) k = (case last_write ops k of None \<Rightarrow> if op_key op = k then Some (op_value op) else None | Some w \<Rightarrow> Some w)"
  by (auto simp: last_write_def Let_def)

lemma last_write_distinct:
  "distinct (map op_key ops) \<Longrightarrow> last_write ops k = map_of (map (\<lambda>op. (op_key op, op_value op)) ops) k"
proof (induction ops)
  case (Cons op ops)
  then have "map_of (map (\<lambda>op. (op_key op, op_value op)) ops) (op_key op) = None"
    by (force simp: map_of_eq_None_iff)
  then show ?case using Cons by (auto simp: last_write_Cons split: option.splits)
qed (simp add: last_write_def)

lemma commit_op_writes:
  assumes "commit_op V e i (k, s) = Inr op" "\<And>r. s = StagedPut r \<Longrightarrow> k = (rec_collection r, rec_id r)"
  shows "op_key (fst op) = k" "op_value (fst op) = installed e i k s"
  using assms by (auto simp: commit_op_def installed_def op_key_def op_value_def Let_def split: staged_op.splits sum.splits option.splits)

lemma commit_ops_writes:
  assumes "commit_ops V e i ps = Inr ops" "\<forall>k r. (k, StagedPut r) \<in> set ps \<longrightarrow> k = (rec_collection r, rec_id r)"
  shows "map (\<lambda>op. (op_key op, op_value op)) (map fst ops) = map (\<lambda>(k, s). (k, installed e i k s)) ps"
  using assms
proof (induction ps arbitrary: ops)
  case (Cons p ps)
  obtain k s where p: "p = (k, s)" by (cases p)
  obtain op where op: "commit_op V e i p = Inr op" using Cons.prems(1) by (cases "commit_op V e i p") auto
  obtain rest where rest: "commit_ops V e i ps = Inr rest" "ops = op # rest"
    using Cons.prems(1) op by (cases "commit_ops V e i ps") auto
  have "k = (rec_collection r, rec_id r)" if "s = StagedPut r" for r
    using Cons.prems(2)[rule_format, of k r] p that by simp
  note w = commit_op_writes[OF op[unfolded p] this]
  have "\<forall>k r. (k, StagedPut r) \<in> set ps \<longrightarrow> k = (rec_collection r, rec_id r)" using Cons.prems(2) by simp
  then show ?case using Cons.IH[OF rest(1)] w p rest(2) by simp
qed simp

lemma map_of_map_keyed: "map_of (map (\<lambda>(k, s). (k, f k s)) ps) k = map_option (f k) (map_of ps k)"
  by (induction ps) auto

lemma commit_ops_last_write:
  assumes "txn_wf x" "commit_ops V e (tx_id x) (tx_staged x) = Inr ops"
  shows "last_write (map fst ops) k = map_option (installed e (tx_id x) k) (staged x k)"
proof -
  let ?f = "\<lambda>op. (op_key op, op_value op)"
  have wf: "om_wf (tx_staged x)" using assms(1) by (simp add: txn_wf_def)
  have "\<forall>k r. (k, StagedPut r) \<in> set (tx_staged x) \<longrightarrow> k = (rec_collection r, rec_id r)"
    using assms(1) om_wf_get[OF wf] by (fastforce simp: txn_wf_def staged_def)
  from commit_ops_writes[OF assms(2) this]
  have m: "map ?f (map fst ops) = map (\<lambda>(k, s). (k, installed e (tx_id x) k s)) (tx_staged x)" .
  then have "map fst (map ?f (map fst ops)) = map fst (tx_staged x)" by (simp only: m) auto
  then have "distinct (map op_key (map fst ops))" using om_wf_distinct[OF wf] by (simp add: comp_def)
  then show ?thesis using last_write_distinct m map_of_map_keyed[of "installed e (tx_id x)" "tx_staged x"]
    by (simp add: staged_def om_get_def)
qed

lemma lift_err_Inr: "lift_err r = Inr a \<longleftrightarrow> r = Inr a"
  by (cases r) (auto simp: lift_err_def)

lemma commit_transaction_success:
  assumes "commit_transaction V x e = (Inr (), e')" "en_cluster e = None"
  obtains ops where "commit_ops V e (tx_id x) (tx_staged x) = Inr ops"
    "\<not> list_ex (conflicts (en_storage e) (tx_read_ts x)) (om_keys (tx_staged x))"
    "ops = [] \<and> en_storage e' = en_storage e \<or>
     (\<exists>ts. commit_batch (ev_store V) \<lparr>b_txn_id = tx_id x, b_ops = map fst ops\<rparr> (en_storage e) = (Inr ts, en_storage e'))"
proof -
  have c: "\<not> list_ex (conflicts (en_storage e) (tx_read_ts x)) (om_keys (tx_staged x))"
    using assms(1) by (auto simp: commit_transaction_def split: if_splits)
  obtain ops where o: "commit_ops V e (tx_id x) (tx_staged x) = Inr ops"
    using assms(1) c by (auto simp: commit_transaction_def split: sum.splits)
  have "\<exists>ts. commit_batch (ev_store V) \<lparr>b_txn_id = tx_id x, b_ops = map fst ops\<rparr> (en_storage e) = (Inr ts, en_storage e')"
    if "ops \<noteq> []"
    using assms c o that
    by (auto simp: commit_transaction_def en_bind_def engine_commit_batch_def on_storage_def lift_err_Inr
        split: prod.splits sum.splits dest!: apply_deltas_storage)
  then show thesis using that[OF o c] assms(1) c o by (cases "ops = []") (auto simp: commit_transaction_def)
qed

lemma commit_success:
  assumes "locked (commit V x) e = (Inr (), e')" "en_cluster e = None"
  obtains ops where "commit_ops V e (tx_id x) (tx_staged x) = Inr ops"
    "\<not> list_ex (conflicts (en_storage e) (tx_read_ts x)) (om_keys (tx_staged x))"
    "ops = [] \<and> en_storage e' = en_storage e \<or>
     (\<exists>ts. commit_batch (ev_store V) \<lparr>b_txn_id = tx_id x, b_ops = map fst ops\<rparr> (en_storage e) = (Inr ts, en_storage e'))"
proof -
  obtain e1 where 1: "commit_transaction V x e = (Inr (), e1)" "en_storage e' = en_storage e1"
    using assms(1) by (auto simp: locked_def commit_def split: if_splits prod.splits sum.splits fault.splits)
  show thesis by (rule commit_transaction_success[OF 1(1) assms(2)]) (use that 1(2) in auto)
qed

lemma unchanged_since:
  assumes "store_wf st" "\<not> list_ex (conflicts st (tx_read_ts x)) (om_keys (tx_staged x))" "staged x (c, i) \<noteq> None"
  shows "get_as_of st c i (tx_read_ts x) = storage_get st c i"
proof -
  let ?ch = "chain_of (st_records st) c i"
  have "(c, i) \<in> set (om_keys (tx_staged x))" using assms(3) by (auto simp: staged_def dest: om_get_keys)
  then have "\<not> conflicts st (tx_read_ts x) (c, i)" using assms(2) by (auto simp: list_ex_iff)
  then have l: "?ch \<noteq> [] \<Longrightarrow> v_commit_ts (last ?ch) \<le> tx_read_ts x"
    by (auto simp: conflicts_def latest_commit_ts_def chain_of_def chain_latest_def split: option.splits)
  have "\<forall>v\<in>set ?ch. v_commit_ts v \<le> tx_read_ts x"
  proof (cases ?ch rule: rev_cases)
    case (snoc vs v)
    have "chain_sorted ?ch" using rec_wfD(3) assms(1) by (auto simp: store_wf_def)
    then show ?thesis using snoc l by fastforce
  qed simp
  then show ?thesis using visible_at_latest[of ?ch] by (simp add: gets_chain_of visible_value_def latest_value_def)
qed

end
