(* ===== verification/Engine_Demo.thy ===== *)
theory Engine_Demo
  imports Engine_Txn Index_Props Store_Durability
begin

text \<open>
  A small engine on which the properties of the engine are evaluated: one collection with one record.
\<close>

definition demo_engine_env :: "(demo_num, unit) engine_env" where
  "demo_engine_env =
     \<lparr>ev_store = demo_store_codec, ev_index = demo_index_env, ev_snapshot = demo_index_codec,
      ev_stats = \<lparr>fields_to_vec = (\<lambda>_. None), stats_to_vec = (\<lambda>_. None), stats_from_slice = (\<lambda>_. None)\<rparr>,
      ev_replicate = (\<lambda>_ l. (Inl EInternal, l))\<rparr>"

definition demo_collection :: collection_schema where
  "demo_collection = (schema_new ''C'')\<lparr>cs_fields := [field_def_new ''v'' FInt]\<rparr>"

definition demo_engine :: "unit engine" where
  "demo_engine =
     \<lparr>en_storage = (demo_storage [] [demo_batches ! 0])
        \<lparr>st_catalog := \<lparr>cat_schemas = [(''C'', demo_collection)], cat_schema_version = 1\<rparr>\<rparr>,
      en_indexes = [(''C'', snd (index_rebuild demo_index_env [demo_record 1 1 10] (indexes_from_schema demo_collection)))],
      en_clock = clock_new 1, en_aux = \<lparr>dir_files = [], dir_synced = [], dir_script = []\<rparr>, en_loaded = 0, en_rebuilt = 1, en_txns = [],
      en_transaction_timeout_secs = 300, en_transaction_timeouts_total = 0, en_gc_min_retained_versions = 1,
      en_planner_stats = planner_stats_default, en_cluster = None, en_poisoned = False\<rparr>"




end
