(* ===== verification/Engine_Isolation.thy ===== *)
theory Engine_Isolation
  imports Engine_Session Engine_Demo
begin

text \<open>
  Snapshot isolation of the engine's transactions: repeatable reads, first committer wins, no lost update.
\<close>

lemma demo_engine_wf: "store_wf (en_storage demo_engine)"
proof -
  have "store_wf (demo_storage [] [demo_batches ! 0])" using demo_ok by (simp add: store_ok_def store_wf_def)
  then show ?thesis by (simp add: demo_engine_def store_wf_def)
qed

section \<open>Properties\<close>

text \<open>C32. Snapshot isolation of point reads and scans.  From its begin until it ends, whatever other clients, replicas and
  maintenance do (garbage collection, compaction and dropping other collections included), a transaction reads from a collection
  that is not dropped the values committed when it began, overlaid with its own staged writes.  Queries that read an index
  are not covered: \<open>txn_view\<close> hands a transaction with nothing staged the current index.\<close>

theorem snapshot_isolation:
  assumes "store_wf (en_storage e)" "begin_with_connection conn now e = (x0, e0)" "txn_session V D (x0, e0) (x, e')" "c \<notin> D"
  shows "txn_get_visible (en_storage e') x c i =
      (case staged x (c, i) of
         Some (StagedPut r) \<Rightarrow> Some r | Some StagedDelete \<Rightarrow> None | None \<Rightarrow> storage_get (en_storage e) c i) \<and>
    overlay_scan (en_storage e') x c =
      filter (\<lambda>r. staged x (c, rec_id r) = None) (storage_scan (en_storage e) c) @
      List.map_filter (\<lambda>op. case op of StagedPut r \<Rightarrow> if rec_collection r = c then Some r else None
        | StagedDelete \<Rightarrow> None) (om_values (tx_staged x))"
  using session_snapshot(5,6)[OF assms]
  by (simp add: txn_get_visible_def overlay_scan_def split: option.split)

theorem snapshot_isolation_witness:
  "let (x, e) = begin_with_connection None 0 demo_engine;
       (r, e') = locked (apply_mutation demo_engine_env (Update ''C'' None [(''v'', VInt 20)])) e
   in txn_get_visible (en_storage e') x ''C'' 1 = Some (demo_record 1 1 10)"
proof -
  obtain x e where b: "begin_with_connection None 0 demo_engine = (x, e)" by fastforce
  obtain r e' where m: "locked (apply_mutation demo_engine_env (Update ''C'' None [(''v'', VInt 20)])) e = (r, e')" by fastforce
  have "txn_session demo_engine_env ({} \<union> {}) (x, e) (x, e')"
    using begin_txn[OF b] by (blast intro: session_other session_start step_mutate m)
  moreover have "storage_get (en_storage demo_engine) ''C'' 1 = Some (demo_record 1 1 10)" by code_simp
  moreover have "staged x (''C'', 1) = None" using begin_txn[OF b] by (simp add: staged_def)
  ultimately show ?thesis using snapshot_isolation[OF demo_engine_wf b, of demo_engine_env "{}" x e' "''C''" 1] by (simp add: b m)
qed

text \<open>C33. First committer wins.  When a transaction commits on a single node, then in every collection not dropped meanwhile no key
  it wrote changed since it began, and the commit installs exactly its write set: each put with the version after the one it began with, each
  delete, and nothing else.\<close>

theorem commit_installs_writes:
  assumes "store_wf (en_storage e)" "begin_with_connection conn now e = (x0, e0)" "txn_session V D (x0, e0) (x, e')" "c \<notin> D"
    "en_cluster e' = None" "locked (commit V x) e' = (Inr (), e'')"
  shows "(staged x (c, i) \<noteq> None \<longrightarrow> storage_get (en_storage e') c i = storage_get (en_storage e) c i) \<and>
    storage_get (en_storage e'') c i =
      (case staged x (c, i) of
         None \<Rightarrow> storage_get (en_storage e') c i
       | Some StagedDelete \<Rightarrow> None
       | Some (StagedPut r) \<Rightarrow>
           Some (r\<lparr>rec_version := next_version (storage_get (en_storage e) c i), rec_created_txn := tx_id x\<rparr>))"
proof -
  note s = session_snapshot[OF assms(1-3)]
  obtain ops where o: "commit_ops V e' (tx_id x) (tx_staged x) = Inr ops"
    "\<not> list_ex (conflicts (en_storage e') (tx_read_ts x)) (om_keys (tx_staged x))"
    "ops = [] \<and> en_storage e'' = en_storage e' \<or>
     (\<exists>ts. commit_batch (ev_store V) \<lparr>b_txn_id = tx_id x, b_ops = map fst ops\<rparr> (en_storage e') = (Inr ts, en_storage e''))"
    by (rule commit_success[OF assms(6,5)])
  have w: "storage_get (en_storage e'') c i =
      (case staged x (c, i) of None \<Rightarrow> storage_get (en_storage e') c i | Some s \<Rightarrow> installed e' (tx_id x) (c, i) s)"
    using o(3) commit_ops_last_write[OF s(2) o(1), of "(c, i)"] commit_batch_get[OF s(1)]
    by (auto simp: last_write_def split: option.splits)
  have "staged x (c, i) \<noteq> None \<Longrightarrow> storage_get (en_storage e') c i = storage_get (en_storage e) c i"
    using unchanged_since[OF s(1) o(2), of c i] s(5)[OF assms(4)] by simp
  then show ?thesis using w by (auto simp: installed_def split: option.splits staged_op.splits)
qed

theorem commit_installs_writes_witness:
  "let (x0, e0) = begin_with_connection None 0 demo_engine;
       (r, x, e) = stage demo_engine_env 1 (Update ''C'' None [(''v'', VInt 30)]) x0 e0;
       (r', e') = locked (commit demo_engine_env x) e
   in r' = Inr () \<and> storage_get (en_storage e') ''C'' 1 = Some ((demo_record 1 2 30)\<lparr>rec_created_txn := 1\<rparr>)"
proof -
  obtain x0 e0 where b: "begin_with_connection None 0 demo_engine = (x0, e0)" by fastforce
  obtain r x e where m: "stage demo_engine_env 1 (Update ''C'' None [(''v'', VInt 30)]) x0 e0 = (r, x, e)" by (metis prod_cases3)
  obtain r' e' where c: "locked (commit demo_engine_env x) e = (r', e')" by fastforce
  have "(case begin_with_connection None 0 demo_engine of (x0, e0) \<Rightarrow>
      case stage demo_engine_env 1 (Update ''C'' None [(''v'', VInt 30)]) x0 e0 of (r, x, e) \<Rightarrow>
        en_cluster e = None \<and> fst (locked (commit demo_engine_env x) e) = Inr () \<and> tx_id x = 1 \<and>
        staged x (''C'', 1) = Some (StagedPut ((demo_record 1 0 30)\<lparr>rec_created_txn := 1\<rparr>)))"
    by code_simp
  then have f: "en_cluster e = None" "r' = Inr ()" "tx_id x = 1"
    "staged x (''C'', 1) = Some (StagedPut ((demo_record 1 0 30)\<lparr>rec_created_txn := 1\<rparr>))"
    using b m c by auto
  have s: "txn_session demo_engine_env {} (x0, e0) (x, e)"
    using begin_txn[OF b] m by (blast intro: session_stage session_start)
  have "storage_get (en_storage demo_engine) ''C'' 1 = Some (demo_record 1 1 10)" by code_simp
  then have "storage_get (en_storage e') ''C'' 1 = Some ((demo_record 1 2 30)\<lparr>rec_created_txn := 1\<rparr>)"
    using commit_installs_writes[OF demo_engine_wf b s _ f(1) c[unfolded f(2)], of "''C''" 1]
    by (simp add: f next_version_def demo_record_def)
  then show ?thesis by (simp add: b m c f)
qed

text \<open>C34. No lost update.  If the value of a key that an active transaction wrote, of a collection not dropped meanwhile, is not the
  one it began with, committing it returns a conflict and changes nothing but the registry of transactions.\<close>

theorem no_lost_update:
  assumes "store_wf (en_storage e)" "begin_with_connection conn now e = (x0, e0)" "txn_session V D (x0, e0) (x, e')" "c \<notin> D"
    "txn_active e' (tx_id x) (tx_read_ts x)"
    "staged x (c, i) \<noteq> None" "storage_get (en_storage e') c i \<noteq> storage_get (en_storage e) c i"
  shows "commit V x e' = (Inl (Err EConflict), rollback x e')"
proof -
  note s = session_snapshot[OF assms(1-3)]
  have "list_ex (conflicts (en_storage e') (tx_read_ts x)) (om_keys (tx_staged x))"
    using unchanged_since[OF s(1) _ assms(6)] s(5)[OF assms(4)] assms(7) by auto
  then show ?thesis using assms(5) by (auto simp: commit_def commit_transaction_def rollback_def txn_active_def)
qed

theorem no_lost_update_witness:
  "let (x0, e0) = begin_with_connection None 0 demo_engine;
       (r, x, e) = stage demo_engine_env 1 (Update ''C'' None [(''v'', VInt 30)]) x0 e0;
       (r', e') = locked (apply_mutation demo_engine_env (Update ''C'' None [(''v'', VInt 20)])) e
   in commit demo_engine_env x e' = (Inl (Err EConflict), rollback x e')"
proof -
  obtain x0 e0 where b: "begin_with_connection None 0 demo_engine = (x0, e0)" by fastforce
  obtain r x e where m: "stage demo_engine_env 1 (Update ''C'' None [(''v'', VInt 30)]) x0 e0 = (r, x, e)" by (metis prod_cases3)
  obtain r' e' where c: "locked (apply_mutation demo_engine_env (Update ''C'' None [(''v'', VInt 20)])) e = (r', e')" by fastforce
  have "(case begin_with_connection None 0 demo_engine of (x0, e0) \<Rightarrow>
      case stage demo_engine_env 1 (Update ''C'' None [(''v'', VInt 30)]) x0 e0 of (r, x, e) \<Rightarrow>
      case locked (apply_mutation demo_engine_env (Update ''C'' None [(''v'', VInt 20)])) e of (r', e') \<Rightarrow>
        map_option te_state (om_get (en_txns e) (tx_id x)) = Some TxnActive \<and>
        map_option te_read_ts (om_get (en_txns e) (tx_id x)) = Some (tx_read_ts x) \<and>
        om_get (en_txns e') (tx_id x) = om_get (en_txns e) (tx_id x) \<and>
        tx_id x = 1 \<and> staged x (''C'', 1) \<noteq> None \<and>
        storage_get (en_storage e') ''C'' 1 = Some (demo_record 1 2 20))"
    by code_simp
  then have f: "txn_active e (tx_id x) (tx_read_ts x)" "txn_active e' (tx_id x) (tx_read_ts x)" "staged x (''C'', 1) \<noteq> None"
    "storage_get (en_storage e') ''C'' 1 = Some (demo_record 1 2 20)"
    using b m c by (auto simp: txn_active_def)
  have s: "txn_session demo_engine_env ({} \<union> {}) (x0, e0) (x, e')"
    using begin_txn[OF b] m f(1) c by (blast intro: session_stage session_start session_other step_mutate)
  have "storage_get (en_storage demo_engine) ''C'' 1 = Some (demo_record 1 1 10)" by code_simp
  then have "storage_get (en_storage e') ''C'' 1 \<noteq> storage_get (en_storage demo_engine) ''C'' 1"
    using f(4) by (simp add: demo_record_def)
  from no_lost_update[OF demo_engine_wf b s _ f(2,3) this] show ?thesis by (simp add: b m c)
qed

end
