(* ===== verification/Protocol.thy ===== *)
theory Protocol
  imports Core
begin

unbundle bit_operations_syntax

text \<open>
  The wire protocol (\<open>auradb-protocol\<close>: \<open>opcode.rs\<close>, \<open>frame.rs\<close>): opcodes and frames with
  their 44-byte header.  The checksum of \<open>crc32fast\<close> is the argument \<open>crc\<close>.
\<close>

section \<open>Opcodes\<close>

datatype opcode =
    OpHello | OpPing | OpHealth | OpAuth | OpSchemaCreate | OpSchemaDrop | OpSchemaGet | OpSchemaList
  | OpQuery | OpMutate | OpCursorFetch | OpCursorClose | OpExplain | OpMigrationEstimate
  | OpTxnBegin | OpTxnCommit | OpTxnRollback
  | OpHelloAck | OpPong | OpHealthResult | OpAuthResult | OpOk | OpQueryResult | OpError

fun opcode_as_u8 :: "opcode \<Rightarrow> u8" where
  "opcode_as_u8 OpHello = 0x01"
| "opcode_as_u8 OpPing = 0x02"
| "opcode_as_u8 OpHealth = 0x03"
| "opcode_as_u8 OpAuth = 0x04"
| "opcode_as_u8 OpSchemaCreate = 0x10"
| "opcode_as_u8 OpSchemaDrop = 0x11"
| "opcode_as_u8 OpSchemaGet = 0x12"
| "opcode_as_u8 OpSchemaList = 0x13"
| "opcode_as_u8 OpQuery = 0x20"
| "opcode_as_u8 OpMutate = 0x21"
| "opcode_as_u8 OpCursorFetch = 0x22"
| "opcode_as_u8 OpCursorClose = 0x23"
| "opcode_as_u8 OpExplain = 0x24"
| "opcode_as_u8 OpMigrationEstimate = 0x25"
| "opcode_as_u8 OpTxnBegin = 0x30"
| "opcode_as_u8 OpTxnCommit = 0x31"
| "opcode_as_u8 OpTxnRollback = 0x32"
| "opcode_as_u8 OpHelloAck = 0x81"
| "opcode_as_u8 OpPong = 0x82"
| "opcode_as_u8 OpHealthResult = 0x83"
| "opcode_as_u8 OpAuthResult = 0x84"
| "opcode_as_u8 OpOk = 0x90"
| "opcode_as_u8 OpQueryResult = 0x91"
| "opcode_as_u8 OpError = 0xFF"

definition opcode_from_u8 :: "u8 \<Rightarrow> (error, opcode) result" where
  "opcode_from_u8 v =
     (if v = 0x01 then Inr OpHello
      else if v = 0x02 then Inr OpPing
      else if v = 0x03 then Inr OpHealth
      else if v = 0x04 then Inr OpAuth
      else if v = 0x10 then Inr OpSchemaCreate
      else if v = 0x11 then Inr OpSchemaDrop
      else if v = 0x12 then Inr OpSchemaGet
      else if v = 0x13 then Inr OpSchemaList
      else if v = 0x20 then Inr OpQuery
      else if v = 0x21 then Inr OpMutate
      else if v = 0x22 then Inr OpCursorFetch
      else if v = 0x23 then Inr OpCursorClose
      else if v = 0x24 then Inr OpExplain
      else if v = 0x25 then Inr OpMigrationEstimate
      else if v = 0x30 then Inr OpTxnBegin
      else if v = 0x31 then Inr OpTxnCommit
      else if v = 0x32 then Inr OpTxnRollback
      else if v = 0x81 then Inr OpHelloAck
      else if v = 0x82 then Inr OpPong
      else if v = 0x83 then Inr OpHealthResult
      else if v = 0x84 then Inr OpAuthResult
      else if v = 0x90 then Inr OpOk
      else if v = 0x91 then Inr OpQueryResult
      else if v = 0xFF then Inr OpError
      else Inl EProtocol)"

section \<open>Frames\<close>

definition MAGIC :: "u8 list" where
  "MAGIC = as_bytes ''AURA''"

definition PROTOCOL_VERSION :: u8 where
  "PROTOCOL_VERSION = 1"

definition HEADER_LEN :: nat where
  "HEADER_LEN = 44"

definition HEADER_CHECKSUM_OFFSET :: nat where
  "HEADER_CHECKSUM_OFFSET = 40"

definition FLAG_PAYLOAD_CHECKSUM :: u16 where
  "FLAG_PAYLOAD_CHECKSUM = 1"

datatype compression = NoCompression

fun compression_as_u8 :: "compression \<Rightarrow> u8" where
  "compression_as_u8 NoCompression = 0"

definition compression_from_u8 :: "u8 \<Rightarrow> (error, compression) result" where
  "compression_from_u8 v = (if v = 0 then Inr NoCompression else Inl EUnsupported)"

record frame =
  fr_version :: u8
  fr_opcode :: opcode
  fr_flags :: u16
  fr_compression :: compression
  fr_request_id :: u128
  fr_txn_id :: u64
  fr_payload :: "u8 list"

definition frame_new :: "opcode \<Rightarrow> u128 \<Rightarrow> u64 \<Rightarrow> u8 list \<Rightarrow> frame" where
  "frame_new opcode request_id txn_id payload =
     \<lparr>fr_version = PROTOCOL_VERSION, fr_opcode = opcode, fr_flags = FLAG_PAYLOAD_CHECKSUM,
      fr_compression = NoCompression, fr_request_id = request_id, fr_txn_id = txn_id, fr_payload = payload\<rparr>"

definition has_payload_checksum :: "frame \<Rightarrow> bool" where
  "has_payload_checksum f = (fr_flags f AND FLAG_PAYLOAD_CHECKSUM \<noteq> 0)"

definition encoded_len :: "frame \<Rightarrow> nat" where
  "encoded_len f = HEADER_LEN + length (fr_payload f) + (if has_payload_checksum f then 4 else 0)"

text \<open>The bytes the header checksum covers; the payload length is cast to \<open>u32\<close>.\<close>

definition frame_header :: "frame \<Rightarrow> u8 list" where
  "frame_header f =
     MAGIC @ [fr_version f, opcode_as_u8 (fr_opcode f)] @ be_bytes 2 (unat (fr_flags f)) @ be_bytes 2 HEADER_LEN @
     [compression_as_u8 (fr_compression f), 0] @ be_bytes 4 (unat (word_of_nat (length (fr_payload f)) :: u32)) @
     be_bytes 16 (unat (fr_request_id f)) @ be_bytes 8 (unat (fr_txn_id f))"

definition frame_encode :: "(u8 list \<Rightarrow> u32) \<Rightarrow> frame \<Rightarrow> u8 list" where
  "frame_encode crc f =
     frame_header f @ be_bytes 4 (unat (crc (frame_header f))) @ fr_payload f @
     (if has_payload_checksum f then be_bytes 4 (unat (crc (fr_payload f))) else [])"

definition byte_range :: "nat \<Rightarrow> nat \<Rightarrow> u8 list \<Rightarrow> u8 list" where
  "byte_range a b buf = take (b - a) (drop a buf)"

text \<open>The part of \<open>decode\<close> after the header was accepted.\<close>

definition decode_body ::
  "(u8 list \<Rightarrow> u32) \<Rightarrow> u8 list \<Rightarrow> opcode \<Rightarrow> compression \<Rightarrow> u16 \<Rightarrow> nat \<Rightarrow> (error, (frame \<times> nat) option) result" where
  "decode_body crc buf opcode compression flags payload_len =
     (let has_checksum = (flags AND FLAG_PAYLOAD_CHECKSUM \<noteq> 0);
          total = HEADER_LEN + payload_len + (if has_checksum then 4 else 0)
      in if length buf < total then Inr None
         else
           (let payload = byte_range HEADER_LEN (HEADER_LEN + payload_len) buf;
                off = HEADER_LEN + payload_len
            in if has_checksum \<and> of_be_bytes (byte_range off (off + 4) buf) \<noteq> unat (crc payload) then Inl ECorruption
               else Inr (Some
                 (\<lparr>fr_version = buf ! 4, fr_opcode = opcode, fr_flags = flags, fr_compression = compression,
                   fr_request_id = word_of_nat (of_be_bytes (byte_range 16 32 buf)),
                   fr_txn_id = word_of_nat (of_be_bytes (byte_range 32 40 buf)), fr_payload = payload\<rparr>, total))))"

definition frame_decode :: "(u8 list \<Rightarrow> u32) \<Rightarrow> u8 list \<Rightarrow> nat \<Rightarrow> (error, (frame \<times> nat) option) result" where
  "frame_decode crc buf max_payload =
     (if length buf < HEADER_LEN then Inr None
      else if byte_range 0 4 buf \<noteq> MAGIC then Inl EProtocol
      else if buf ! 4 = 0 \<or> PROTOCOL_VERSION < buf ! 4 then Inl EProtocol
      else case opcode_from_u8 (buf ! 5) of
        Inl e \<Rightarrow> Inl e
      | Inr opcode \<Rightarrow>
          if of_be_bytes (byte_range 8 10 buf) \<noteq> HEADER_LEN then Inl EProtocol
          else (case compression_from_u8 (buf ! 10) of
            Inl e \<Rightarrow> Inl e
          | Inr compression \<Rightarrow>
              (let payload_len = of_be_bytes (byte_range 12 16 buf) in
               if max_payload < payload_len then Inl ELimitExceeded
               else if of_be_bytes (byte_range 40 44 buf) \<noteq> unat (crc (byte_range 0 HEADER_CHECKSUM_OFFSET buf))
               then Inl ECorruption
               else decode_body crc buf opcode compression (word_of_nat (of_be_bytes (byte_range 6 8 buf))) payload_len)))"

section \<open>Framing over a byte stream\<close>

text \<open>\<open>auradb-server\<close>: \<open>wire.rs\<close>.  A reader is the bytes still to come and whether the stream ends in an
  I/O error rather than in an end of file; \<open>read_exact\<close> consumes what there is before it fails.\<close>

record reader =
  rd_bytes :: "u8 list"
  rd_broken :: bool

datatype read_error = UnexpectedEof | OtherIo

definition read_exact :: "nat \<Rightarrow> reader \<Rightarrow> (read_error, u8 list, reader) result_st" where
  "read_exact n r =
     (if n \<le> length (rd_bytes r) then (Inr (take n (rd_bytes r)), r\<lparr>rd_bytes := drop n (rd_bytes r)\<rparr>)
      else (Inl (if rd_broken r then OtherIo else UnexpectedEof), r\<lparr>rd_bytes := []\<rparr>))"

definition read_frame :: "(u8 list \<Rightarrow> u32) \<Rightarrow> nat \<Rightarrow> reader \<Rightarrow> (error, frame option, reader) result_st" where
  "read_frame crc max_payload r =
     (case read_exact HEADER_LEN r of
        (Inl UnexpectedEof, r) \<Rightarrow> (Inr None, r)
      | (Inl OtherIo, r) \<Rightarrow> (Inl EIo, r)
      | (Inr header, r) \<Rightarrow>
          (let payload_len = of_be_bytes (byte_range 12 16 header) in
           if max_payload < payload_len then (Inl ELimitExceeded, r)
           else
             (let flags = (word_of_nat (of_be_bytes (byte_range 6 8 header)) :: u16);
                  trailer = (if flags AND FLAG_PAYLOAD_CHECKSUM \<noteq> 0 then 4 else 0)
              in case read_exact (payload_len + trailer) r of
                   (Inl _, r) \<Rightarrow> (Inl EIo, r)
                 | (Inr body, r) \<Rightarrow>
                     (case frame_decode crc (header @ body) max_payload of
                        Inl e \<Rightarrow> (Inl e, r)
                      | Inr (Some (f, _)) \<Rightarrow> (Inr (Some f), r)
                      | Inr None \<Rightarrow> (Inl EProtocol, r)))))"

section \<open>Round trips and bounds\<close>

lemma opcode_roundtrip: "opcode_from_u8 (opcode_as_u8 op) = Inr op"
  by (cases op) (simp_all add: opcode_from_u8_def)

lemma opcode_inverse: "opcode_from_u8 v = Inr op \<Longrightarrow> opcode_as_u8 op = v"
  by (auto simp: opcode_from_u8_def split: if_splits)

end
