(* ===== verification/Protocol_Props.thy ===== *)
theory Protocol_Props
  imports Protocol
begin

unbundle bit_operations_syntax

text \<open>
  The frame codec: an encoded frame decodes to itself whatever follows it, a strict prefix asks for more bytes, and
  whatever bytes arrive the decoder stays within its buffer and its payload limit.
\<close>

lemma byte_range_mid: "length pre = a \<Longrightarrow> length mid = b - a \<Longrightarrow> byte_range a b (pre @ mid @ post) = mid"
  by (simp add: byte_range_def)

lemma byte_range_append: "a \<le> b \<Longrightarrow> b \<le> c \<Longrightarrow> byte_range a b buf @ byte_range b c buf = byte_range a c buf"
proof -
  assume ab: "a \<le> b" "b \<le> c"
  have "c - a = (b - a) + (c - b)" using ab by simp
  then have "take (c - a) (drop a buf) = take (b - a) (drop a buf) @ take (c - b) (drop (b - a) (drop a buf))"
    by (simp only: take_add)
  then show ?thesis using ab by (simp add: byte_range_def)
qed

lemma byte_range_take: "b \<le> n \<Longrightarrow> byte_range a b (take n buf) = byte_range a b buf"
  by (cases "a \<le> b") (auto simp: byte_range_def take_drop min_def)

lemma byte_range_one: "i < length buf \<Longrightarrow> byte_range i (Suc i) buf = [buf ! i]"
  by (simp add: byte_range_def take_Suc hd_drop_conv_nth)

lemma length_byte_range: "b \<le> length buf \<Longrightarrow> length (byte_range a b buf) = b - a"
  by (simp add: byte_range_def)

lemma byte_range_nat: "b \<le> length buf \<Longrightarrow> be_bytes (b - a) (of_be_bytes (byte_range a b buf)) = byte_range a b buf"
  using be_bytes_of_be_bytes[of "byte_range a b buf"] by (simp add: length_byte_range)

lemma byte_range_word:
  assumes "b \<le> length buf" "8 * (b - a) = LENGTH('a)"
  shows "be_bytes (b - a) (unat (word_of_nat (of_be_bytes (byte_range a b buf)) :: 'a::len word)) = byte_range a b buf"
proof -
  have "of_be_bytes (byte_range a b buf) < 256 ^ (b - a)" using of_be_bytes_bound[of "byte_range a b buf"] assms(1) by (simp add: length_byte_range)
  also have "(256::nat) ^ (b - a) = 2 ^ LENGTH('a)" by (simp add: assms(2)[symmetric] power_mult)
  finally show ?thesis using byte_range_nat[OF assms(1)] by (simp add: unsigned_of_nat take_bit_nat_eq_self)
qed

lemma length_frame_header [simp]: "length (frame_header f) = 40"
  by (simp add: frame_header_def MAGIC_def as_bytes_def)

lemma length_frame_encode: "length (frame_encode crc f) = encoded_len f"
  by (simp add: frame_encode_def encoded_len_def HEADER_LEN_def)

lemma header_ranges:
  fixes f crc rest
  defines "buf \<equiv> frame_encode crc f @ rest"
  shows "byte_range 0 4 buf = MAGIC" "buf ! 4 = fr_version f" "buf ! 5 = opcode_as_u8 (fr_opcode f)"
    "byte_range 6 8 buf = be_bytes 2 (unat (fr_flags f))" "byte_range 8 10 buf = be_bytes 2 HEADER_LEN"
    "buf ! 10 = compression_as_u8 (fr_compression f)"
    "byte_range 12 16 buf = be_bytes 4 (unat (word_of_nat (length (fr_payload f)) :: u32))"
    "byte_range 16 32 buf = be_bytes 16 (unat (fr_request_id f))" "byte_range 32 40 buf = be_bytes 8 (unat (fr_txn_id f))"
    "byte_range 0 40 buf = frame_header f" "byte_range 40 44 buf = be_bytes 4 (unat (crc (frame_header f)))"
    "byte_range 44 (44 + length (fr_payload f)) buf = fr_payload f"
  unfolding buf_def frame_encode_def
  by (simp_all add: frame_header_def byte_range_def MAGIC_def as_bytes_def nth_append del: be_bytes.simps)

lemma be_word:
  assumes "8 * n = LENGTH('a)"
  shows "of_be_bytes (be_bytes n (unat (w :: 'a::len word))) = unat w"
proof (rule of_be_bytes_be_bytes)
  have "unat w < 2 ^ LENGTH('a)" by (rule unsigned_less)
  then show "unat w < 256 ^ n" by (simp add: assms[symmetric] power_mult)
qed

lemma ids_back:
  "of_be_bytes (be_bytes 2 (unat (g :: u16))) = unat g"
  "of_be_bytes (be_bytes 16 (unat (i :: u128))) = unat i" "of_be_bytes (be_bytes 8 (unat (t :: u64))) = unat t"
  "of_be_bytes (be_bytes 4 (unat (c :: u32))) = unat c" "of_be_bytes (be_bytes 2 HEADER_LEN) = HEADER_LEN"
  by (rule be_word, simp)+ (simp add: of_be_bytes_be_bytes HEADER_LEN_def del: be_bytes.simps)

text \<open>What \<open>decode\<close> sees in a buffer that starts with an encoded frame.\<close>

lemma decode_encoded:
  assumes "fr_version f = PROTOCOL_VERSION" "length (fr_payload f) < 4294967296" "length (fr_payload f) \<le> m" "44 \<le> length buf"
    and h: "\<And>a b. b \<le> 44 \<Longrightarrow> byte_range a b buf = byte_range a b (frame_encode crc f @ rest)" "\<And>i. i < 44 \<Longrightarrow> buf ! i = (frame_encode crc f @ rest) ! i"
  shows "frame_decode crc buf m = decode_body crc buf (fr_opcode f) (fr_compression f) (fr_flags f) (length (fr_payload f))"
proof -
  note r = header_ranges[where f = f and crc = crc and rest = rest]
  have l: "of_be_bytes (be_bytes 4 (unat (word_of_nat (length (fr_payload f)) :: u32))) = length (fr_payload f)"
    using assms(2) unfolding ids_back by (simp add: unsigned_of_nat take_bit_nat_eq_self)
  have l': "of_be_bytes (be_bytes 4 (length (fr_payload f))) = length (fr_payload f)"
    using assms(2) by (intro of_be_bytes_be_bytes) simp
  have c: "compression_from_u8 (compression_as_u8 (fr_compression f)) = Inr (fr_compression f)"
    by (cases "fr_compression f") (simp add: compression_from_u8_def)
  have b: "byte_range 0 4 buf = MAGIC" "buf ! 4 = 1" "buf ! 5 = opcode_as_u8 (fr_opcode f)"
    "of_be_bytes (byte_range 8 10 buf) = HEADER_LEN" "buf ! 10 = compression_as_u8 (fr_compression f)"
    "of_be_bytes (byte_range 12 16 buf) = length (fr_payload f)"
    "of_be_bytes (byte_range 40 44 buf) = unat (crc (frame_header f))" "byte_range 0 40 buf = frame_header f"
    "word_of_nat (of_be_bytes (byte_range 6 8 buf)) = fr_flags f"
    using h r l l' assms(1) by (simp_all add: ids_back PROTOCOL_VERSION_def del: be_bytes.simps)
  have "\<not> length buf < HEADER_LEN" "\<not> m < length (fr_payload f)" using assms(3,4) by (simp_all add: HEADER_LEN_def)
  then show ?thesis
    unfolding frame_decode_def b HEADER_CHECKSUM_OFFSET_def PROTOCOL_VERSION_def
    by (simp add: opcode_roundtrip c Let_def)
qed

lemma decode_complete:
  assumes "fr_version f = PROTOCOL_VERSION" "length (fr_payload f) < 4294967296" "length (fr_payload f) \<le> m"
  shows "frame_decode crc (frame_encode crc f @ rest) m = Inr (Some (f, encoded_len f))"
proof -
  let ?buf = "frame_encode crc f @ rest" and ?n = "44 + length (fr_payload f)"
  note r = header_ranges[where f = f and crc = crc and rest = rest]
  have len: "encoded_len f \<le> length ?buf" by (simp add: length_frame_encode)
  have t: "byte_range ?n (?n + 4) ?buf = be_bytes 4 (unat (crc (fr_payload f)))" if "has_payload_checksum f"
    using that byte_range_mid[of "frame_header f @ be_bytes 4 (unat (crc (frame_header f))) @ fr_payload f" ?n "be_bytes 4 (unat (crc (fr_payload f)))" "?n + 4" rest]
    by (simp add: frame_encode_def del: be_bytes.simps)
  have "frame_decode crc ?buf m = decode_body crc ?buf (fr_opcode f) (fr_compression f) (fr_flags f) (length (fr_payload f))"
    using len by (intro decode_encoded[OF assms]) (simp_all add: encoded_len_def HEADER_LEN_def)
  also have "\<dots> = Inr (Some (\<lparr>fr_version = fr_version f, fr_opcode = fr_opcode f, fr_flags = fr_flags f,
      fr_compression = fr_compression f, fr_request_id = fr_request_id f, fr_txn_id = fr_txn_id f,
      fr_payload = fr_payload f\<rparr>, encoded_len f))"
  proof (cases "has_payload_checksum f")
    case True
    then show ?thesis using len r(2,8,9,12) t
      by (simp add: decode_body_def Let_def HEADER_LEN_def encoded_len_def has_payload_checksum_def ids_back del: be_bytes.simps)
  next
    case False
    then show ?thesis using len r(2,8,9,12)
      by (simp add: decode_body_def Let_def HEADER_LEN_def encoded_len_def has_payload_checksum_def ids_back del: be_bytes.simps)
  qed
  also have "\<dots> = Inr (Some (f, encoded_len f))" by (cases f) simp
  finally show ?thesis .
qed

lemma decode_partial:
  assumes "fr_version f = PROTOCOL_VERSION" "length (fr_payload f) < 4294967296" "length (fr_payload f) \<le> m" "k < encoded_len f"
  shows "frame_decode crc (take k (frame_encode crc f)) m = Inr None"
proof (cases "k < 44")
  case True
  then have "length (take k (frame_encode crc f)) < HEADER_LEN" by (simp add: HEADER_LEN_def)
  then show ?thesis by (simp only: frame_decode_def if_True)
next
  case False
  let ?buf = "take k (frame_encode crc f)"
  have l: "length ?buf = k" using assms(4) by (simp add: length_frame_encode)
  have "frame_decode crc ?buf m = decode_body crc ?buf (fr_opcode f) (fr_compression f) (fr_flags f) (length (fr_payload f))"
    using False l assms(4)
    by (intro decode_encoded[OF assms(1-3), where rest = "[]"]) (auto simp: byte_range_def take_drop min_def length_frame_encode)
  then show ?thesis using assms(4) l by (simp add: decode_body_def encoded_len_def has_payload_checksum_def Let_def)
qed

lemma decode_inv:
  assumes "frame_decode crc buf m = Inr (Some (f, n))"
  shows "44 \<le> length buf" "byte_range 0 4 buf = MAGIC" "fr_version f = buf ! 4" "opcode_as_u8 (fr_opcode f) = buf ! 5"
    "fr_flags f = word_of_nat (of_be_bytes (byte_range 6 8 buf))" "of_be_bytes (byte_range 8 10 buf) = HEADER_LEN"
    "compression_as_u8 (fr_compression f) = buf ! 10" "of_be_bytes (byte_range 12 16 buf) = length (fr_payload f)"
    "length (fr_payload f) \<le> m" "of_be_bytes (byte_range 40 44 buf) = unat (crc (byte_range 0 40 buf))"
    "fr_request_id f = word_of_nat (of_be_bytes (byte_range 16 32 buf))" "fr_txn_id f = word_of_nat (of_be_bytes (byte_range 32 40 buf))"
    "n = encoded_len f" "n \<le> length buf" "fr_payload f = byte_range 44 (44 + length (fr_payload f)) buf"
    "has_payload_checksum f \<Longrightarrow> of_be_bytes (byte_range (44 + length (fr_payload f)) (48 + length (fr_payload f)) buf) = unat (crc (fr_payload f))"
proof -
  let ?l = "of_be_bytes (byte_range 12 16 buf)" and ?g = "word_of_nat (of_be_bytes (byte_range 6 8 buf)) :: u16"
  obtain op c where d: "\<not> length buf < 44" "byte_range 0 4 buf = MAGIC" "opcode_from_u8 (buf ! 5) = Inr op"
    "of_be_bytes (byte_range 8 10 buf) = HEADER_LEN" "compression_from_u8 (buf ! 10) = Inr c" "\<not> m < ?l"
    "of_be_bytes (byte_range 40 44 buf) = unat (crc (byte_range 0 40 buf))"
    "decode_body crc buf op c ?g ?l = Inr (Some (f, n))"
    using assms by (auto simp: frame_decode_def Let_def HEADER_LEN_def HEADER_CHECKSUM_OFFSET_def split: if_splits sum.splits)
  have c: "compression_as_u8 c = buf ! 10" using d(5) by (cases c) (auto simp: compression_from_u8_def split: if_splits)
  have n: "n = 44 + ?l + (if ?g AND FLAG_PAYLOAD_CHECKSUM \<noteq> 0 then 4 else 0)" "n \<le> length buf"
    "f = \<lparr>fr_version = buf ! 4, fr_opcode = op, fr_flags = ?g, fr_compression = c,
          fr_request_id = word_of_nat (of_be_bytes (byte_range 16 32 buf)),
          fr_txn_id = word_of_nat (of_be_bytes (byte_range 32 40 buf)), fr_payload = byte_range 44 (44 + ?l) buf\<rparr>"
    "?g AND FLAG_PAYLOAD_CHECKSUM \<noteq> 0 \<Longrightarrow> of_be_bytes (byte_range (44 + ?l) (48 + ?l) buf) = unat (crc (byte_range 44 (44 + ?l) buf))"
    using d(8) by (auto simp: decode_body_def Let_def HEADER_LEN_def add.commute split: if_splits)
  have l: "length (fr_payload f) = ?l" using n(1,2) unfolding n(3) by (simp add: length_byte_range split: if_splits)
  note facts = d c n l opcode_inverse[OF d(3)]
  show "44 \<le> length buf" "byte_range 0 4 buf = MAGIC" "fr_version f = buf ! 4" "opcode_as_u8 (fr_opcode f) = buf ! 5"
    "fr_flags f = word_of_nat (of_be_bytes (byte_range 6 8 buf))" "of_be_bytes (byte_range 8 10 buf) = HEADER_LEN"
    "compression_as_u8 (fr_compression f) = buf ! 10" "of_be_bytes (byte_range 12 16 buf) = length (fr_payload f)"
    "length (fr_payload f) \<le> m" "of_be_bytes (byte_range 40 44 buf) = unat (crc (byte_range 0 40 buf))"
    "fr_request_id f = word_of_nat (of_be_bytes (byte_range 16 32 buf))" "fr_txn_id f = word_of_nat (of_be_bytes (byte_range 32 40 buf))"
    "n = encoded_len f" "n \<le> length buf" "fr_payload f = byte_range 44 (44 + length (fr_payload f)) buf"
    "has_payload_checksum f \<Longrightarrow> of_be_bytes (byte_range (44 + length (fr_payload f)) (48 + length (fr_payload f)) buf) = unat (crc (fr_payload f))"
    using facts by (auto simp: encoded_len_def has_payload_checksum_def HEADER_LEN_def)
qed

lemma header_of_decoded:
  assumes "frame_decode crc buf m = Inr (Some (f, n))" "buf ! 11 = 0"
  shows "frame_header f = byte_range 0 40 buf"
proof -
  note * = decode_inv[OF assms(1)]
  have l: "8 * 2 = LENGTH(16)" "8 * 4 = LENGTH(32)" "8 * 16 = LENGTH(128)" "8 * 8 = LENGTH(64)" by simp_all
  have w: "be_bytes 2 (unat (fr_flags f)) = byte_range 6 8 buf" "be_bytes 2 HEADER_LEN = byte_range 8 10 buf"
    "be_bytes 4 (unat (word_of_nat (length (fr_payload f)) :: u32)) = byte_range 12 16 buf"
    "be_bytes 16 (unat (fr_request_id f)) = byte_range 16 32 buf" "be_bytes 8 (unat (fr_txn_id f)) = byte_range 32 40 buf"
    using byte_range_word[where 'a = 16, of 8 buf 6] byte_range_nat[of 10 buf 8] byte_range_word[where 'a = 32, of 16 buf 12]
      byte_range_word[where 'a = 128, of 32 buf 16] byte_range_word[where 'a = 64, of 40 buf 32] *(1,5,6,8,11,12)
    by simp_all
  have o: "[buf ! 4, buf ! 5] = byte_range 4 6 buf" "[buf ! 10, 0] = byte_range 10 12 buf"
    using byte_range_append[of 4 5 6 buf] byte_range_append[of 10 11 12 buf] byte_range_one[of 4 buf] byte_range_one[of 5 buf]
      byte_range_one[of 10 buf] byte_range_one[of 11 buf] *(1) assms(2) by simp_all
  show ?thesis unfolding frame_header_def *(3,4,7) w *(2)[symmetric] o by (simp add: byte_range_append)
qed

lemma read_encoded:
  assumes "fr_version f = PROTOCOL_VERSION" "length (fr_payload f) < 4294967296" "length (fr_payload f) \<le> m"
  shows "read_frame crc m \<lparr>rd_bytes = frame_encode crc f @ rest, rd_broken = b\<rparr> = (Inr (Some f), \<lparr>rd_bytes = rest, rd_broken = b\<rparr>)"
proof -
  let ?e = "frame_encode crc f" and ?t = "if fr_flags f AND FLAG_PAYLOAD_CHECKSUM \<noteq> 0 then 4 else 0 :: nat"
  have len: "length ?e = 44 + (length (fr_payload f) + ?t)"
    by (simp add: length_frame_encode encoded_len_def HEADER_LEN_def has_payload_checksum_def)
  have "of_be_bytes (byte_range 12 16 (take 44 ?e)) = unat (word_of_nat (length (fr_payload f)) :: u32)"
    using header_ranges(7)[of crc f "[]"] by (simp add: byte_range_take ids_back del: be_bytes.simps)
  then have l: "of_be_bytes (byte_range 12 16 (take 44 ?e)) = length (fr_payload f)"
    using assms(2) by (simp add: unsigned_of_nat take_bit_nat_eq_self)
  have "of_be_bytes (byte_range 6 8 (take 44 ?e)) = unat (fr_flags f)"
    using header_ranges(4)[of crc f "[]"] by (simp add: byte_range_take ids_back del: be_bytes.simps)
  then have g: "(word_of_nat (of_be_bytes (byte_range 6 8 (take 44 ?e))) :: u16) = fr_flags f" by simp
  have r: "read_exact HEADER_LEN \<lparr>rd_bytes = ?e @ rest, rd_broken = b\<rparr> = (Inr (take 44 ?e), \<lparr>rd_bytes = drop 44 ?e @ rest, rd_broken = b\<rparr>)"
    "read_exact (length (fr_payload f) + ?t) \<lparr>rd_bytes = drop 44 ?e @ rest, rd_broken = b\<rparr> = (Inr (drop 44 ?e), \<lparr>rd_bytes = rest, rd_broken = b\<rparr>)"
    using len by (simp_all add: read_exact_def HEADER_LEN_def)
  have d: "frame_decode crc (take 44 ?e @ drop 44 ?e) m = Inr (Some (f, encoded_len f))"
    unfolding append_take_drop_id using decode_complete[OF assms, of crc "[]"] by simp
  have m: "\<not> m < length (fr_payload f)" using assms(3) by simp
  show ?thesis unfolding read_frame_def r prod.case sum.case Let_def l g r d option.case by (simp only: m if_False)
qed

text \<open>C36. Frame round trip.  A frame of the current version with a payload below 4 GiB and within the limit is decoded from the
  front of any buffer that starts with its encoding, consuming exactly its length; every strict prefix of
  the encoding asks for more bytes; and reading it from a connection leaves the bytes that follow it.\<close>

theorem frame_roundtrip:
  assumes "fr_version f = PROTOCOL_VERSION" "length (fr_payload f) < 2 ^ 32" "length (fr_payload f) \<le> max_payload"
  shows "frame_decode crc (frame_encode crc f @ rest) max_payload = Inr (Some (f, encoded_len f)) \<and>
    (\<forall>k<encoded_len f. frame_decode crc (take k (frame_encode crc f)) max_payload = Inr None) \<and>
    read_frame crc max_payload \<lparr>rd_bytes = frame_encode crc f @ rest, rd_broken = b\<rparr> =
      (Inr (Some f), \<lparr>rd_bytes = rest, rd_broken = b\<rparr>)"
proof -
  have p: "length (fr_payload f) < 4294967296" using assms(2) by simp
  show ?thesis using decode_complete[OF assms(1) p assms(3)] decode_partial[OF assms(1) p assms(3)] read_encoded[OF assms(1) p assms(3)]
    by blast
qed

definition demo_frame :: frame where
  "demo_frame = frame_new OpPing 7 0 [104, 105]"

definition demo_crc :: "u8 list \<Rightarrow> u32" where
  "demo_crc bs = foldl (\<lambda>a b. a * 31 + ucast b) 0 bs"

theorem frame_roundtrip_witness:
  "frame_decode demo_crc (frame_encode demo_crc demo_frame @ [1, 2]) 16 = Inr (Some (demo_frame, 50))"
proof -
  have "encoded_len demo_frame = 50" "fr_version demo_frame = PROTOCOL_VERSION" "length (fr_payload demo_frame) = 2" by code_simp+
  then show ?thesis using frame_roundtrip[of demo_frame 16 demo_crc "[1, 2]"] by simp
qed

text \<open>C37. Bounds of the decoder on arbitrary bytes.  A decoded frame lies within the buffer, its payload within the limit, and
  re-encoding it gives back the consumed bytes when the reserved byte is zero; an error needs a whole header; and the
  decoder asks for more only below the header, the limit and the trailer together.\<close>

theorem frame_decode_bounds:
  "case frame_decode crc buf max_payload of
     Inl e \<Rightarrow> HEADER_LEN \<le> length buf
   | Inr None \<Rightarrow> length buf < HEADER_LEN + max_payload + 4
   | Inr (Some (f, n)) \<Rightarrow> n \<le> length buf \<and> n = encoded_len f \<and> length (fr_payload f) \<le> max_payload \<and>
       (buf ! 11 = 0 \<longrightarrow> frame_encode crc f = take n buf)"
proof (cases "frame_decode crc buf max_payload")
  case (Inl e)
  then show ?thesis by (auto simp: frame_decode_def split: if_splits)
next
  case (Inr x)
  show ?thesis
  proof (cases x)
    case None
    then show ?thesis using Inr by (auto simp: frame_decode_def decode_body_def Let_def HEADER_LEN_def split: if_splits sum.splits)
  next
    case (Some y)
    obtain f n where y: "y = (f, n)" by (cases y)
    have d: "frame_decode crc buf max_payload = Inr (Some (f, n))" using Inr Some y by simp
    note * = decode_inv[OF d]
    let ?n = "44 + length (fr_payload f)"
    have "frame_encode crc f = take n buf" if "buf ! 11 = 0"
    proof -
      have h: "frame_header f = byte_range 0 40 buf" by (rule header_of_decoded[OF d that])
      have "be_bytes 4 (unat (crc (frame_header f))) = byte_range 40 44 buf"
        using byte_range_nat[of 44 buf 40] *(1,10) h by simp
      moreover have "be_bytes 4 (unat (crc (fr_payload f))) = byte_range ?n (?n + 4) buf" if "has_payload_checksum f"
        using byte_range_nat[of "?n + 4" buf ?n] *(13,14,16) that by (simp add: encoded_len_def HEADER_LEN_def add.commute)
      ultimately have "frame_encode crc f = byte_range 0 40 buf @ byte_range 40 44 buf @ byte_range 44 ?n buf @
          (if has_payload_checksum f then byte_range ?n (?n + 4) buf else [])"
        using *(15) h by (simp add: frame_encode_def del: be_bytes.simps)
      also have "\<dots> = byte_range 0 n buf"
        using *(13) by (simp add: byte_range_append encoded_len_def HEADER_LEN_def)
      finally show ?thesis by (simp add: byte_range_def)
    qed
    then show ?thesis using d *(9,13,14) by simp
  qed
qed

theorem frame_decode_bounds_witness:
  "frame_encode demo_crc demo_frame = take 50 (frame_encode demo_crc demo_frame @ [9])"
proof -
  let ?b = "frame_encode demo_crc demo_frame @ [9]"
  have f: "encoded_len demo_frame = 50" "fr_version demo_frame = PROTOCOL_VERSION" "length (fr_payload demo_frame) = 2" by code_simp+
  have d: "frame_decode demo_crc ?b 16 = Inr (Some (demo_frame, 50))" using decode_complete[of demo_frame 16 demo_crc "[9]"] f by simp
  have "?b ! 11 = 0" by (simp add: frame_encode_def frame_header_def nth_append MAGIC_def as_bytes_def del: be_bytes.simps)
  then show ?thesis using frame_decode_bounds[where crc = demo_crc and buf = ?b and max_payload = 16] unfolding d by simp
qed

end
