(* ===== verification/Engine_Faults.thy ===== *)
theory Engine_Faults
  imports Engine_Isolation
begin

text \<open>
  What a commit does when its transaction deletes a record that it inserted itself: the batch is durable before the
  indexes are brought up to date, and the pair of no old and no new record meets an \<open>expect\<close>.  And two reads of a
  transaction that do not see its snapshot: through an index with nothing staged, and of a collection that was dropped.
\<close>

lemma commit_ops_mem:
  "commit_ops V e t ps = Inr ops \<Longrightarrow> p \<in> set ps \<Longrightarrow> \<exists>op \<in> set ops. commit_op V e t p = Inr op"
proof (induction ps arbitrary: ops)
  case (Cons a ps)
  then show ?case by (cases "commit_op V e t a"; cases "commit_ops V e t ps") auto
qed simp

lemma apply_deltas_panic: "(None, None) \<in> set ds \<Longrightarrow> fst (apply_deltas V ds affected e) = Inl Panic"
  by (induction V ds affected e rule: apply_deltas.induct)
    (auto simp: delta_collection_def split: sum.splits prod.splits option.splits)

text \<open>C40. Committing a transaction that deletes a record it inserted itself writes the batch durably and then
  panics: the caller gets no result although the commit happened, the lock of the engine is poisoned, and every later operation
  panics as well.\<close>

theorem own_insert_deleted_panics:
  assumes "\<not> en_poisoned e" "map_option te_state (om_get (en_txns e) (tx_id x)) \<noteq> Some TxnTimedOut"
    "\<not> list_ex (conflicts (en_storage e) (tx_read_ts x)) (om_keys (tx_staged x))"
    "commit_ops V e (tx_id x) (tx_staged x) = Inr ops"
    "engine_commit_batch V \<lparr>b_txn_id = tx_id x, b_ops = map fst ops\<rparr> e = (Inr ts, e1)"
    "staged x (c, i) = Some StagedDelete" "storage_get (en_storage e) c i = None"
  shows "\<exists>e'. locked (commit V x) e = (Inl Panic, e') \<and> en_storage e' = en_storage e1 \<and> locked f e' = (Inl Panic, e')"
proof -
  have "((c, i), StagedDelete) \<in> set (tx_staged x)"
    using assms(6) by (auto simp: staged_def om_get_def dest: map_of_SomeD)
  then obtain op where op: "op \<in> set ops" "commit_op V e (tx_id x) ((c, i), StagedDelete) = Inr op"
    using commit_ops_mem[OF assms(4)] by blast
  then have "snd op = (None, None)" using assms(7) by (auto simp: commit_op_def)
  then have mem: "(None, None) \<in> set (map snd ops)" using op(1) by force
  obtain e2 where e2: "apply_deltas V (map snd ops) [] e1 = (Inl Panic, e2)"
    using apply_deltas_panic[OF mem] by (metis prod.collapse)
  have "ops \<noteq> []" using op(1) by auto
  then have "commit_transaction V x e = (Inl Panic, e2)"
    using assms(3,4,5) e2 by (simp add: commit_transaction_def en_bind_def)
  then have "locked (commit V x) e = (Inl Panic, e2\<lparr>en_poisoned := True\<rparr>)"
    using assms(1,2) by (simp add: locked_def commit_def)
  moreover have "en_storage e2 = en_storage e1" using apply_deltas_storage[OF e2] .
  ultimately show ?thesis by (auto simp: locked_def)
qed

definition demo_own_delete :: "transaction \<times> unit engine" where
  "demo_own_delete =
     (let (x0, e0) = begin_with_connection None 0 demo_engine;
          (r, x1, e1) = stage demo_engine_env 1 (Insert ''C'' [(''v'', VInt 30)]) x0 e0;
          (r, x2, e2) = stage demo_engine_env 1 (Delete ''C'' (Some (FilterCompare ''v'' OpEq (VInt 30)))) x1 e1
      in (x2, e2))"

theorem own_insert_deleted_panics_witness:
  "\<exists>e'. locked (commit demo_engine_env (fst demo_own_delete)) (snd demo_own_delete) = (Inl Panic, e') \<and>
     st_last_commit_ts (en_storage (snd demo_own_delete)) < st_last_commit_ts (en_storage e') \<and>
     locked (engine_gc demo_engine_env) e' = (Inl Panic, e')"
proof -
  obtain x e where xe: "demo_own_delete = (x, e)" by fastforce
  have "case demo_own_delete of (x, e) \<Rightarrow>
      \<not> en_poisoned e \<and> map_option te_state (om_get (en_txns e) (tx_id x)) \<noteq> Some TxnTimedOut \<and>
      \<not> list_ex (conflicts (en_storage e) (tx_read_ts x)) (om_keys (tx_staged x)) \<and>
      staged x (''C'', 2) = Some StagedDelete \<and> storage_get (en_storage e) ''C'' 2 = None \<and>
      (case commit_ops demo_engine_env e (tx_id x) (tx_staged x) of
         Inl _ \<Rightarrow> False
       | Inr ops \<Rightarrow> (case engine_commit_batch demo_engine_env \<lparr>b_txn_id = tx_id x, b_ops = map fst ops\<rparr> e of
           (Inl _, _) \<Rightarrow> False
         | (Inr _, e1) \<Rightarrow> st_last_commit_ts (en_storage e) < st_last_commit_ts (en_storage e1)))" by code_simp
  then have f: "\<not> en_poisoned e" "map_option te_state (om_get (en_txns e) (tx_id x)) \<noteq> Some TxnTimedOut"
    "\<not> list_ex (conflicts (en_storage e) (tx_read_ts x)) (om_keys (tx_staged x))"
    and d: "staged x (''C'', 2) = Some StagedDelete" "storage_get (en_storage e) ''C'' 2 = None"
    and c: "case commit_ops demo_engine_env e (tx_id x) (tx_staged x) of
         Inl _ \<Rightarrow> False
       | Inr ops \<Rightarrow> (case engine_commit_batch demo_engine_env \<lparr>b_txn_id = tx_id x, b_ops = map fst ops\<rparr> e of
           (Inl _, _) \<Rightarrow> False
         | (Inr _, e1) \<Rightarrow> st_last_commit_ts (en_storage e) < st_last_commit_ts (en_storage e1))"
    unfolding xe by simp_all
  obtain ops where o: "commit_ops demo_engine_env e (tx_id x) (tx_staged x) = Inr ops"
    using c by (cases "commit_ops demo_engine_env e (tx_id x) (tx_staged x)") auto
  obtain r e1 where r: "engine_commit_batch demo_engine_env \<lparr>b_txn_id = tx_id x, b_ops = map fst ops\<rparr> e = (r, e1)" by fastforce
  then obtain ts where ts: "r = Inr ts" "st_last_commit_ts (en_storage e) < st_last_commit_ts (en_storage e1)"
    using c o by (cases r) auto
  show ?thesis unfolding xe
    using own_insert_deleted_panics[OF f o r[unfolded ts(1)] d, where f = "engine_gc demo_engine_env"] ts(2) by auto
qed

section \<open>Reads that miss the snapshot\<close>

definition demo_indexed_engine :: "unit engine" where
  "demo_indexed_engine =
     (let s = demo_collection\<lparr>cs_fields := [(field_def_new ''v'' FInt)\<lparr>fd_indexed := True\<rparr>]\<rparr> in
      demo_engine
        \<lparr>en_storage := (en_storage demo_engine)\<lparr>st_catalog := \<lparr>cat_schemas = [(''C'', s)], cat_schema_version = 1\<rparr>\<rparr>,
         en_indexes := [(''C'', snd (index_rebuild demo_index_env [demo_record 1 1 10] (indexes_from_schema s)))]\<rparr>)"

text \<open>A transaction that staged nothing looks up a record of its snapshot through the index after another client deleted the
  record: the scan finds it, the index does not.\<close>

definition indexed_lookup :: "transaction \<Rightarrow> unit engine \<Rightarrow> record_id list option" where
  "indexed_lookup x e =
     (case txn_view demo_engine_env x ''C'' e of
        Inl _ \<Rightarrow> None
      | Inr overlay \<Rightarrow> Option.bind (view_indexes overlay e ''C'') (\<lambda>ci. lookup_eq demo_index_env ci ''v'' (VInt 10)))"

theorem indexed_read_misses_snapshot:
  "let (x, e) = begin_with_connection None 0 demo_indexed_engine;
       (r, e') = locked (apply_mutation demo_engine_env (Delete ''C'' None)) e
   in overlay_scan (en_storage e) x ''C'' = [demo_record 1 1 10] \<and> indexed_lookup x e = Some [1] \<and>
      overlay_scan (en_storage e') x ''C'' = [demo_record 1 1 10] \<and> indexed_lookup x e' = Some []"
  by code_simp

text \<open>Dropping a collection takes its versions away from the transactions that still read them.\<close>

theorem drop_schema_misses_snapshot:
  "let (x, e) = begin_with_connection None 0 demo_engine;
       (r, e') = locked (engine_drop_schema demo_engine_env ''C'') e
   in r = Inr () \<and> txn_get_visible (en_storage e) x ''C'' 1 = Some (demo_record 1 1 10) \<and>
      txn_get_visible (en_storage e') x ''C'' 1 = None \<and> overlay_scan (en_storage e') x ''C'' = []"
  by code_simp

end
