(* ===== verification/Engine_Types.thy ===== *)
theory Engine_Types
  imports Engine_Isolation
begin

text \<open>
  Schema conformance of the stored data.  \<open>well_typed\<close> says what a schema asks of a document without
  reference to the validation code; the store conforms when every live record does.  Every write
  is validated before it is committed or staged, so that is an invariant of clients that mutate, stage and commit concurrently.
\<close>

section \<open>What a schema asks\<close>

text \<open>A missing or null field must be nullable and not the primary key; any other value has the type of its
  field, integers standing for floats and timestamps; a link is a text, or a list of texts.\<close>

definition field_conforms :: "field_def \<Rightarrow> document \<Rightarrow> bool" where
  "field_conforms f doc \<longleftrightarrow>
     (if om_get doc (fd_name f) \<in> {None, Some VNull} then fd_nullable f \<and> \<not> fd_primary_key f
      else field_type_accepts (fd_field_type f) (the (om_get doc (fd_name f))))"

definition link_conforms :: "relationship_t \<Rightarrow> document \<Rightarrow> bool" where
  "link_conforms rel doc \<longleftrightarrow>
     (\<forall>v. om_get doc (rel_name rel) = Some v \<and> v \<noteq> VNull \<longrightarrow>
        (if rel_cardinality rel = ToOne then Core.is_text v else (\<exists>items. v = VArray items \<and> list_all Core.is_text items)))"

definition well_typed :: "collection_schema \<Rightarrow> document \<Rightarrow> bool" where
  "well_typed s doc \<longleftrightarrow>
     (\<forall>f \<in> set (cs_fields s). field_conforms f doc) \<and> (\<forall>rel \<in> set (cs_relationships s). link_conforms rel doc)"

lemma validate_field_iff: "validate_field doc f = Inr () \<longleftrightarrow> field_conforms f doc"
  by (auto simp: validate_field_def field_conforms_def field_type_validate_def split: option.splits aura_value.splits)

lemma validate_relationship_iff: "validate_relationship doc rel = Inr () \<longleftrightarrow> link_conforms rel doc"
proof (cases "om_get doc (rel_name rel)")
  case (Some v)
  then show ?thesis
    by (cases v; cases "rel_cardinality rel")
      (auto simp: validate_relationship_def link_conforms_def Core.is_text_def check_all_ok list_all_iff)
qed (simp add: validate_relationship_def link_conforms_def)

lemma validate_record_iff: "validate_record s doc = Inr () \<longleftrightarrow> well_typed s doc"
proof (cases "check_all (validate_field doc) (cs_fields s)")
  case (Inl x)
  then have "\<not> (\<forall>f \<in> set (cs_fields s). field_conforms f doc)"
    using check_all_ok[of "validate_field doc" "cs_fields s"] by (simp add: validate_field_iff)
  then show ?thesis using Inl unfolding validate_record_def well_typed_def by simp
next
  case (Inr u)
  then have "\<forall>f \<in> set (cs_fields s). field_conforms f doc"
    using check_all_ok[of "validate_field doc" "cs_fields s"] by (simp add: validate_field_iff)
  then show ?thesis by (simp add: validate_record_def well_typed_def Inr)
      (simp add: check_all_ok validate_relationship_iff)
qed

section \<open>Conforming stores and transactions\<close>

definition conforms :: "storage \<Rightarrow> string \<Rightarrow> document \<Rightarrow> bool" where
  "conforms st c doc \<longleftrightarrow> (\<forall>s. get_schema st c = Some s \<longrightarrow> well_typed s doc)"

definition typed_store :: "storage \<Rightarrow> bool" where
  "typed_store st \<longleftrightarrow> (\<forall>c i r. storage_get st c i = Some r \<longrightarrow> conforms st c (rec_fields r))"

definition typed_txn :: "storage \<Rightarrow> transaction \<Rightarrow> bool" where
  "typed_txn st x \<longleftrightarrow> (\<forall>k r. staged x k = Some (StagedPut r) \<longrightarrow> conforms st (fst k) (rec_fields r))"

definition typed_ops :: "storage \<Rightarrow> log_op list \<Rightarrow> bool" where
  "typed_ops st ops \<longleftrightarrow> (\<forall>ts r. OpPut ts r \<in> set ops \<longrightarrow> conforms st (rec_collection r) (rec_fields r))"

text \<open>A storage step that keeps a well-formed, conforming store so, with its schemas.\<close>

definition keeps_typed :: "storage \<Rightarrow> storage \<Rightarrow> bool" where
  "keeps_typed st st' \<longleftrightarrow>
     (store_wf st \<and> typed_store st \<longrightarrow> store_wf st' \<and> typed_store st' \<and> st_catalog st' = st_catalog st)"

lemma conforms_catalog: "st_catalog st' = st_catalog st \<Longrightarrow> conforms st' c doc = conforms st c doc"
  by (simp add: conforms_def get_schema_def)

lemma keeps_typed_refl [simp]: "keeps_typed st st"
  by (simp add: keeps_typed_def)

lemma keeps_typed_trans: "keeps_typed st st' \<Longrightarrow> keeps_typed st' st'' \<Longrightarrow> keeps_typed st st''"
  by (simp add: keeps_typed_def)

lemma keeps_typedI:
  assumes "keeps_snapshot 0 st st'" "st_catalog st' = st_catalog st"
    "\<And>c i r. store_wf st \<Longrightarrow> storage_get st' c i = Some r \<Longrightarrow> storage_get st c i = Some r \<or> conforms st c (rec_fields r)"
  shows "keeps_typed st st'"
  unfolding keeps_typed_def
proof (intro impI conjI)
  assume st: "store_wf st \<and> typed_store st"
  show "store_wf st'" using assms(1) st by (simp add: keeps_snapshot_def)
  show "typed_store st'" unfolding typed_store_def
  proof (intro allI impI)
    fix c i r
    assume "storage_get st' c i = Some r"
    then show "conforms st' c (rec_fields r)"
      using assms(3)[of c i r] st conforms_catalog[OF assms(2)] unfolding typed_store_def by blast
  qed
qed (rule assms(2))

lemma last_write_put:
  assumes "last_write ops (c, i) = Some (Some r)"
  shows "\<exists>ts. OpPut ts r \<in> set ops \<and> rec_collection r = c"
proof -
  let ?w = "filter (\<lambda>op. op_key op = (c, i)) ops"
  have "?w \<noteq> []" "op_value (last ?w) = Some r" using assms by (auto simp: last_write_def Let_def split: if_splits)
  moreover from this have "last ?w \<in> set ?w" by (intro last_in_set)
  ultimately show ?thesis by (cases "last ?w") (auto simp: op_value_def op_key_def)
qed

lemma append_typed:
  assumes "append_batch c b ts st = (r, st')" "st_last_commit_ts st < ts" "typed_ops st (b_ops b)"
  shows "keeps_typed st st'"
proof (rule keeps_typedI[OF keeps_append[OF assms(1,2)] append_batch_mem(2)[OF assms(1)]])
  fix col i rec
  assume wf: "store_wf st" and g: "storage_get st' col i = Some rec"
  show "storage_get st col i = Some rec \<or> conforms st col (rec_fields rec)"
  proof (cases "r = Inr ()")
    case True
    then have "chain_of (st_records st') col i = (case last_write (b_ops b) (col, i) of None \<Rightarrow> chain_of (st_records st) col i
        | Some w \<Rightarrow> chain_of (st_records st) col i @ [\<lparr>v_commit_ts = ts, v_value = w\<rparr>])"
      using append_chain assms(1,2) wf by blast
    then show ?thesis using g assms(3)
      by (auto simp: gets_chain_of latest_value_def chain_latest_def typed_ops_def split: option.splits dest!: last_write_put)
  next
    case False
    then show ?thesis using g append_batch_mem(5)[OF assms(1)] by (simp add: gets_chain_of)
  qed
qed

lemma commit_batch_typed: "commit_batch c b st = (r, st') \<Longrightarrow> typed_ops st (b_ops b) \<Longrightarrow> keeps_typed st st'"
  using append_typed[of c b "st_last_commit_ts st + 1" st]
  by (auto simp: commit_batch_def Let_def split: if_splits prod.splits sum.splits)

lemma apply_committed_typed:
  "apply_committed_batch c b ts st = (r, st') \<Longrightarrow> typed_ops st (b_ops b) \<Longrightarrow> keeps_typed st st'"
  using append_typed[of c b ts st r st'] keeps_advance[of st ts 0]
  by (auto simp: apply_committed_batch_def gets_chain_of split: if_splits intro!: keeps_typedI)

lemma engine_commit_typed:
  assumes "engine_commit_batch V b e = (r, e')" "typed_ops (en_storage e) (b_ops b)"
  shows "keeps_typed (en_storage e) (en_storage e')"
  using assms
  by (auto simp: engine_commit_batch_def on_storage_def en_bind_def en_return_def split: option.splits prod.splits sum.splits
      dest!: commit_batch_typed apply_committed_typed)

section \<open>Mutations\<close>

lemma prepare_writes_typed:
  assumes "prepare_writes V s c mode t docs ps pend e = (Inr ps', e')" "(old, r) \<in> set ps'"
  shows "(old, r) \<in> set ps \<or> rec_collection r = c \<and> well_typed s (rec_fields r)"
  using assms
proof (induction docs arbitrary: ps pend e)
  case (Cons doc docs)
  obtain n e1 where n: "next_id e = (n, e1)" by fastforce
  obtain x new pend' where w: "validate_record s doc = Inr ()" "check_write V e1 s c mode t doc pend n = Inr (x, new, pend')"
      "prepare_writes V s c mode t docs (ps @ [(x, new)]) pend' e1 = (Inr ps', e')"
    using Cons.prems(1) n by (auto split: sum.splits)
  have "rec_collection new = c \<and> rec_fields new = doc"
    using w(2) by (auto simp: check_write_def Let_def split: sum.splits if_splits option.splits)
  then show ?case using Cons.IH[OF w(3) Cons.prems(2)] w(1) by (auto simp: validate_record_iff)
qed simp

lemma prepare_updates_typed:
  "prepare_updates V e s c fs t olds = Inr ps \<Longrightarrow> (old, r) \<in> set ps \<Longrightarrow> rec_collection r = c \<and> well_typed s (rec_fields r)"
  by (induction olds arbitrary: ps) (auto simp: Let_def validate_record_iff split: sum.splits option.splits)

text \<open>The common end of the three writes: commit, bring the index up to date, report.\<close>

lemma write_typed:
  assumes "en_bind (engine_commit_batch V b) (\<lambda>_. en_bind (update_index V c ds) (\<lambda>_. en_return res)) e = (r, e')"
    "typed_ops (en_storage e) (b_ops b)"
  shows "keeps_typed (en_storage e) (en_storage e')"
  using assms engine_commit_typed[OF _ assms(2)]
  by (auto simp: en_bind_def en_return_def split: prod.splits sum.splits dest!: update_index_storage)

lemma write_records_typed:
  assumes "write_records V c docs mode t e = (r, e')"
  shows "keeps_typed (en_storage e) (en_storage e')"
proof (cases "get_schema (en_storage e) c")
  case (Some s)
  obtain p e1 where p: "prepare_writes V s c mode t docs [] {} e = (p, e1)" by fastforce
  note same = prepare_writes_storage[OF p]
  show ?thesis
  proof (cases p)
    case (Inr ps)
    have "typed_ops (en_storage e1) (map (\<lambda>(_, r). OpPut 0 r) ps)"
      using prepare_writes_typed[of V s c mode t docs "[]" "{}" e ps e1] p Inr Some same
      by (auto simp: typed_ops_def conforms_def) 
    then show ?thesis using assms p Inr Some same write_typed[of V _ c _ _ e1 r e']
      by (auto simp: write_records_def schema_for_def en_bind_def[of "prepare_writes _ _ _ _ _ _ _ _"])
  qed (use assms p Some same in \<open>auto simp: write_records_def schema_for_def en_bind_def\<close>)
qed (use assms in \<open>auto simp: write_records_def schema_for_def\<close>)

lemma update_records_typed:
  assumes "update_records V c flt fs t e = (r, e')"
  shows "keeps_typed (en_storage e) (en_storage e')"
proof (cases "get_schema (en_storage e) c")
  case (Some s)
  have "typed_ops (en_storage e) (map (\<lambda>(_, r). OpPut 0 r) ps)" if "prepare_updates V e s c fs t olds = Inr ps" for olds ps
    using prepare_updates_typed[OF that] Some by (auto simp: typed_ops_def conforms_def)
  then show ?thesis using assms Some
    by (auto simp: update_records_def schema_for_def split: if_splits sum.splits dest!: write_typed)
qed (use assms in \<open>auto simp: update_records_def schema_for_def\<close>)

lemma delete_records_typed:
  assumes "delete_records V c flt t e = (r, e')"
  shows "keeps_typed (en_storage e) (en_storage e')"
proof -
  have "typed_ops (en_storage e) (map (\<lambda>r. OpDelete 0 c (rec_id r)) rs)" for rs by (auto simp: typed_ops_def)
  then show ?thesis using assms
    by (auto simp: delete_records_def Let_def split: if_splits sum.splits dest!: write_typed)
qed

lemma apply_mutation_typed: "apply_mutation V m e = (r, e') \<Longrightarrow> keeps_typed (en_storage e) (en_storage e')"
  by (cases m) (auto simp: apply_mutation_def en_bind_def split: prod.splits sum.splits
      dest!: write_records_typed update_records_typed delete_records_typed)

section \<open>Transactions\<close>

lemma typed_stage_put: "typed_txn st x \<Longrightarrow> conforms st (rec_collection r) (rec_fields r) \<Longrightarrow> typed_txn st (stage_put r v x)"
  by (auto simp: typed_txn_def stage_put_def observe_def staged_def Let_def split: if_splits)

lemma typed_stage_delete: "typed_txn st x \<Longrightarrow> typed_txn st (stage_delete c i v x)"
  by (auto simp: typed_txn_def stage_delete_def observe_def staged_def Let_def split: if_splits)

lemma typed_deletes: "typed_txn st x \<Longrightarrow> typed_txn st (stage_deletes c olds x)"
  unfolding stage_deletes_def by (induction olds arbitrary: x) (simp_all add: typed_stage_delete)

lemma typed_document:
  assumes "stage_document V s c doc bulk res x e = (r, x', e')" "typed_txn st x" "get_schema st c = Some s"
  shows "typed_txn st x'"
proof (cases "validate_record s doc")
  case (Inr u)
  then have "typed_txn st (stage_put (staged_record x c i doc) v x)" for i v
    using assms(2,3) by (intro typed_stage_put) (simp_all add: staged_record_def conforms_def validate_record_iff)
  then show ?thesis using assms(1,2) Inr by (auto simp: stage_document_def Let_def split: sum.splits prod.splits)
qed (use assms in \<open>simp add: stage_document_def\<close>)

lemma typed_documents:
  assumes "stage_documents V s c docs res x e = (r, x', e')" "typed_txn st x" "get_schema st c = Some s"
  shows "typed_txn st x'"
  using assms(1,2)
proof (induction docs arbitrary: res x e)
  case (Cons doc docs)
  obtain r1 x1 e1 where 1: "stage_document V s c doc True res x e = (r1, x1, e1)" by (metis prod_cases3)
  then show ?case using Cons typed_document[OF 1 Cons.prems(2) assms(3)] by (cases r1) auto
qed simp

lemma typed_updates:
  assumes "stage_updates V s c fs olds res x e = (r, x', e')" "typed_txn st x" "get_schema st c = Some s"
  shows "typed_txn st x'"
  using assms(1,2)
proof (induction olds arbitrary: res x)
  case (Cons old olds)
  let ?doc = "set_fields (rec_fields old) fs"
  show ?case
  proof (cases "validate_record s ?doc")
    case (Inr u)
    then have "typed_txn st (stage_put (staged_record x c i ?doc) v x)" for i v
      using Cons.prems(2) assms(3) by (intro typed_stage_put) (simp_all add: staged_record_def conforms_def validate_record_iff)
    then show ?thesis using Cons.prems Inr
      by (cases "referential_check V e s ?doc") (auto simp: Let_def dest!: Cons.IH)
  qed (use Cons.prems in simp)
qed simp

lemma typed_stage:
  assumes "stage V now m x e = (r, x', e')" "typed_txn (en_storage e) x"
  shows "typed_txn (en_storage e) x'"
proof -
  obtain r1 e1 where 1: "touch_txn (tx_id x) now e = (r1, e1)" by fastforce
  have e1: "en_storage e1 = en_storage e" using 1 by (auto simp: touch_txn_def split: option.splits txn_state.splits)
  have "x' = x \<or> stage_mutation V m x e1 = (r, x', e')" using assms 1 by (auto simp: stage_def split: sum.splits)
  moreover have "typed_txn (en_storage e) x'" if "stage_mutation V m x e1 = (r, x', e')"
  proof (cases "get_schema (en_storage e) (mutation_collection m)")
    case (Some s)
    then show ?thesis using that assms(2) e1 by (cases m) (auto simp: stage_mutation_def schema_for_def Let_def
      dest: typed_document typed_documents typed_updates intro: typed_deletes)
  qed (use that assms(2) e1 in \<open>simp add: stage_mutation_def schema_for_def Let_def\<close>)
  ultimately show ?thesis using assms(2) by auto
qed

lemma commit_ops_from: "commit_ops V e t ps = Inr ops \<Longrightarrow> op \<in> set ops \<Longrightarrow> \<exists>p \<in> set ps. commit_op V e t p = Inr op"
  by (induction ps arbitrary: ops) (auto split: sum.splits)

lemma commit_op_put:
  "commit_op V e t p = Inr (OpPut ts r, d) \<Longrightarrow>
   \<exists>r0. snd p = StagedPut r0 \<and> rec_collection r = rec_collection r0 \<and> rec_fields r = rec_fields r0"
  by (auto simp: commit_op_def Let_def split: prod.splits staged_op.splits sum.splits option.splits)

lemma commit_ops_typed:
  assumes "txn_wf x" "typed_txn st x" "commit_ops V e t (tx_staged x) = Inr ops"
  shows "typed_ops st (map fst ops)"
  unfolding typed_ops_def
proof (intro allI impI)
  fix ts r
  assume "OpPut ts r \<in> set (map fst ops)"
  then obtain d where "(OpPut ts r, d) \<in> set ops" by auto
  from commit_ops_from[OF assms(3) this] obtain k s where
    p: "(k, s) \<in> set (tx_staged x)" "commit_op V e t (k, s) = Inr (OpPut ts r, d)" by auto
  obtain r0 where r0: "s = StagedPut r0" "rec_collection r = rec_collection r0" "rec_fields r = rec_fields r0"
    using commit_op_put[OF p(2)] by auto
  have "staged x k = Some (StagedPut r0)"
    using p(1) r0(1) om_wf_distinct[of "tx_staged x"] assms(1) by (simp add: staged_def om_get_def txn_wf_def)
  then show "conforms st (rec_collection r) (rec_fields r)"
    using assms(1,2) r0 unfolding typed_txn_def txn_wf_def by fastforce
qed

lemma commit_typed:
  assumes "commit V x e = (r, e')" "txn_wf x" "typed_txn (en_storage e) x"
  shows "keeps_typed (en_storage e) (en_storage e')"
proof -
  obtain r1 e1 where t: "commit_transaction V x e = (r1, e1)" by fastforce
  have "keeps_typed (en_storage e) (en_storage e2)"
    if "commit_ops V e (tx_id x) (tx_staged x) = Inr ops"
      "engine_commit_batch V \<lparr>b_txn_id = tx_id x, b_ops = map fst ops\<rparr> e = (r2, e2)" for ops r2 e2
    using engine_commit_typed[OF that(2)] commit_ops_typed[OF assms(2,3) that(1)] by simp
  then have "keeps_typed (en_storage e) (en_storage e1)" using t
    by (auto simp: commit_transaction_def en_bind_def split: if_splits sum.splits prod.splits dest!: apply_deltas_storage)
  then show ?thesis using assms(1) t by (auto simp: commit_def split: if_splits sum.splits fault.splits)
qed

lemma gc_typed:
  assumes "engine_gc V e = (r, e')"
  shows "keeps_typed (en_storage e) (en_storage e')"
proof -
  let ?st = "en_storage e"
  obtain r1 st where g: "storage_gc (ev_store V) (gc_cutoff e) (en_gc_min_retained_versions e) ?st = (r1, st)" by fastforce
  note mem = storage_gc_mem[OF g]
  have cat: "st_catalog st = st_catalog ?st"
    using g by (auto simp: storage_gc_def rewrite_segment_def Let_def split: prod.splits sum.splits)
  have get: "storage_get st c i = storage_get ?st c i" if "store_wf ?st" for c i
    using mem that chain_of_gc[of "st_records ?st"] by (auto simp: gets_chain_of store_wf_def gc_chain_latest)
  have "store_wf st" if "store_wf ?st" using mem that rec_wf_gc by (auto simp: store_wf_def)
  then have "keeps_typed ?st st" using get conforms_catalog[OF cat] cat by (auto simp: keeps_typed_def typed_store_def)
  then show ?thesis using assms g by (auto simp: engine_gc_def on_storage_def)
qed

lemma locked_typed:
  assumes "locked f e = (r, e')" "\<And>r e'. f e = (r, e') \<Longrightarrow> keeps_typed (en_storage e) (en_storage e')"
  shows "keeps_typed (en_storage e) (en_storage e')"
  using assms by (auto simp: locked_def split: if_splits prod.splits sum.splits fault.splits)

section \<open>Concurrent clients\<close>

text \<open>Clients that write directly or through transactions, any number of them open at once, with garbage
  collection in between; the schemas stay.\<close>

inductive client_step ::
  "('n, 'l) engine_env \<Rightarrow> 'l engine \<times> transaction set \<Rightarrow> 'l engine \<times> transaction set \<Rightarrow> bool" for V where
  client_mutate: "locked (apply_mutation V m) e = (r, e') \<Longrightarrow> client_step V (e, xs) (e', xs)"
| client_begin: "begin_with_connection conn now e = (x, e') \<Longrightarrow> client_step V (e, xs) (e', insert x xs)"
| client_stage: "x \<in> xs \<Longrightarrow> stage V now m x e = (r, x', e') \<Longrightarrow> client_step V (e, xs) (e', insert x' (xs - {x}))"
| client_commit: "x \<in> xs \<Longrightarrow> locked (commit V x) e = (r, e') \<Longrightarrow> client_step V (e, xs) (e', xs - {x})"
| client_rollback: "x \<in> xs \<Longrightarrow> client_step V (e, xs) (rollback x e, xs - {x})"
| client_gc: "locked (engine_gc V) e = (r, e') \<Longrightarrow> client_step V (e, xs) (e', xs)"

inductive_cases client_stepE: "client_step V p q"

definition clients_typed :: "catalog \<Rightarrow> 'l engine \<times> transaction set \<Rightarrow> bool" where
  "clients_typed cat p \<longleftrightarrow>
     (let st = en_storage (fst p) in store_wf st \<and> typed_store st \<and> st_catalog st = cat \<and>
      (\<forall>x \<in> snd p. txn_wf x \<and> typed_txn st x))"

lemma typed_txn_catalog: "st_catalog st' = st_catalog st \<Longrightarrow> typed_txn st' x = typed_txn st x"
  unfolding typed_txn_def by (simp only: conforms_catalog[of st' st])

lemma clients_storage:
  assumes "clients_typed cat (e, xs)" "keeps_typed (en_storage e) (en_storage e')" "ys \<subseteq> xs"
  shows "clients_typed cat (e', ys)"
proof -
  have "store_wf (en_storage e')" "typed_store (en_storage e')" "st_catalog (en_storage e') = st_catalog (en_storage e)"
    using assms(1,2) by (auto simp: clients_typed_def keeps_typed_def Let_def)
  moreover from this(3) have "typed_txn (en_storage e') x = typed_txn (en_storage e) x" for x by (rule typed_txn_catalog)
  ultimately show ?thesis using assms(1,3) by (auto simp: clients_typed_def Let_def)
qed

lemma clients_insert:
  "clients_typed cat (e, xs) \<Longrightarrow> txn_wf x \<Longrightarrow> typed_txn (en_storage e) x \<Longrightarrow> clients_typed cat (e, insert x xs)"
  by (simp add: clients_typed_def Let_def)

lemma client_step_typed: "client_step V p q \<Longrightarrow> clients_typed cat p \<Longrightarrow> clients_typed cat q"
proof (induction rule: client_step.induct)
  case (client_begin conn now e x e' xs)
  have "clients_typed cat (e', xs)" using clients_storage[OF client_begin.prems, of e' xs] begin_storage[OF client_begin.hyps] by simp
  then show ?case using begin_txn[OF client_begin.hyps] by (intro clients_insert) (auto simp: typed_txn_def staged_def txn_wf_def)
next
  case (client_stage x xs now m e r x' e')
  have "clients_typed cat (e', xs - {x})"
    using clients_storage[OF client_stage.prems, of e' "xs - {x}"] stage_storage[OF client_stage.hyps(2)] by auto
  moreover have "txn_wf x'" "typed_txn (en_storage e') x'"
    using client_stage.prems client_stage.hyps(1) follows_stage[OF client_stage.hyps(2)] typed_stage[OF client_stage.hyps(2)]
      stage_storage[OF client_stage.hyps(2)]
    by (auto simp: clients_typed_def Let_def txn_follows_def)
  ultimately show ?case by (intro clients_insert)
next
  case (client_commit x xs e r e')
  then have "txn_wf x" "typed_txn (en_storage e) x" by (auto simp: clients_typed_def Let_def)
  then show ?case
    using clients_storage[OF client_commit.prems locked_typed[OF client_commit.hyps(2)], of "xs - {x}"] commit_typed by blast
next
  case (client_rollback x xs e)
  then show ?case using clients_storage[of cat e xs "rollback x e" "xs - {x}"] by (auto simp: rollback_def)
next
  case (client_mutate m e r e' xs)
  show ?case
    by (rule clients_storage[OF client_mutate.prems locked_typed[OF client_mutate.hyps]]) (auto dest: apply_mutation_typed)
next
  case (client_gc e r e' xs)
  show ?case by (rule clients_storage[OF client_gc.prems locked_typed[OF client_gc.hyps]]) (auto dest: gc_typed)
qed

lemma client_steps_typed: "(client_step V)\<^sup>*\<^sup>* p q \<Longrightarrow> clients_typed cat p \<Longrightarrow> clients_typed cat q"
  by (induction rule: rtranclp_induct) (auto intro: client_step_typed)

text \<open>C35. Stored data conforms to its schema.  Start from a store whose live records conform, and let clients mutate,
  stage, commit, roll back and collect garbage in any interleaving, on a single node or a cluster leader, with
  failing disks and failing operations: every live record still has, for each field and link of the schema of its collection, a value of the
  declared type, or none where the field is nullable and not the key.\<close>

theorem stored_records_typed:
  assumes "(client_step V)\<^sup>*\<^sup>* (e, {}) (e', xs)" "store_wf (en_storage e)"
    "\<And>c i r s. storage_get (en_storage e) c i = Some r \<Longrightarrow> get_schema (en_storage e) c = Some s \<Longrightarrow> well_typed s (rec_fields r)"
    "storage_get (en_storage e') c i = Some r"
  shows "get_schema (en_storage e') c = get_schema (en_storage e) c \<and>
    (\<forall>s. get_schema (en_storage e) c = Some s \<longrightarrow> well_typed s (rec_fields r))"
proof -
  let ?cat = "st_catalog (en_storage e)"
  have "clients_typed ?cat (e, {})" using assms(2,3) by (simp add: clients_typed_def typed_store_def conforms_def)
  from client_steps_typed[OF assms(1) this] have "clients_typed ?cat (e', xs)" .
  then have t: "typed_store (en_storage e')" "st_catalog (en_storage e') = ?cat" by (auto simp: clients_typed_def Let_def)
  then show ?thesis using assms(4) unfolding typed_store_def conforms_def get_schema_def by auto
qed

lemma demo_engine_typed:
  assumes "storage_get (en_storage demo_engine) c i = Some r" "get_schema (en_storage demo_engine) c = Some s"
  shows "well_typed s (rec_fields r)"
proof -
  have s: "c = ''C''" "s = demo_collection"
    using assms(2) by (auto simp: get_schema_def demo_engine_def om_get_def split: if_splits)
  have rec: "st_records (en_storage demo_engine) = [(''C'', [(1, [\<lparr>v_commit_ts = 1, v_value = Some (demo_record 1 1 10)\<rparr>])])]"
    by code_simp
  have r: "r = demo_record 1 1 10"
    using assms(1) s(1) by (auto simp: storage_get_def rec chain_get_def om_get_def chain_latest_def split: if_splits)
  have "validate_record s (rec_fields r) = Inr ()" unfolding s(2) r by code_simp
  then show ?thesis by (simp add: validate_record_iff)
qed

theorem stored_records_typed_witness:
  "let (r, e) = locked (apply_mutation demo_engine_env (Update ''C'' None [(''v'', VBool True)])) demo_engine;
       (r', e') = locked (apply_mutation demo_engine_env (Update ''C'' None [(''v'', VInt 30)])) e
   in r = Inl (Err ESchemaViolation) \<and> get_schema (en_storage e') ''C'' = Some demo_collection \<and>
      (\<exists>x. storage_get (en_storage e') ''C'' 1 = Some x \<and> om_get (rec_fields x) ''v'' = Some (VInt 30) \<and>
         well_typed demo_collection (rec_fields x))"
proof -
  let ?m = "Update ''C'' None [(''v'', VBool True)]" and ?n = "Update ''C'' None [(''v'', VInt 30)]"
  obtain r e where m: "locked (apply_mutation demo_engine_env ?m) demo_engine = (r, e)" by fastforce
  obtain r' e' where n: "locked (apply_mutation demo_engine_env ?n) e = (r', e')" by fastforce
  have "(case locked (apply_mutation demo_engine_env ?m) demo_engine of (r, e) \<Rightarrow>
      case locked (apply_mutation demo_engine_env ?n) e of (r', e') \<Rightarrow>
        r = Inl (Err ESchemaViolation) \<and> map_option rec_fields (storage_get (en_storage e') ''C'' 1) = Some [(''v'', VInt 30)])"
    by code_simp
  then obtain x where x: "r = Inl (Err ESchemaViolation)" "storage_get (en_storage e') ''C'' 1 = Some x"
      "rec_fields x = [(''v'', VInt 30)]"
    using m n by auto
  have "(client_step demo_engine_env)\<^sup>*\<^sup>* (demo_engine, {}) (e', {})"
    using client_mutate[OF m, of "{}"] client_mutate[OF n, of "{}"] by (meson rtranclp.simps)
  from stored_records_typed[OF this demo_engine_wf demo_engine_typed x(2)]
  have "get_schema (en_storage e') ''C'' = get_schema (en_storage demo_engine) ''C'' \<and>
    (\<forall>s. get_schema (en_storage demo_engine) ''C'' = Some s \<longrightarrow> well_typed s (rec_fields x))" .
  moreover have "get_schema (en_storage demo_engine) ''C'' = Some demo_collection"
    by (simp add: get_schema_def demo_engine_def om_get_def)
  ultimately show ?thesis using x by (simp add: m n om_get_def)
qed

end
