(* ===== verification/Rust_Arith.thy ===== *)
theory Rust_Arith
  imports Rust_Float
begin

unbundle bit_operations_syntax

text \<open>
  Arithmetic on \<open>f32\<close> and \<open>f64\<close> bit patterns, rounded to nearest, ties to even.  Sums and products of two finite
  numbers are exact as an integer times a power of two before they are rounded; a quotient or a root is cut off far
  below the last place and its last bit made odd when something was cut off, so that rounding sees on which side of a tie it
  lies.  Every invalid operation gives the quiet NaN; Rust leaves the payload of a NaN open.
\<close>

section \<open>Single precision\<close>

definition f32_nan :: f32 where
  "f32_nan = 0x7FC00000"

definition f32_inf :: f32 where
  "f32_inf = 0x7F800000"

definition f32_neg :: "f32 \<Rightarrow> f32" where
  "f32_neg b = b XOR 0x80000000"

definition f32_abs :: "f32 \<Rightarrow> f32" where
  "f32_abs b = b AND 0x7FFFFFFF"

definition f32_make :: "bool \<Rightarrow> int \<Rightarrow> int \<Rightarrow> f32" where
  "f32_make neg m e = (if neg then 0x80000000 else 0) OR word_of_int (encode_float 23 127 m e)"

definition f32_add :: "f32 \<Rightarrow> f32 \<Rightarrow> f32" where
  "f32_add a b =
     (if f32_is_nan a \<or> f32_is_nan b then f32_nan
      else if \<not> f32_is_finite a then (if \<not> f32_is_finite b \<and> bit a 31 \<noteq> bit b 31 then f32_nan else a)
      else if \<not> f32_is_finite b then b
      else
        (let (ma, ea) = f32_parts a; (mb, eb) = f32_parts b; e = min ea eb;
             v = (if bit a 31 then -1 else 1) * push_bit (nat (ea - e)) ma + (if bit b 31 then -1 else 1) * push_bit (nat (eb - e)) mb
         in if v = 0 then f32_make (bit a 31 \<and> bit b 31) 0 0 else f32_make (v < 0) \<bar>v\<bar> e))"

definition f32_sub :: "f32 \<Rightarrow> f32 \<Rightarrow> f32" where
  "f32_sub a b = f32_add a (f32_neg b)"

definition f32_mul :: "f32 \<Rightarrow> f32 \<Rightarrow> f32" where
  "f32_mul a b =
     (let neg = (bit a 31 \<noteq> bit b 31) in
      if f32_is_nan a \<or> f32_is_nan b then f32_nan
      else if \<not> f32_is_finite a \<or> \<not> f32_is_finite b
      then (if f32_abs a = 0 \<or> f32_abs b = 0 then f32_nan else if neg then f32_neg f32_inf else f32_inf)
      else (let (ma, ea) = f32_parts a; (mb, eb) = f32_parts b in f32_make neg (ma * mb) (ea + eb)))"

definition f32_div :: "f32 \<Rightarrow> f32 \<Rightarrow> f32" where
  "f32_div a b =
     (let neg = (bit a 31 \<noteq> bit b 31) in
      if f32_is_nan a \<or> f32_is_nan b then f32_nan
      else if \<not> f32_is_finite a
      then (if \<not> f32_is_finite b then f32_nan else if neg then f32_neg f32_inf else f32_inf)
      else if \<not> f32_is_finite b then f32_make neg 0 0
      else if f32_abs b = 0 then (if f32_abs a = 0 then f32_nan else if neg then f32_neg f32_inf else f32_inf)
      else
        (let (ma, ea) = f32_parts a; (mb, eb) = f32_parts b; n = push_bit 64 ma; q = n div mb
         in f32_make neg (2 * q + (if n mod mb = 0 then 0 else 1)) (ea - eb - 65)))"

text \<open>The integer square root.\<close>

function isqrt :: "int \<Rightarrow> int" where
  "isqrt n = (if n \<le> 0 then 0 else (let r = 2 * isqrt (n div 4) in if (r + 1) * (r + 1) \<le> n then r + 1 else r))"
  by pat_completeness auto
termination
  by (relation "measure nat") auto

declare isqrt.simps [simp del]

definition f32_sqrt :: "f32 \<Rightarrow> f32" where
  "f32_sqrt a =
     (if f32_is_nan a then f32_nan
      else if f32_abs a = 0 then a
      else if bit a 31 then f32_nan
      else if \<not> f32_is_finite a then a
      else
        (let (m, e) = f32_parts a; (m, e) = (if even e then (m, e) else (2 * m, e - 1)); n = push_bit 64 m; s = isqrt n
         in f32_make False (2 * s + (if s * s = n then 0 else 1)) (e div 2 - 33)))"

text \<open>\<open>n as f32\<close> of an unsigned integer.\<close>

definition f32_of_nat :: "nat \<Rightarrow> f32" where
  "f32_of_nat n = f32_make False (int n) 0"

definition f32_lt :: "f32 \<Rightarrow> f32 \<Rightarrow> bool" where
  "f32_lt a b = (f32_partial_cmp a b = Some Less)"

definition f32_max :: "f32 \<Rightarrow> f32 \<Rightarrow> f32" where
  "f32_max a b = (if f32_is_nan a then b else if f32_lt a b then b else a)"

definition f32_min :: "f32 \<Rightarrow> f32 \<Rightarrow> f32" where
  "f32_min a b = (if f32_is_nan a then b else if f32_lt b a then b else a)"

text \<open>\<open>total_cmp\<close> compares the patterns as sign-magnitude integers, negative zero below zero.\<close>

definition f32_total_key :: "f32 \<Rightarrow> int" where
  "f32_total_key b = (let m = uint (b AND 0x7FFFFFFF) in if bit b 31 then - m - 1 else m)"

definition f32_total_cmp :: "f32 \<Rightarrow> f32 \<Rightarrow> cmp_ordering" where
  "f32_total_cmp a b = cmp_of (f32_total_key a) (f32_total_key b)"

text \<open>\<open>iter().sum::<f32>()\<close> starts at negative zero.\<close>

definition f32_sum :: "f32 list \<Rightarrow> f32" where
  "f32_sum xs = foldl f32_add 0x80000000 xs"

section \<open>Double precision\<close>

definition f64_nan :: f64 where
  "f64_nan = 0x7FF8000000000000"

definition f64_inf :: f64 where
  "f64_inf = 0x7FF0000000000000"

definition f64_neg :: "f64 \<Rightarrow> f64" where
  "f64_neg b = b XOR 0x8000000000000000"

definition f64_abs :: "f64 \<Rightarrow> f64" where
  "f64_abs b = b AND 0x7FFFFFFFFFFFFFFF"

definition f64_make :: "bool \<Rightarrow> int \<Rightarrow> int \<Rightarrow> f64" where
  "f64_make neg m e = (if neg then 0x8000000000000000 else 0) OR word_of_int (encode_float 52 1023 m e)"

definition f64_add :: "f64 \<Rightarrow> f64 \<Rightarrow> f64" where
  "f64_add a b =
     (if f64_is_nan a \<or> f64_is_nan b then f64_nan
      else if \<not> f64_is_finite a then (if \<not> f64_is_finite b \<and> bit a 63 \<noteq> bit b 63 then f64_nan else a)
      else if \<not> f64_is_finite b then b
      else
        (let (ma, ea) = f64_parts a; (mb, eb) = f64_parts b; e = min ea eb;
             v = (if bit a 63 then -1 else 1) * push_bit (nat (ea - e)) ma + (if bit b 63 then -1 else 1) * push_bit (nat (eb - e)) mb
         in if v = 0 then f64_make (bit a 63 \<and> bit b 63) 0 0 else f64_make (v < 0) \<bar>v\<bar> e))"

definition f64_mul :: "f64 \<Rightarrow> f64 \<Rightarrow> f64" where
  "f64_mul a b =
     (let neg = (bit a 63 \<noteq> bit b 63) in
      if f64_is_nan a \<or> f64_is_nan b then f64_nan
      else if \<not> f64_is_finite a \<or> \<not> f64_is_finite b
      then (if f64_abs a = 0 \<or> f64_abs b = 0 then f64_nan else if neg then f64_neg f64_inf else f64_inf)
      else (let (ma, ea) = f64_parts a; (mb, eb) = f64_parts b in f64_make neg (ma * mb) (ea + eb)))"

definition f64_div :: "f64 \<Rightarrow> f64 \<Rightarrow> f64" where
  "f64_div a b =
     (let neg = (bit a 63 \<noteq> bit b 63) in
      if f64_is_nan a \<or> f64_is_nan b then f64_nan
      else if \<not> f64_is_finite a
      then (if \<not> f64_is_finite b then f64_nan else if neg then f64_neg f64_inf else f64_inf)
      else if \<not> f64_is_finite b then f64_make neg 0 0
      else if f64_abs b = 0 then (if f64_abs a = 0 then f64_nan else if neg then f64_neg f64_inf else f64_inf)
      else
        (let (ma, ea) = f64_parts a; (mb, eb) = f64_parts b; n = push_bit 128 ma; q = n div mb
         in f64_make neg (2 * q + (if n mod mb = 0 then 0 else 1)) (ea - eb - 129)))"

definition f64_of_nat :: "nat \<Rightarrow> f64" where
  "f64_of_nat n = f64_make False (int n) 0"

definition f64_max :: "f64 \<Rightarrow> f64 \<Rightarrow> f64" where
  "f64_max a b = (if f64_is_nan a then b else if f64_partial_cmp a b = Some Less then b else a)"

text \<open>\<open>x.ceil() as usize\<close> and \<open>x.floor() as usize\<close>: a NaN or a negative number gives 0, a large one the largest \<open>usize\<close>.\<close>

definition f64_to_usize :: "(int \<Rightarrow> nat \<Rightarrow> int) \<Rightarrow> f64 \<Rightarrow> nat" where
  "f64_to_usize rnd b =
     (if f64_is_nan b \<or> bit b 63 then 0
      else if \<not> f64_is_finite b then unat (- 1 :: u64)
      else
        (let (m, e) = f64_parts b;
             v = (if 0 \<le> e then push_bit (nat e) m else rnd m (nat (- e)))
         in nat (min v 0xFFFFFFFFFFFFFFFF)))"

definition f64_ceil_usize :: "f64 \<Rightarrow> nat" where
  "f64_ceil_usize = f64_to_usize (\<lambda>m s. - drop_bit s (- m))"

definition f64_floor_usize :: "f64 \<Rightarrow> nat" where
  "f64_floor_usize = f64_to_usize (\<lambda>m s. drop_bit s m)"

section \<open>Order\<close>

lemma f32_lt_key: "\<not> f32_is_nan a \<Longrightarrow> \<not> f32_is_nan b \<Longrightarrow> f32_lt a b \<longleftrightarrow> f32_key a < f32_key b"
  by (simp add: f32_lt_def f32_partial_cmp_def)

lemma f32_total_key_inj: "f32_total_key a = f32_total_key b \<longleftrightarrow> a = b"
proof
  assume k: "f32_total_key a = f32_total_key b"
  have s: "bit a 31 = bit b 31"
  proof -
    have "0 \<le> uint (a AND 0x7FFFFFFF)" "0 \<le> uint (b AND 0x7FFFFFFF)" by (rule uint_ge_0)+
    then show ?thesis using k unfolding f32_total_key_def Let_def
      by (cases "bit a 31"; cases "bit b 31"; simp only: if_True if_False; linarith?)
  qed
  have m: "a AND 0x7FFFFFFF = b AND 0x7FFFFFFF"
    using k s by (simp add: f32_total_key_def Let_def word_uint_eq_iff split: if_splits)
  show "a = b"
  proof (rule bit_word_eqI)
    fix n assume n: "n < LENGTH(32)"
    have t: "x AND 0x7FFFFFFF = take_bit 31 x" for x :: f32 by (simp add: take_bit_eq_mask mask_eq_exp_minus_1)
    show "bit a n = bit b n"
    proof (cases "n = 31")
      case False
      then have "n < 31" using n by simp
      then show ?thesis using m unfolding t by (metis bit_take_bit_iff)
    qed (use s in simp)
  qed
qed simp

end
