(* ===== verification/Rust_Sort.thy ===== *)
theory Rust_Sort
  imports Core "HOL-Library.Multiset" "HOL-Library.Product_Lexorder"
begin

text \<open>
  What the sources use of sorting in the standard library, over a comparator as Rust closures give it: the stable
  \<open>sort_by\<close>, \<open>dedup\<close>, and \<open>BinaryHeap\<close> as the collection of its elements, of which \<open>peek\<close> and \<open>pop\<close> take a
  greatest one.  A comparator that agrees with a key on the elements at hand sorts like the key; the locale
  \<open>keyed_cmp\<close> collects what follows, the selection of the \<open>k\<close> first elements with a bounded heap among it.
\<close>

section \<open>Comparators\<close>

text \<open>\<open>Ordering::then\<close>.\<close>

definition cmp_then :: "cmp_ordering \<Rightarrow> cmp_ordering \<Rightarrow> cmp_ordering" where
  "cmp_then a b = (case a of Equal \<Rightarrow> b | _ \<Rightarrow> a)"

text \<open>\<open>partial_cmp(..).unwrap_or(Ordering::Equal)\<close>.\<close>

definition cmp_or_equal :: "cmp_ordering option \<Rightarrow> cmp_ordering" where
  "cmp_or_equal r = (case r of Some c \<Rightarrow> c | None \<Rightarrow> Equal)"

lemma cmp_of_pair: "cmp_of (a, b) (c, d) = cmp_then (cmp_of a c) (cmp_of b d)"
  by (auto simp: cmp_of_def cmp_then_def)

lemma cmp_of_Greater: "cmp_of a b = Greater \<longleftrightarrow> b < a"
  by (auto simp: cmp_of_def)

lemma cmp_of_Less: "cmp_of a b = Less \<longleftrightarrow> a < b"
  by (auto simp: cmp_of_def)

lemma cmp_of_Equal: "cmp_of a b = Equal \<longleftrightarrow> a = b"
  by (auto simp: cmp_of_def)

section \<open>Sorting\<close>

fun instable_sort :: "('a \<Rightarrow> 'a \<Rightarrow> cmp_ordering) \<Rightarrow> 'a \<Rightarrow> 'a list \<Rightarrow> 'a list" where
  "instable_sort cmp x [] = [x]"
| "instable_sort cmp x (y # ys) = (if cmp x y = Greater then y # instable_sort cmp x ys else x # y # ys)"

definition stable_sort :: "('a \<Rightarrow> 'a \<Rightarrow> cmp_ordering) \<Rightarrow> 'a list \<Rightarrow> 'a list" where
  "stable_sort cmp xs = foldr (instable_sort cmp) xs []"

lemma mset_instable_sort [simp]: "mset (instable_sort cmp x xs) = add_mset x (mset xs)"
  by (induction xs) auto

lemma mset_stable_sort [simp]: "mset (stable_sort cmp xs) = mset xs"
  by (induction xs) (auto simp: stable_sort_def)

lemma set_stable_sort [simp]: "set (stable_sort cmp xs) = set xs"
  by (metis mset_stable_sort set_mset_mset)

lemma length_stable_sort [simp]: "length (stable_sort cmp xs) = length xs"
  by (metis mset_stable_sort size_mset)

text \<open>The documentation leaves \<open>sort_by\<close> free to panic or to leave any order when the comparator is not a total order of the
  elements; the model panics then.\<close>

definition total_order_of :: "('a \<Rightarrow> 'a \<Rightarrow> cmp_ordering) \<Rightarrow> 'a list \<Rightarrow> bool" where
  "total_order_of cmp xs =
     list_all (\<lambda>a. cmp a a = Equal \<and>
       list_all (\<lambda>b. (cmp a b = Less \<longleftrightarrow> cmp b a = Greater) \<and>
         list_all (\<lambda>c. cmp a b \<noteq> Greater \<longrightarrow> cmp b c \<noteq> Greater \<longrightarrow> cmp a c \<noteq> Greater) xs) xs) xs"

definition sort_by :: "('a \<Rightarrow> 'a \<Rightarrow> cmp_ordering) \<Rightarrow> 'a list \<Rightarrow> 'a list eresult" where
  "sort_by cmp xs = (if total_order_of cmp xs then Inr (stable_sort cmp xs) else Inl Panic)"

text \<open>\<open>dedup\<close> drops repeated neighbours.\<close>

fun dedup :: "'a list \<Rightarrow> 'a list" where
  "dedup (x # y # ys) = (if x = y then dedup (x # ys) else x # dedup (y # ys))"
| "dedup xs = xs"

lemma set_dedup [simp]: "set (dedup xs) = set xs"
  by (induction xs rule: dedup.induct) auto

lemma sorted_dedup: "sorted xs \<Longrightarrow> sorted (dedup xs) \<and> distinct (dedup xs)"
  by (induction xs rule: dedup.induct) auto

section \<open>Binary heaps\<close>

fun heap_peek :: "('a \<Rightarrow> 'a \<Rightarrow> cmp_ordering) \<Rightarrow> 'a list \<Rightarrow> 'a option" where
  "heap_peek cmp [] = None"
| "heap_peek cmp (x # xs) =
     (case heap_peek cmp xs of None \<Rightarrow> Some x | Some y \<Rightarrow> Some (if cmp y x = Greater then y else x))"

definition heap_pop :: "('a \<Rightarrow> 'a \<Rightarrow> cmp_ordering) \<Rightarrow> 'a list \<Rightarrow> ('a \<times> 'a list) option" where
  "heap_pop cmp h = (case heap_peek cmp h of None \<Rightarrow> None | Some x \<Rightarrow> Some (x, remove1 x h))"

lemma heap_peek_None [simp]: "heap_peek cmp h = None \<longleftrightarrow> h = []"
  by (cases h) (auto split: option.splits)

lemma heap_peek_mem: "heap_peek cmp h = Some x \<Longrightarrow> x \<in> set h"
  by (induction h arbitrary: x) (auto split: option.splits if_splits)

lemma heap_pop_None [simp]: "heap_pop cmp h = None \<longleftrightarrow> h = []"
  by (auto simp: heap_pop_def split: option.splits)

lemma heap_pop_mset: "heap_pop cmp h = Some (x, h') \<Longrightarrow> mset h = add_mset x (mset h')"
  using heap_peek_mem[of cmp h x] by (auto simp: heap_pop_def split: option.splits)

lemma heap_pop_facts:
  assumes "heap_pop cmp h = Some (x, h')"
  shows "length h = Suc (length h')" "set h = insert x (set h')"
proof -
  note m = heap_pop_mset[OF assms]
  show "length h = Suc (length h')" using arg_cong[OF m, of size] by simp
  show "set h = insert x (set h')" using arg_cong[OF m, of set_mset] by simp
qed

text \<open>\<open>while heap.len() > n \<open>{\<close> heap.pop(); \<open>}\<close>\<close>.\<close>

function heap_shrink :: "('a \<Rightarrow> 'a \<Rightarrow> cmp_ordering) \<Rightarrow> nat \<Rightarrow> 'a list \<Rightarrow> 'a list" where
  "heap_shrink cmp n h =
     (if length h \<le> n then h else case heap_pop cmp h of None \<Rightarrow> h | Some (_, h') \<Rightarrow> heap_shrink cmp n h')"
  by pat_completeness auto
termination
  by (relation "measure (\<lambda>(cmp, n, h). length h)") (auto dest: heap_pop_facts)

declare heap_shrink.simps [simp del]

lemma heap_shrink_set: "set (heap_shrink cmp n h) \<subseteq> set h"
proof (induction cmp n h rule: heap_shrink.induct)
  case (1 cmp n h)
  show ?case
  proof (cases "length h \<le> n")
    case False
    then obtain x h' where p: "heap_pop cmp h = Some (x, h')"
      by (cases "heap_pop cmp h") auto
    have "set (heap_shrink cmp n h') \<subseteq> set h'" using 1[OF False p refl] by simp
    then show ?thesis using False p heap_pop_facts[OF p] by (subst heap_shrink.simps) auto
  qed (subst heap_shrink.simps, simp)
qed

lemma heap_shrink_length: "length (heap_shrink cmp n h) = min n (length h)"
proof (induction cmp n h rule: heap_shrink.induct)
  case (1 cmp n h)
  show ?case
  proof (cases "length h \<le> n")
    case False
    then obtain x h' where p: "heap_pop cmp h = Some (x, h')"
      by (cases "heap_pop cmp h") auto
    then show ?thesis using False 1[OF False p refl] heap_pop_facts[OF p] by (subst heap_shrink.simps) auto
  qed (subst heap_shrink.simps, simp)
qed

section \<open>Comparators with a key\<close>

lemma sorted_key_unique:
  assumes "mset xs = mset ys" "sorted (map key xs)" "sorted (map key ys)" "inj_on key (set xs)"
  shows "xs = ys"
proof -
  have "map key xs = map key ys" using assms by (metis mset_map properties_for_sort)
  then show ?thesis using assms by (metis inj_on_map_eq_map set_mset_mset Un_absorb)
qed

lemma insort_key_snoc: "key x < key w \<Longrightarrow> insort_key key x (xs @ [w]) = insort_key key x xs @ [w]"
  by (induction xs) auto

lemma insort_key_last: "\<forall>y \<in> set xs. key y < key x \<Longrightarrow> insort_key key x xs = xs @ [x]"
  by (induction xs) (auto simp: not_le)

locale keyed_cmp =
  fixes cmp :: "'a \<Rightarrow> 'a \<Rightarrow> cmp_ordering" and key :: "'a \<Rightarrow> 'k::linorder" and A :: "'a set"
  assumes keyed: "x \<in> A \<Longrightarrow> y \<in> A \<Longrightarrow> cmp x y = cmp_of (key x) (key y)"
begin

lemma instable_sort_key: "x \<in> A \<Longrightarrow> set xs \<subseteq> A \<Longrightarrow> instable_sort cmp x xs = insort_key key x xs"
  by (induction xs) (auto simp: keyed cmp_of_Greater)

lemma stable_sort_key: "set xs \<subseteq> A \<Longrightarrow> stable_sort cmp xs = sort_key key xs"
proof (induction xs)
  case (Cons x xs)
  have "stable_sort cmp (x # xs) = instable_sort cmp x (stable_sort cmp xs)" by (simp add: stable_sort_def)
  also have "\<dots> = insort_key key x (sort_key key xs)" using Cons by (simp add: instable_sort_key)
  finally show ?case by (simp add: sort_key_def)
qed (simp add: stable_sort_def)

lemma keyed_total: "set xs \<subseteq> A \<Longrightarrow> total_order_of cmp xs"
  by (auto simp: total_order_of_def list_all_iff keyed subset_iff cmp_of_Greater cmp_of_Less cmp_of_Equal)

lemma sort_by_key: "set xs \<subseteq> A \<Longrightarrow> sort_by cmp xs = Inr (stable_sort cmp xs)"
  by (simp add: sort_by_def keyed_total)

lemma heap_peek_greatest: "set h \<subseteq> A \<Longrightarrow> heap_peek cmp h = Some x \<Longrightarrow> y \<in> set h \<Longrightarrow> key y \<le> key x"
proof (induction h arbitrary: x y)
  case (Cons z zs)
  show ?case
  proof (cases "heap_peek cmp zs")
    case None
    then show ?thesis using Cons.prems by auto
  next
    case (Some w)
    have wA: "w \<in> A" "z \<in> A" using heap_peek_mem[OF Some] Cons.prems by auto
    have m: "\<And>v. v \<in> set zs \<Longrightarrow> key v \<le> key w" using Cons.IH[OF _ Some] Cons.prems by auto
    show ?thesis using Cons.prems Some m[of y] wA keyed[OF wA]
      by (auto simp: cmp_of_Greater split: if_splits)
  qed
qed simp

text \<open>One step of selecting the \<open>k\<close> first elements with a heap of at most \<open>k\<close>: a full heap drops its greatest
  element for a smaller one.\<close>

lemma topk_step:
  assumes sub: "set (x # h) \<subseteq> A" and inj: "inj_on key (set (x # h))" and dis: "distinct (x # h)" and k0: "0 < k" and le: "length h \<le> k"
    and new: "h' = (if length h < k then x # h else
                 (case heap_pop cmp h of None \<Rightarrow> h | Some (w, r) \<Rightarrow> if cmp x w = Less then x # r else h))"
  shows "sort_key key h' = take k (insort_key key x (sort_key key h))"
proof (cases "length h < k")
  case True
  then show ?thesis using new by simp
next
  case False
  with k0 le have len: "length h = k" and "h \<noteq> []" by auto
  then obtain w r where p: "heap_pop cmp h = Some (w, r)" by (cases "heap_pop cmp h") auto
  have w: "w \<in> set h" "r = remove1 w h" using p heap_peek_mem[of cmp h w]
    by (auto simp: heap_pop_def split: option.splits)
  have top: "\<And>y. y \<in> set h \<Longrightarrow> key y \<le> key w"
    using p sub heap_peek_greatest[of h w] by (auto simp: heap_pop_def split: option.splits)
  have ms: "mset h = add_mset w (mset r)" by (rule heap_pop_mset[OF p])
  have topr: "\<And>y. y \<in> set r \<Longrightarrow> key y < key w"
  proof -
    fix y assume y: "y \<in> set r"
    have "y \<in> set h" "y \<noteq> w" using y w dis by (auto simp: distinct_remove1_removeAll)
    then show "key y < key w" using top[of y] w inj_onD[OF inj, of y w] by (auto simp: less_le)
  qed
  have srt: "sort_key key h = sort_key key r @ [w]"
  proof (rule sorted_key_unique)
    show "sorted (map key (sort_key key r @ [w]))" using topr by (auto simp: sorted_append less_imp_le)
  qed (use ms inj in \<open>auto simp: inj_on_def\<close>)
  have lr: "length r = k - 1" using len arg_cong[OF ms, of size] by simp
  have c: "cmp x w = Less \<longleftrightarrow> key x < key w" using keyed[of x w] sub w by (simp add: cmp_of_Less subset_iff)
  have h': "h' = (if key x < key w then x # r else h)" unfolding new using False p c by simp
  show ?thesis
  proof (cases "key x < key w")
    case True
    then show ?thesis unfolding h' srt using lr k0 by (simp add: insort_key_snoc)
  next
    case ge: False
    moreover have "key x \<noteq> key w" using w dis inj_onD[OF inj, of x w] by auto
    ultimately have "key w < key x" by simp
    then have "\<forall>y \<in> set (sort_key key h). key y < key x" using le_less_trans[OF top] by auto
    then show ?thesis unfolding h' using ge len by (simp add: insort_key_last)
  qed
qed

end

end
