(* ===== verification/Vector_Search.thy ===== *)
theory Vector_Search
  imports Index_Props Rust_Arith Rust_Sort
begin

text \<open>
  Vector similarity (\<open>metric.rs\<close>) and exact nearest-neighbour search (\<open>ExactVectorIndex::nearest\<close> and
  \<open>vector_nearest\<close> of \<open>auradb-index\<close>).  The bounded heap of the search is shown to select what sorting every candidate
  and cutting the list would: the comparator of neighbours has the key \<open>rank_key\<close> on scores that are numbers.
\<close>

section \<open>Metrics\<close>

definition ascii_lower :: "char \<Rightarrow> char" where
  "ascii_lower c = (let b = byte_of c in if 0x41 \<le> b \<and> b \<le> 0x5A then char_of_byte (b + 0x20) else c)"

definition metric_parse :: "string \<Rightarrow> (error, metric) result" where
  "metric_parse s =
     (let l = map ascii_lower s in
      if l = ''cosine'' then Inr Cosine
      else if l = ''euclidean'' \<or> l = ''l2'' then Inr Euclidean
      else if l = ''dot'' \<or> l = ''dot_product'' \<or> l = ''dotproduct'' then Inr DotProduct
      else Inl EInvalidRequest)"

fun metric_name :: "metric \<Rightarrow> string" where
  "metric_name Cosine = ''cosine''"
| "metric_name Euclidean = ''euclidean''"
| "metric_name DotProduct = ''dot_product''"

definition vec_dot :: "f32 list \<Rightarrow> f32 list \<Rightarrow> f32" where
  "vec_dot a b = f32_sum (map2 f32_mul a b)"

definition euclidean_distance :: "f32 list \<Rightarrow> f32 list \<Rightarrow> f32" where
  "euclidean_distance a b = f32_sqrt (f32_sum (map2 (\<lambda>x y. let d = f32_sub x y in f32_mul d d) a b))"

definition cosine_similarity :: "f32 list \<Rightarrow> f32 list \<Rightarrow> f32" where
  "cosine_similarity a b =
     (let na = f32_sqrt (vec_dot a a); nb = f32_sqrt (vec_dot b b)
      in if f32_eq na 0 \<or> f32_eq nb 0 then 0 else f32_div (vec_dot a b) (f32_mul na nb))"

fun similarity :: "metric \<Rightarrow> f32 list \<Rightarrow> f32 list \<Rightarrow> f32" where
  "similarity Cosine a b = cosine_similarity a b"
| "similarity DotProduct a b = vec_dot a b"
| "similarity Euclidean a b = f32_neg (euclidean_distance a b)"

text \<open>\<open>1.0\<close> has the pattern \<open>0x3F800000\<close>.\<close>

fun distance :: "metric \<Rightarrow> f32 list \<Rightarrow> f32 list \<Rightarrow> f32" where
  "distance Cosine a b = f32_sub 0x3F800000 (cosine_similarity a b)"
| "distance DotProduct a b = f32_neg (vec_dot a b)"
| "distance Euclidean a b = euclidean_distance a b"

section \<open>Exact search\<close>

record neighbor =
  nb_id :: record_id
  nb_score :: f32
  nb_distance :: f32

definition neighbor_of :: "metric \<Rightarrow> f32 list \<Rightarrow> record_id \<times> f32 list \<Rightarrow> neighbor" where
  "neighbor_of m query e = \<lparr>nb_id = fst e, nb_score = similarity m query (snd e), nb_distance = distance m query (snd e)\<rparr>"

definition rank_cmp :: "neighbor \<Rightarrow> neighbor \<Rightarrow> cmp_ordering" where
  "rank_cmp a b =
     cmp_then (cmp_or_equal (f32_partial_cmp (nb_score b) (nb_score a))) (cmp_of (nb_id a) (nb_id b))"

definition better :: "neighbor \<Rightarrow> neighbor \<Rightarrow> bool" where
  "better a b = (rank_cmp a b = Less)"

text \<open>The order of \<open>Worst\<close> is \<open>rank_cmp\<close>, so that the heap has the worst neighbour at its root.\<close>

definition heap_offer :: "nat \<Rightarrow> neighbor \<Rightarrow> neighbor list \<Rightarrow> neighbor list" where
  "heap_offer k cand heap =
     (if length heap < k then cand # heap
      else case heap_pop rank_cmp heap of
             None \<Rightarrow> heap
           | Some (worst, rest) \<Rightarrow> if better cand worst then cand # rest else heap)"

definition vector_candidates :: "metric \<Rightarrow> f32 list \<Rightarrow> exact_vector_index \<Rightarrow> neighbor list" where
  "vector_candidates m query vi =
     map (neighbor_of m query) (filter (\<lambda>e. length (snd e) = length query) (vi_entries vi))"

definition nearest :: "exact_vector_index \<Rightarrow> f32 list \<Rightarrow> nat \<Rightarrow> metric \<Rightarrow> neighbor list eresult" where
  "nearest vi query k m =
     (if k = 0 then Inr [] else sort_by rank_cmp (fold (heap_offer k) (vector_candidates m query vi) []))"

definition vector_nearest :: "collection_indexes \<Rightarrow> string \<Rightarrow> f32 list \<Rightarrow> nat \<Rightarrow> metric \<Rightarrow> neighbor list eresult" where
  "vector_nearest ci field query k m =
     (case om_get (ci_vector_maps ci) field of
        None \<Rightarrow> Inl (Err EInvalidRequest)
      | Some vi \<Rightarrow> if length query \<noteq> vi_dim vi then Inl (Err EInvalidRequest) else nearest vi query k m)"

section \<open>The order of neighbours\<close>

definition rank_key :: "neighbor \<Rightarrow> int \<times> record_id" where
  "rank_key n = (- f32_key (nb_score n), nb_id n)"

definition ranked_scores :: "neighbor set" where
  "ranked_scores = {n. \<not> f32_is_nan (nb_score n)}"

interpretation neighbor_order: keyed_cmp rank_cmp rank_key ranked_scores
proof
  fix a b assume "a \<in> ranked_scores" "b \<in> ranked_scores"
  then have "f32_partial_cmp (nb_score b) (nb_score a) = Some (cmp_of (- f32_key (nb_score a)) (- f32_key (nb_score b)))"
    by (auto simp: ranked_scores_def f32_partial_cmp_def cmp_of_def)
  then show "rank_cmp a b = cmp_of (rank_key a) (rank_key b)"
    by (simp add: rank_cmp_def rank_key_def cmp_of_pair cmp_or_equal_def)
qed

lemma heap_offer_sorted:
  assumes "set (x # h) \<subseteq> ranked_scores" "inj_on rank_key (set (x # h))" "distinct (x # h)" "0 < k" "length h \<le> k"
  shows "sort_key rank_key (heap_offer k x h) = take k (insort_key rank_key x (sort_key rank_key h))"
  by (rule neighbor_order.topk_step[OF assms]) (simp only: heap_offer_def better_def)

lemma insort_take: "take k (insort_key f x (take k xs)) = take k (insort_key f x xs)"
proof (induction xs arbitrary: k)
  case (Cons y ys)
  show ?case by (cases k) (auto simp: Cons.IH take_Cons')
qed simp

lemma fold_offer_sorted:
  assumes "set (xs @ ys) \<subseteq> ranked_scores" "inj_on rank_key (set (xs @ ys))" "distinct (xs @ ys)" "0 < k"
    and "sort_key rank_key h = take k (sort_key rank_key ys)"
  shows "sort_key rank_key (fold (heap_offer k) xs h) = take k (sort_key rank_key (rev xs @ ys))"
  using assms
proof (induction xs arbitrary: ys h)
  case (Cons x xs)
  have h: "set h \<subseteq> set ys" using Cons.prems(5) by (metis set_sort set_take_subset)
  have len: "length h \<le> k" using arg_cong[OF Cons.prems(5), of length] by simp
  have dh: "distinct h" using Cons.prems(3,5) by (metis distinct_append distinct_sort distinct_take)
  have inj: "inj_on rank_key (set (x # h))" by (rule inj_on_subset[OF Cons.prems(2)]) (use h in auto)
  have "sort_key rank_key (heap_offer k x h) = take k (insort_key rank_key x (sort_key rank_key h))"
    by (rule heap_offer_sorted) (use Cons.prems(1,3,4) h inj len dh in auto)
  also have "\<dots> = take k (sort_key rank_key (x # ys))"
    by (simp only: Cons.prems(5) insort_take sort_key_simps)
  finally have step: "sort_key rank_key (heap_offer k x h) = take k (sort_key rank_key (x # ys))" .
  have "sort_key rank_key (fold (heap_offer k) xs (heap_offer k x h)) = take k (sort_key rank_key (rev xs @ x # ys))"
    by (rule Cons.IH[OF _ _ _ _ step]) (use Cons.prems(1-4) in auto)
  then show ?case by simp
qed simp

lemma set_heap_offer: "set (heap_offer k x h) \<subseteq> insert x (set h)"
proof (cases "heap_pop rank_cmp h")
  case (Some p)
  then show ?thesis using heap_pop_facts(2)[of rank_cmp h "fst p" "snd p"] by (auto simp: heap_offer_def split_beta)
qed (auto simp: heap_offer_def heap_pop_def)

lemma set_fold_offer: "set (fold (heap_offer k) xs h) \<subseteq> set xs \<union> set h"
proof (induction xs arbitrary: h)
  case (Cons x xs)
  show ?case using Cons[of "heap_offer k x h"] set_heap_offer[of k x h] by auto
qed simp

text \<open>The heap selects what sorting all candidates and cutting the list at \<open>k\<close> would.\<close>

lemma candidates_rank_inj:
  assumes "om_wf (vi_entries vi)"
  shows "distinct (map nb_id (vector_candidates m q vi))" "inj_on rank_key (set (vector_candidates m q vi))"
proof -
  have "map nb_id (vector_candidates m q vi) = map fst (filter (\<lambda>e. length (snd e) = length q) (vi_entries vi))"
    by (simp add: vector_candidates_def neighbor_of_def comp_def)
  then show d: "distinct (map nb_id (vector_candidates m q vi))"
    using om_wf_distinct[OF assms] by (simp add: distinct_map_filter)
  show "inj_on rank_key (set (vector_candidates m q vi))"
    using d by (auto simp: distinct_map rank_key_def inj_on_def)
qed

lemma nearest_topk:
  assumes "om_wf (vi_entries vi)" "set (vector_candidates m q vi) \<subseteq> ranked_scores"
  shows "nearest vi q k m = Inr (take k (stable_sort rank_cmp (vector_candidates m q vi)))"
proof (cases "k = 0")
  case False
  let ?c = "vector_candidates m q vi"
  note inj = candidates_rank_inj[OF assms(1), of m q]
  have "sort_key rank_key (fold (heap_offer k) ?c []) = take k (sort_key rank_key (rev ?c @ []))"
    by (rule fold_offer_sorted) (use assms inj False in \<open>auto simp: distinct_map\<close>)
  also have "sort_key rank_key (rev ?c @ []) = sort_key rank_key ?c"
    by (rule sorted_key_unique) (use inj in auto)
  finally have "sort_key rank_key (fold (heap_offer k) ?c []) = take k (sort_key rank_key ?c)" .
  moreover have "set (fold (heap_offer k) ?c []) \<subseteq> ranked_scores" using set_fold_offer[of k ?c "[]"] assms(2) by auto
  ultimately show ?thesis using False assms(2) by (simp add: nearest_def neighbor_order.sort_by_key neighbor_order.stable_sort_key)
qed (simp add: nearest_def)

lemma topk_better:
  fixes k :: nat
  assumes "om_wf (vi_entries vi)" "set (vector_candidates m q vi) \<subseteq> ranked_scores"
    "nearest vi q k m = Inr ns"
  defines "hits \<equiv> set (vector_candidates m q vi)"
  shows "set ns \<subseteq> hits" "distinct (map nb_id ns)" "length ns = min k (card hits)" "sorted_wrt better ns"
    "n \<in> set ns \<Longrightarrow> h \<in> hits - set ns \<Longrightarrow> better n h"
proof -
  let ?s = "stable_sort rank_cmp (vector_candidates m q vi)"
  note inj = candidates_rank_inj[OF assms(1), of m q]
  have ns: "ns = take k ?s" using assms(3) nearest_topk[OF assms(1,2), of k] by simp
  have hits: "hits = set ?s" by (simp add: hits_def)
  have key: "?s = sort_key rank_key (vector_candidates m q vi)" by (rule neighbor_order.stable_sort_key[OF assms(2)])
  have ds: "distinct (map nb_id ?s)" "distinct ?s" using inj(1) unfolding key by (auto simp: distinct_map)
  have "sorted_wrt (<) (map rank_key ?s)"
    unfolding key strict_sorted_iff using inj ds by (auto simp: distinct_map)
  then have so: "sorted_wrt (\<lambda>a b. rank_key a < rank_key b) ?s" by (simp add: sorted_wrt_map)
  have bt: "better a b" if "a \<in> set ?s" "b \<in> set ?s" "rank_key a < rank_key b" for a b
  proof -
    have "a \<in> ranked_scores" "b \<in> ranked_scores" using that(1,2) assms(2) by auto
    then show ?thesis using that(3) neighbor_order.keyed[of a b] by (simp add: better_def cmp_of_Less)
  qed
  have sb: "sorted_wrt better ?s" by (rule sorted_wrt_mono_rel[OF _ so]) (use bt in blast)
  show "set ns \<subseteq> hits" unfolding ns hits by (rule set_take_subset)
  show "distinct (map nb_id ns)" unfolding ns using ds(1) by (simp add: take_map[symmetric])
  show "length ns = min k (card hits)" unfolding ns hits using ds(2) by (simp add: distinct_card del: set_stable_sort)
  show "sorted_wrt better ns" unfolding ns using sb by (rule sorted_wrt_take)
  show "better n h" if "n \<in> set ns" "h \<in> hits - set ns"
  proof -
    have "sorted_wrt better (take k ?s @ drop k ?s)" using sb by simp
    moreover have "h \<in> set (drop k ?s)" using that(2) unfolding hits ns
      by (metis Diff_iff UnE append_take_drop_id set_append)
    ultimately show ?thesis using that(1) unfolding ns sorted_wrt_append by blast
  qed
qed

section \<open>Properties\<close>

text \<open>The neighbours among a set of records.\<close>

definition vector_hits :: "record_t set \<Rightarrow> string \<Rightarrow> f32 list \<Rightarrow> metric \<Rightarrow> neighbor set" where
  "vector_hits R f q m =
     {neighbor_of m q (rec_id r, v) | r v. r \<in> R \<and> om_get (rec_fields r) f = Some (VVector v) \<and> length v = length q}"

lemma vector_rep_hits:
  assumes "vector_rep dim f R vi"
  shows "set (vector_candidates m q vi) = vector_hits R f q m"
proof -
  have e: "(i, v) \<in> set (vi_entries vi) \<longleftrightarrow> om_get (vi_entries vi) i = Some v" for i v
    using assms om_wf_distinct[of "vi_entries vi"] by (simp add: vector_rep_def om_get_def map_of_eq_Some_iff)
  show ?thesis using assms unfolding vector_candidates_def vector_hits_def vector_rep_def
    by (auto simp: e image_iff) blast+
qed

lemma run_vector_maps:
  assumes "index_run E s R ci"
  shows "maps_rep (vector_rep (\<lambda>f. the (vector_dim (indexes_from_schema s) f)))
    (om_keys (ci_vector_maps (indexes_from_schema s))) R (ci_vector_maps ci)"
  using index_run_rep[OF assms] by (simp add: indexes_rep_def Let_def)

lemma run_vector_rep:
  assumes "index_run E s R ci" "om_get (ci_vector_maps ci) f = Some vi"
  shows "vector_rep (\<lambda>f. the (vector_dim (indexes_from_schema s) f)) f R vi"
  using run_vector_maps[OF assms(1)] assms(2) by (simp add: maps_rep_def)

lemma run_vector_dim:
  assumes "index_run E s R ci"
  shows "vector_dim (indexes_from_schema s) f = vector_dim ci f"
proof -
  note k = om_get_same_keys[of "ci_vector_maps ci" "ci_vector_maps (indexes_from_schema s)" f]
  show ?thesis
  proof (cases "om_get (ci_vector_maps ci) f")
    case None
    then show ?thesis using run_vector_maps[OF assms] k by (simp add: maps_rep_def vector_dim_def)
  next
    case (Some vi)
    then show ?thesis using run_vector_maps[OF assms] run_vector_rep[OF assms Some] k
      by (cases "om_get (ci_vector_maps (indexes_from_schema s)) f") (auto simp: vector_rep_def maps_rep_def vector_dim_def)
  qed
qed


lemma demo_hits:
  "n \<in> vector_hits {demo_user 2 ''b'' ''on'', demo_user 1 ''a'' ''on''} ''vec'' [0x3F800000, 0] Cosine \<Longrightarrow>
   n = neighbor_of Cosine [0x3F800000, 0] (nb_id n, [0x3F800000, 0])"
  by (auto simp: vector_hits_def demo_user_def record_new_def neighbor_of_def)


end
