(* ===== verification/Hnsw.thy ===== *)
theory Hnsw
  imports Vector_Search
begin

text \<open>
  The approximate vector index (\<open>hnsw.rs\<close>): a layered graph over the vectors of a field, its construction and its beam
  search.  A computation that may not return is an option, \<open>None\<close> when it does not; it returns a value or panics.  The search
  loop is a \<open>partial_function\<close>, so that its termination is a theorem.  The natural logarithm is the argument \<open>ln\<close>,
  since Rust leaves its rounding open; vectors enter the graph in the iteration order of a hash map, which is the order of the
  list \<open>entries\<close>.
\<close>

unbundle bit_operations_syntax

section \<open>Computations that may not return\<close>

type_synonym 'a outcome = "'a eresult option"

definition ok :: "'a \<Rightarrow> 'a outcome" where
  "ok x = Some (Inr x)"

definition oc_bind :: "'a outcome \<Rightarrow> ('a \<Rightarrow> 'b outcome) \<Rightarrow> 'b outcome" where
  "oc_bind m f = (case m of None \<Rightarrow> None | Some (Inl e) \<Rightarrow> Some (Inl e) | Some (Inr x) \<Rightarrow> f x)"

lemma oc_bind_ok [simp]: "oc_bind (Some (Inr x)) f = f x" "oc_bind (ok x) f = f x"
  by (simp_all add: oc_bind_def ok_def)

section \<open>Parameters and layers\<close>

definition hnsw_params_default :: hnsw_params where
  "hnsw_params_default = \<lparr>hp_m = 16, hp_ef_construction = 200\<rparr>"

definition hnsw_validate :: "hnsw_params \<Rightarrow> (error, unit) result" where
  "hnsw_validate p =
     (if hp_m p = 0 \<or> 512 < hp_m p then Inl EInvalidRequest
      else if hp_ef_construction p = 0 \<or> 4096 < hp_ef_construction p then Inl EInvalidRequest
      else Inr ())"

text \<open>\<open>1.0\<close> as an \<open>f64\<close>.\<close>

definition level_mult :: "(f64 \<Rightarrow> f64) \<Rightarrow> hnsw_params \<Rightarrow> f64" where
  "level_mult ln p = f64_div 0x3FF0000000000000 (ln (f64_of_nat (max (hp_m p) 2)))"

definition next_u64 :: "u64 \<Rightarrow> u64 \<times> u64" where
  "next_u64 rng =
     (let rng = rng + 0x9E3779B97F4A7C15;
          z = (rng XOR drop_bit 30 rng) * 0xBF58476D1CE4E5B9;
          z = (z XOR drop_bit 27 z) * 0x94D049BB133111EB
      in (z XOR drop_bit 31 z, rng))"

text \<open>\<open>2^53\<close> and \<open>f64::MIN_POSITIVE\<close>.\<close>

definition next_unit :: "u64 \<Rightarrow> f64 \<times> u64" where
  "next_unit rng =
     (let (z, rng) = next_u64 rng
      in (f64_max (f64_div (f64_make False (uint (drop_bit 11 z)) 0) 0x4340000000000000) 0x0010000000000000, rng))"

definition assign_layer :: "(f64 \<Rightarrow> f64) \<Rightarrow> hnsw_params \<Rightarrow> u64 \<Rightarrow> nat \<times> u64" where
  "assign_layer ln p rng =
     (let (u, rng) = next_unit rng in (f64_floor_usize (f64_mul (f64_neg (ln u)) (level_mult ln p)), rng))"

section \<open>The graph\<close>

definition hnsw_new :: "metric \<Rightarrow> hnsw_params \<Rightarrow> u64 \<Rightarrow> hnsw" where
  "hnsw_new m p seed =
     \<lparr>hn_metric = m, hn_params = p, hn_ids = [], hn_vectors = [], hn_nodes = [], hn_entry = None, hn_max_layer = 0,
      hn_rng = seed OR 1\<rparr>"

definition max_degree :: "hnsw_params \<Rightarrow> nat \<Rightarrow> nat" where
  "max_degree p layer = (if layer = 0 then hp_m p * 2 else hp_m p)"

definition dist_to :: "hnsw \<Rightarrow> f32 list \<Rightarrow> nat \<Rightarrow> f32 eresult" where
  "dist_to g query i =
     (if i < length (hn_vectors g) then Inr (f32_neg (similarity (hn_metric g) query (hn_vectors g ! i))) else Inl Panic)"

text \<open>\<open>nodes.get(i)\<close> and \<open>neighbors.get(layer)\<close>.\<close>

definition adjacency :: "hnsw \<Rightarrow> nat \<Rightarrow> nat \<Rightarrow> nat list" where
  "adjacency g i layer =
     (if i < length (hn_nodes g) \<and> layer < length (hn_nodes g ! i) then hn_nodes g ! i ! layer else [])"

section \<open>Searching a layer\<close>

text \<open>The order of \<open>(Ord32, usize)\<close>; the frontier has the reverse order.\<close>

definition ord_cmp :: "f32 \<times> nat \<Rightarrow> f32 \<times> nat \<Rightarrow> cmp_ordering" where
  "ord_cmp a b = cmp_then (f32_total_cmp (fst a) (fst b)) (cmp_of (snd a) (snd b))"

definition reverse_cmp :: "f32 \<times> nat \<Rightarrow> f32 \<times> nat \<Rightarrow> cmp_ordering" where
  "reverse_cmp a b = ord_cmp b a"

record search_state =
  ss_visited :: "nat list"
  ss_frontier :: "(f32 \<times> nat) list"
  ss_results :: "(f32 \<times> nat) list"

definition farthest :: "search_state \<Rightarrow> f32" where
  "farthest st = (case heap_peek ord_cmp (ss_results st) of Some (d, _) \<Rightarrow> d | None \<Rightarrow> f32_inf)"

fun seed_search :: "hnsw \<Rightarrow> f32 list \<Rightarrow> nat list \<Rightarrow> search_state \<Rightarrow> search_state eresult" where
  "seed_search g query [] st = Inr st"
| "seed_search g query (ep # eps) st =
     (case dist_to g query ep of
        Inl e \<Rightarrow> Inl e
      | Inr d \<Rightarrow> seed_search g query eps
          (st\<lparr>ss_visited := List.insert ep (ss_visited st), ss_frontier := (d, ep) # ss_frontier st,
              ss_results := (d, ep) # ss_results st\<rparr>))"

fun visit_neighbors :: "hnsw \<Rightarrow> f32 list \<Rightarrow> nat \<Rightarrow> nat list \<Rightarrow> search_state \<Rightarrow> search_state eresult" where
  "visit_neighbors g query ef [] st = Inr st"
| "visit_neighbors g query ef (nb # adj) st =
     (if nb \<in> set (ss_visited st) then visit_neighbors g query ef adj st
      else
        (let st = st\<lparr>ss_visited := nb # ss_visited st\<rparr> in
         case dist_to g query nb of
           Inl e \<Rightarrow> Inl e
         | Inr d \<Rightarrow>
             visit_neighbors g query ef adj
               (if length (ss_results st) < ef \<or> f32_lt d (farthest st)
                then st\<lparr>ss_frontier := (d, nb) # ss_frontier st,
                        ss_results := heap_shrink ord_cmp ef ((d, nb) # ss_results st)\<rparr>
                else st)))"

partial_function (option) search_loop ::
  "hnsw \<Rightarrow> f32 list \<Rightarrow> nat \<Rightarrow> nat \<Rightarrow> search_state \<Rightarrow> (f32 \<times> nat) list eresult option" where
  [code]: "search_loop g query ef layer st =
     (case heap_pop reverse_cmp (ss_frontier st) of
        None \<Rightarrow> Some (Inr (ss_results st))
      | Some ((cand_d, cand), frontier) \<Rightarrow>
          if f32_lt (farthest st) cand_d \<and> ef \<le> length (ss_results st) then Some (Inr (ss_results st))
          else (case visit_neighbors g query ef (adjacency g cand layer) (st\<lparr>ss_frontier := frontier\<rparr>) of
                  Inl e \<Rightarrow> Some (Inl e)
                | Inr st' \<Rightarrow> search_loop g query ef layer st'))"

definition search_layer :: "hnsw \<Rightarrow> f32 list \<Rightarrow> nat list \<Rightarrow> nat \<Rightarrow> nat \<Rightarrow> (f32 \<times> nat) list outcome" where
  "search_layer g query entry_points ef layer =
     (case seed_search g query entry_points \<lparr>ss_visited = [], ss_frontier = [], ss_results = []\<rparr> of
        Inl e \<Rightarrow> Some (Inl e)
      | Inr st \<Rightarrow> search_loop g query ef layer (st\<lparr>ss_results := heap_shrink ord_cmp ef (ss_results st)\<rparr>))"

section \<open>Construction\<close>

text \<open>The comparison of candidates reads \<open>ids\<close> of both.\<close>

definition cand_cmp :: "hnsw \<Rightarrow> f32 \<times> nat \<Rightarrow> f32 \<times> nat \<Rightarrow> cmp_ordering" where
  "cand_cmp g a b = cmp_then (f32_total_cmp (fst a) (fst b)) (cmp_of (hn_ids g ! snd a) (hn_ids g ! snd b))"

definition closest :: "hnsw \<Rightarrow> (f32 \<times> nat) list \<Rightarrow> nat \<Rightarrow> nat list outcome" where
  "closest g cands n =
     (if 2 \<le> length cands \<and> \<not> list_all (\<lambda>c. snd c < length (hn_ids g)) cands then Some (Inl Panic)
      else oc_bind (Some (sort_by (cand_cmp g) cands)) (\<lambda>sorted. ok (map snd (take n sorted))))"

definition push_neighbor :: "nat \<Rightarrow> nat \<Rightarrow> nat \<Rightarrow> hnsw \<Rightarrow> hnsw outcome" where
  "push_neighbor i layer nb g =
     (if i < length (hn_nodes g) \<and> layer < length (hn_nodes g ! i)
      then ok (g\<lparr>hn_nodes := (hn_nodes g)[i := (hn_nodes g ! i)[layer := hn_nodes g ! i ! layer @ [nb]]]\<rparr>)
      else Some (Inl Panic))"

fun dists :: "hnsw \<Rightarrow> f32 list \<Rightarrow> nat list \<Rightarrow> (f32 \<times> nat) list eresult" where
  "dists g base [] = Inr []"
| "dists g base (nb # adj) =
     (case dist_to g base nb of
        Inl e \<Rightarrow> Inl e
      | Inr d \<Rightarrow> (case dists g base adj of Inl e \<Rightarrow> Inl e | Inr ds \<Rightarrow> Inr ((d, nb) # ds)))"

definition prune :: "nat \<Rightarrow> nat \<Rightarrow> nat \<Rightarrow> hnsw \<Rightarrow> hnsw outcome" where
  "prune n layer budget g =
     (if n < length (hn_vectors g) \<and> n < length (hn_nodes g) \<and> layer < length (hn_nodes g ! n)
      then oc_bind (Some (dists g (hn_vectors g ! n) (hn_nodes g ! n ! layer))) (\<lambda>adj.
           oc_bind (closest g adj budget) (\<lambda>kept.
           ok (g\<lparr>hn_nodes := (hn_nodes g)[n := (hn_nodes g ! n)[layer := kept]]\<rparr>)))
      else Some (Inl Panic))"

fun connect :: "nat \<Rightarrow> nat \<Rightarrow> nat list \<Rightarrow> hnsw \<Rightarrow> hnsw outcome" where
  "connect i lc [] g = ok g"
| "connect i lc (nb # selected) g =
     oc_bind (push_neighbor i lc nb g) (\<lambda>g.
     oc_bind (push_neighbor nb lc i g) (\<lambda>g.
     let budget = max_degree (hn_params g) lc in
     oc_bind (if budget < length (hn_nodes g ! nb ! lc) then prune nb lc budget g else ok g) (\<lambda>g.
     connect i lc selected g)))"

text \<open>\<open>found.iter().min_by(..)\<close>: the first of the closest.\<close>

fun min_by_dist :: "(f32 \<times> nat) list \<Rightarrow> (f32 \<times> nat) option" where
  "min_by_dist [] = None"
| "min_by_dist (x # xs) =
     (case min_by_dist xs of
        None \<Rightarrow> Some x
      | Some y \<Rightarrow> Some (if f32_total_cmp (fst x) (fst y) = Greater then y else x))"

text \<open>The greedy descent \<open>while lc > layer\<close>.\<close>

fun descend :: "hnsw \<Rightarrow> f32 list \<Rightarrow> nat \<Rightarrow> nat \<Rightarrow> nat list \<Rightarrow> nat list outcome" where
  "descend g query layer 0 ep = ok ep"
| "descend g query layer (Suc lc) ep =
     (if layer < Suc lc
      then oc_bind (search_layer g query ep 1 (Suc lc)) (\<lambda>found.
           descend g query layer lc (case min_by_dist found of Some (_, best) \<Rightarrow> [best] | None \<Rightarrow> ep))
      else ok ep)"

definition link_layer :: "f32 list \<Rightarrow> nat \<Rightarrow> nat \<Rightarrow> nat \<Rightarrow> nat list \<Rightarrow> hnsw \<Rightarrow> (nat list \<times> hnsw) outcome" where
  "link_layer query i entry lc ep g =
     oc_bind (search_layer g query ep (hp_ef_construction (hn_params g)) lc) (\<lambda>cands.
     oc_bind (closest g cands (hp_m (hn_params g))) (\<lambda>selected.
     oc_bind (connect i lc selected g) (\<lambda>g.
     ok (if cands = [] then [entry] else map snd cands, g))))"

fun link_layers :: "f32 list \<Rightarrow> nat \<Rightarrow> nat \<Rightarrow> nat \<Rightarrow> nat list \<Rightarrow> hnsw \<Rightarrow> hnsw outcome" where
  "link_layers query i entry 0 ep g = oc_bind (link_layer query i entry 0 ep g) (\<lambda>r. ok (snd r))"
| "link_layers query i entry (Suc lc) ep g =
     oc_bind (link_layer query i entry (Suc lc) ep g) (\<lambda>r. link_layers query i entry lc (fst r) (snd r))"

text \<open>\<open>layer + 1\<close> overflows for the largest \<open>usize\<close>.\<close>

definition hnsw_insert :: "(f64 \<Rightarrow> f64) \<Rightarrow> record_id \<Rightarrow> f32 list \<Rightarrow> hnsw \<Rightarrow> hnsw outcome" where
  "hnsw_insert ln rid vector g =
     (let i = length (hn_ids g); (layer, rng) = assign_layer ln (hn_params g) (hn_rng g) in
      if unat (- 1 :: u64) \<le> layer then Some (Inl Panic)
      else
        (let g = g\<lparr>hn_rng := rng, hn_ids := hn_ids g @ [rid], hn_vectors := hn_vectors g @ [vector],
                   hn_nodes := hn_nodes g @ [replicate (layer + 1) []]\<rparr>
         in case hn_entry g of
              None \<Rightarrow> ok (g\<lparr>hn_entry := Some i, hn_max_layer := layer\<rparr>)
            | Some entry \<Rightarrow>
                (let top = hn_max_layer g in
                 oc_bind (descend g vector layer top [entry]) (\<lambda>ep.
                 oc_bind (link_layers vector i entry (min layer top) ep g) (\<lambda>g.
                 ok (if hn_max_layer g < layer then g\<lparr>hn_max_layer := layer, hn_entry := Some i\<rparr> else g))))))"

fun hnsw_extend :: "(f64 \<Rightarrow> f64) \<Rightarrow> (record_id \<times> f32 list) list \<Rightarrow> hnsw \<Rightarrow> hnsw outcome" where
  "hnsw_extend ln [] g = ok g"
| "hnsw_extend ln ((rid, v) # entries) g = oc_bind (hnsw_insert ln rid v g) (hnsw_extend ln entries)"

definition hnsw_build ::
  "(f64 \<Rightarrow> f64) \<Rightarrow> (record_id \<times> f32 list) list \<Rightarrow> metric \<Rightarrow> hnsw_params \<Rightarrow> u64 \<Rightarrow> hnsw outcome" where
  "hnsw_build ln entries m p seed = hnsw_extend ln entries (hnsw_new m p seed)"

section \<open>Search\<close>

fun hnsw_neighbors :: "hnsw \<Rightarrow> f32 list \<Rightarrow> (f32 \<times> nat) list \<Rightarrow> neighbor list eresult" where
  "hnsw_neighbors g query [] = Inr []"
| "hnsw_neighbors g query ((_, i) # cands) =
     (if i < length (hn_ids g) \<and> i < length (hn_vectors g)
      then (case hnsw_neighbors g query cands of
              Inl e \<Rightarrow> Inl e
            | Inr ns \<Rightarrow> Inr (neighbor_of (hn_metric g) query (hn_ids g ! i, hn_vectors g ! i) # ns))
      else Inl Panic)"

definition hnsw_nearest :: "hnsw \<Rightarrow> f32 list \<Rightarrow> nat \<Rightarrow> nat \<Rightarrow> neighbor list outcome" where
  "hnsw_nearest g query k ef_search =
     (if hn_ids g = [] \<or> k = 0 then ok []
      else case hn_entry g of
             None \<Rightarrow> ok []
           | Some entry \<Rightarrow>
               oc_bind (descend g query 0 (hn_max_layer g) [entry]) (\<lambda>ep.
               oc_bind (search_layer g query ep (max ef_search k) 0) (\<lambda>cands.
               oc_bind (Some (hnsw_neighbors g query cands)) (\<lambda>scored.
               oc_bind (Some (sort_by rank_cmp scored)) (\<lambda>sorted.
               ok (take k sorted))))))"

definition ANN_GRAPH_SEED :: u64 where
  "ANN_GRAPH_SEED = 0x4155524144425631"

text \<open>The graph of a field, from the cache or built and cached.  \<open>order\<close> is the iteration order of the hash map of vectors.
  A panic of the construction, which holds the lock of the cache, would poison the lock; the construction panics only when a layer
  does not fit a machine word.\<close>

definition ann_graph ::
  "(f64 \<Rightarrow> f64) \<Rightarrow> ((record_id, f32 list) omap \<Rightarrow> (record_id \<times> f32 list) list) \<Rightarrow> string \<Rightarrow> exact_vector_index \<Rightarrow> metric \<Rightarrow>
   hnsw_params \<Rightarrow> collection_indexes \<Rightarrow> (hnsw \<times> collection_indexes) outcome" where
  "ann_graph ln order field vi m p ci =
     (let key = (field, metric_name m, hp_m p, hp_ef_construction p) in
      case om_get (ci_ann_cache ci) key of
        Some g \<Rightarrow> ok (g, ci)
      | None \<Rightarrow> oc_bind (hnsw_build ln (order (vi_entries vi)) m p ANN_GRAPH_SEED) (\<lambda>g.
                ok (g, ci\<lparr>ci_ann_cache := om_insert key g (ci_ann_cache ci)\<rparr>)))"

text \<open>The graph stays cached whatever the search of it gives.\<close>

definition vector_ann_nearest ::
  "(f64 \<Rightarrow> f64) \<Rightarrow> ((record_id, f32 list) omap \<Rightarrow> (record_id \<times> f32 list) list) \<Rightarrow> string \<Rightarrow> f32 list \<Rightarrow> nat \<Rightarrow> metric \<Rightarrow>
   hnsw_params \<Rightarrow> nat \<Rightarrow> collection_indexes \<Rightarrow> (fault, neighbor list, collection_indexes) result_st option" where
  "vector_ann_nearest ln order field query k m p ef_search ci =
     (case om_get (ci_vector_maps ci) field of
        None \<Rightarrow> Some (Inl (Err EInvalidRequest), ci)
      | Some vi \<Rightarrow>
          if length query \<noteq> vi_dim vi then Some (Inl (Err EInvalidRequest), ci)
          else
            (case hnsw_validate p of
               Inl e \<Rightarrow> Some (Inl (Err e), ci)
             | Inr _ \<Rightarrow>
                 (case ann_graph ln order field vi m p ci of
                    None \<Rightarrow> None
                  | Some (Inl e) \<Rightarrow> Some (Inl e, ci)
                  | Some (Inr (g, ci)) \<Rightarrow> map_option (\<lambda>r. (r, ci)) (hnsw_nearest g query k ef_search))))"

end
