(* ===== verification/Hnsw_Props.thy ===== *)
theory Hnsw_Props
  imports Hnsw
begin

text \<open>
  The graph invariant of \<open>hnsw.rs\<close> and what follows from it: building a graph and searching it return and never panic,
  out-degrees stay within their budget, and a search returns distinct stored vectors with their exact similarity.
\<close>

section \<open>The invariant\<close>

definition on_layer :: "hnsw \<Rightarrow> nat \<Rightarrow> nat set" where
  "on_layer g l = {i. i < length (hn_nodes g) \<and> l < length (hn_nodes g ! i)}"

text \<open>Every edge of a layer leads to a node of that layer.\<close>

definition graph_ok :: "hnsw \<Rightarrow> bool" where
  "graph_ok g \<longleftrightarrow>
     length (hn_vectors g) = length (hn_ids g) \<and> length (hn_nodes g) = length (hn_ids g) \<and>
     (\<forall>l. \<forall>i \<in> on_layer g l. set (hn_nodes g ! i ! l) \<subseteq> on_layer g l)"

definition degree_ok :: "hnsw \<Rightarrow> bool" where
  "degree_ok g \<longleftrightarrow> (\<forall>l. \<forall>i \<in> on_layer g l. length (hn_nodes g ! i ! l) \<le> max_degree (hn_params g) l)"

definition entry_ok :: "hnsw \<Rightarrow> bool" where
  "entry_ok g \<longleftrightarrow> (case hn_entry g of None \<Rightarrow> hn_ids g = [] | Some e \<Rightarrow> e \<in> on_layer g (hn_max_layer g))"

lemma on_layer_mono: "l' \<le> l \<Longrightarrow> on_layer g l \<subseteq> on_layer g l'"
  by (auto simp: on_layer_def)

lemma adjacency_eq: "adjacency g i l = (if i \<in> on_layer g l then hn_nodes g ! i ! l else [])"
  by (simp add: adjacency_def on_layer_def)

lemma adjacency_ok: "graph_ok g \<Longrightarrow> set (adjacency g i l) \<subseteq> on_layer g l"
  by (auto simp: adjacency_eq graph_ok_def)

text \<open>The nodes an edge of a layer leads to.\<close>

definition targets :: "hnsw \<Rightarrow> nat \<Rightarrow> nat set" where
  "targets g l = (\<Union>i \<in> on_layer g l. set (hn_nodes g ! i ! l))"

lemma finite_on_layer: "finite (on_layer g l)"
  by (rule finite_subset[of _ "{..<length (hn_nodes g)}"]) (auto simp: on_layer_def)

lemma finite_targets: "finite (targets g l)"
  by (simp add: targets_def finite_on_layer)

lemma adjacency_targets: "set (adjacency g i l) \<subseteq> targets g l"
  by (auto simp: adjacency_eq targets_def)

lemma targets_on_layer: "graph_ok g \<Longrightarrow> targets g l \<subseteq> on_layer g l"
  by (auto simp: targets_def graph_ok_def)

lemma on_layer_vectors: "graph_ok g \<Longrightarrow> i \<in> on_layer g l \<Longrightarrow> i < length (hn_vectors g) \<and> i < length (hn_ids g)"
  by (simp add: graph_ok_def on_layer_def)

section \<open>Searching a layer\<close>

lemma heap_pop_Nil [simp]: "heap_pop cmp [] = None"
  by simp

lemma heap_shrink_image: "f ` set (heap_shrink cmp n h) \<subseteq> f ` set h"
  by (rule image_mono[OF heap_shrink_set])

lemma heap_shrink_ne: "h \<noteq> [] \<Longrightarrow> 0 < n \<Longrightarrow> heap_shrink cmp n h \<noteq> []"
  using heap_shrink_length[of cmp n h] by (auto simp: min_def split: if_splits)

lemma heap_shrink_sub: "mset (heap_shrink cmp n h) \<subseteq># mset h"
proof (induction cmp n h rule: heap_shrink.induct)
  case (1 cmp n h)
  show ?case
  proof (cases "length h \<le> n")
    case False
    then obtain x h' where p: "heap_pop cmp h = Some (x, h')" by (cases "heap_pop cmp h") auto
    have "mset (heap_shrink cmp n h') \<subseteq># mset h'" using 1[OF False p refl] .
    also have "\<dots> \<subseteq># mset h" unfolding heap_pop_mset[OF p] by simp
    finally show ?thesis using False p by (subst heap_shrink.simps) simp
  qed (subst heap_shrink.simps, simp)
qed

lemma distinct_map_sub:
  assumes "mset xs \<subseteq># mset ys" "distinct (map f ys)"
  shows "distinct (map f xs)"
proof -
  have "mset (map f xs) \<subseteq># mset (map f ys)" using assms(1) by (simp add: image_mset_subseteq_mono)
  then have "count (mset (map f xs)) a \<le> count (mset (map f ys)) a" for a by (rule mset_subset_eq_count)
  then show ?thesis using assms(2) unfolding distinct_count_atmost_1
    by (metis (no_types, lifting) count_greater_zero_iff count_inI gr0I le_zero_eq less_one linorder_not_less nat_neq_iff order_le_less_trans set_mset_mset)
qed

lemma heap_shrink_distinct: "distinct (map f h) \<Longrightarrow> distinct (map f (heap_shrink cmp n h))"
  by (rule distinct_map_sub[OF heap_shrink_sub])

text \<open>What the loop keeps: the results are visited, distinct and among the nodes \<open>B\<close>, and there is one when the beam is
  not empty.\<close>

definition search_ok :: "nat set \<Rightarrow> nat \<Rightarrow> search_state \<Rightarrow> bool" where
  "search_ok B ef st \<longleftrightarrow>
     snd ` set (ss_results st) \<subseteq> set (ss_visited st) \<inter> B \<and> distinct (map snd (ss_results st)) \<and>
     (0 < ef \<longrightarrow> ss_results st \<noteq> [])"

lemma search_ok_push:
  assumes "search_ok B ef st" "nb \<notin> set (ss_visited st)" "nb \<in> B"
  shows "search_ok B ef (st\<lparr>ss_visited := nb # ss_visited st, ss_frontier := fr,
      ss_results := heap_shrink ord_cmp ef ((d, nb) # ss_results st)\<rparr>)"
proof -
  have "distinct (map snd ((d, nb) # ss_results st))" using assms by (auto simp: search_ok_def)
  moreover have "snd ` set (heap_shrink ord_cmp ef ((d, nb) # ss_results st)) \<subseteq> set (nb # ss_visited st) \<inter> B"
    by (rule order_trans[OF heap_shrink_image]) (use assms in \<open>auto simp: search_ok_def\<close>)
  ultimately show ?thesis unfolding search_ok_def by (simp add: heap_shrink_distinct heap_shrink_ne)
qed

lemma visit_neighbors_ok:
  assumes "set adj \<subseteq> U" "finite U" "\<forall>x \<in> U. x < length (hn_vectors g)" "U \<subseteq> B" "search_ok B ef st"
  shows "\<exists>st'. visit_neighbors g q ef adj st = Inr st' \<and> search_ok B ef st' \<and>
    length (ss_frontier st') + card (U - set (ss_visited st')) \<le> length (ss_frontier st) + card (U - set (ss_visited st))"
  using assms
proof (induction adj arbitrary: st)
  case (Cons nb adj)
  show ?case
  proof (cases "nb \<in> set (ss_visited st)")
    case True
    then show ?thesis using Cons by simp
  next
    case False
    let ?st = "st\<lparr>ss_visited := nb # ss_visited st\<rparr>"
    obtain d where d: "dist_to g q nb = Inr d" using Cons.prems by (auto simp: dist_to_def)
    define st1 where "st1 = (if length (ss_results ?st) < ef \<or> f32_lt d (farthest ?st)
        then ?st\<lparr>ss_frontier := (d, nb) # ss_frontier ?st, ss_results := heap_shrink ord_cmp ef ((d, nb) # ss_results ?st)\<rparr>
        else ?st)"
    have nbU: "nb \<in> U" "nb \<in> B" using Cons.prems by auto
    have "search_ok B ef st1" using search_ok_push[OF Cons.prems(5) False nbU(2), where d = d] Cons.prems(5)
      by (auto simp: st1_def search_ok_def)
    then obtain st' where st': "visit_neighbors g q ef adj st1 = Inr st'" "search_ok B ef st'"
      "length (ss_frontier st') + card (U - set (ss_visited st')) \<le> length (ss_frontier st1) + card (U - set (ss_visited st1))"
      using Cons.IH[of st1] Cons.prems by auto
    have "U - set (ss_visited st1) = (U - set (ss_visited st)) - {nb}" by (auto simp: st1_def)
    then have "Suc (card (U - set (ss_visited st1))) = card (U - set (ss_visited st))"
      using card_Suc_Diff1[of "U - set (ss_visited st)" nb] nbU False Cons.prems(2) by simp
    moreover have "length (ss_frontier st1) \<le> Suc (length (ss_frontier st))" by (simp add: st1_def)
    moreover have "visit_neighbors g q ef (nb # adj) st = visit_neighbors g q ef adj st1"
      using False d by (simp add: st1_def Let_def)
    ultimately show ?thesis using st' by auto
  qed
qed auto

text \<open>Each round removes a node from the frontier and adds only nodes not yet visited.\<close>

lemma search_loop_returns:
  assumes "graph_ok g" "targets g l \<subseteq> B" "search_ok B ef st"
  shows "\<exists>st'. search_loop g q ef l st = Some (Inr (ss_results st')) \<and> search_ok B ef st'"
  using assms(3)
proof (induction "length (ss_frontier st) + card (targets g l - set (ss_visited st))" arbitrary: st rule: less_induct)
  case less
  show ?case
  proof (cases "heap_pop reverse_cmp (ss_frontier st)")
    case None
    then show ?thesis using less.prems by (subst search_loop.simps) auto
  next
    case (Some p)
    obtain d c fr where p: "p = ((d, c), fr)" by (metis prod.exhaust)
    have len: "length (ss_frontier st) = Suc (length fr)" using heap_pop_facts(1)[of reverse_cmp "ss_frontier st"] Some p by simp
    show ?thesis
    proof (cases "f32_lt (farthest st) d \<and> ef \<le> length (ss_results st)")
      case True
      then show ?thesis using Some p less.prems by (subst search_loop.simps) auto
    next
      case False
      have "search_ok B ef (st\<lparr>ss_frontier := fr\<rparr>)" using less.prems by (simp add: search_ok_def)
      moreover have "\<forall>x \<in> targets g l. x < length (hn_vectors g)"
        using targets_on_layer[OF assms(1), of l] on_layer_vectors[OF assms(1), of _ l] by blast
      ultimately obtain st' where st': "visit_neighbors g q ef (adjacency g c l) (st\<lparr>ss_frontier := fr\<rparr>) = Inr st'" "search_ok B ef st'"
        "length (ss_frontier st') + card (targets g l - set (ss_visited st')) \<le> length fr + card (targets g l - set (ss_visited st))"
        using visit_neighbors_ok[where U = "targets g l" and B = B and g = g and q = q and adj = "adjacency g c l"
          and st = "st\<lparr>ss_frontier := fr\<rparr>" and ef = ef] adjacency_targets finite_targets assms(2) by auto
      have "\<exists>st''. search_loop g q ef l st' = Some (Inr (ss_results st'')) \<and> search_ok B ef st''"
        by (rule less.hyps) (use st' len in auto)
      moreover have "search_loop g q ef l st = search_loop g q ef l st'"
        by (subst search_loop.simps) (use Some p False st'(1) in auto)
      ultimately show ?thesis by simp
    qed
  qed
qed

lemma seed_search_ok:
  assumes "\<forall>x \<in> set eps. x < length (hn_vectors g)"
  shows "\<exists>st'. seed_search g q eps st = Inr st' \<and> set (ss_visited st') = set (ss_visited st) \<union> set eps \<and>
    map snd (ss_results st') = rev eps @ map snd (ss_results st)"
  using assms
proof (induction eps arbitrary: st)
  case (Cons e eps)
  then obtain d where "dist_to g q e = Inr d" by (auto simp: dist_to_def)
  then show ?case using Cons.IH[of "st\<lparr>ss_visited := List.insert e (ss_visited st), ss_frontier := (d, e) # ss_frontier st,
    ss_results := (d, e) # ss_results st\<rparr>"] Cons.prems by auto
qed auto

text \<open>A search of a layer from distinct nodes of that layer returns distinct nodes, each an entry point or the end of an
  edge of the layer.\<close>

lemma search_layer_ok:
  assumes "graph_ok g" "set eps \<subseteq> on_layer g l" "eps \<noteq> []" "distinct eps"
  shows "\<exists>res. search_layer g q eps ef l = Some (Inr res) \<and> snd ` set res \<subseteq> set eps \<union> targets g l \<and>
    distinct (map snd res) \<and> (0 < ef \<longrightarrow> res \<noteq> [])"
proof -
  obtain st where st: "seed_search g q eps \<lparr>ss_visited = [], ss_frontier = [], ss_results = []\<rparr> = Inr st"
    "set (ss_visited st) = set eps" "map snd (ss_results st) = rev eps"
    using seed_search_ok[of eps g q "\<lparr>ss_visited = [], ss_frontier = [], ss_results = []\<rparr>"] assms(2) on_layer_vectors[OF assms(1)]
    by auto
  let ?st = "st\<lparr>ss_results := heap_shrink ord_cmp ef (ss_results st)\<rparr>"
  have ne: "ss_results st \<noteq> []" using st(3) assms(3) by auto
  have "snd ` set (ss_results st) = set eps" using arg_cong[OF st(3), of set] by simp
  then have "search_ok (set eps \<union> targets g l) ef ?st"
    using heap_shrink_image[of snd ord_cmp ef "ss_results st"] ne st assms(4)
    unfolding search_ok_def by (simp add: heap_shrink_distinct heap_shrink_ne)
  from search_loop_returns[OF assms(1) _ this, of l q]
  show ?thesis using st(1) by (auto simp: search_layer_def search_ok_def)
qed

section \<open>Construction\<close>

interpretation cand_order: keyed_cmp "cand_cmp g" "\<lambda>c. (f32_total_key (fst c), hn_ids g ! snd c)" UNIV for g
  by unfold_locales (simp add: cand_cmp_def f32_total_cmp_def cmp_of_pair)

lemma closest_ok:
  assumes "graph_ok g" "snd ` set cands \<subseteq> on_layer g l"
  shows "\<exists>sel. closest g cands n = Some (Inr sel) \<and> set sel \<subseteq> snd ` set cands \<and> length sel \<le> n"
proof -
  have "list_all (\<lambda>c. snd c < length (hn_ids g)) cands"
    using assms on_layer_vectors[OF assms(1)] by (auto simp: list_all_iff image_subset_iff)
  moreover have "set (map snd (take n (stable_sort (cand_cmp g) cands))) \<subseteq> snd ` set cands"
    using set_take_subset[of n "stable_sort (cand_cmp g) cands"] by auto
  ultimately show ?thesis by (auto simp: closest_def ok_def cand_order.sort_by_key)
qed

text \<open>Graphs that differ in their edges only.\<close>

definition same_shape :: "hnsw \<Rightarrow> hnsw \<Rightarrow> bool" where
  "same_shape g g' \<longleftrightarrow> (\<exists>nodes. g' = g\<lparr>hn_nodes := nodes\<rparr> \<and> map length nodes = map length (hn_nodes g))"

lemma same_shape_refl [simp]: "same_shape g g"
  by (auto simp: same_shape_def intro!: exI[of _ "hn_nodes g"])

lemma same_shape_trans: "same_shape g h \<Longrightarrow> same_shape h k \<Longrightarrow> same_shape g k"
  by (auto simp: same_shape_def)

lemma same_shape_on_layer:
  assumes "same_shape g h"
  shows "on_layer h l = on_layer g l"
proof -
  have m: "map length (hn_nodes h) = map length (hn_nodes g)" using assms by (auto simp: same_shape_def)
  then have len: "length (hn_nodes h) = length (hn_nodes g)" by (metis length_map)
  have "length (hn_nodes h ! i) = length (hn_nodes g ! i)" if "i < length (hn_nodes g)" for i
    using arg_cong[OF m, of "\<lambda>xs. xs ! i"] that len by simp
  then show ?thesis using len by (auto simp: on_layer_def)
qed

text \<open>Writing one adjacency list.\<close>

definition set_adj :: "nat \<Rightarrow> nat \<Rightarrow> nat list \<Rightarrow> hnsw \<Rightarrow> hnsw" where
  "set_adj i l xs g = g\<lparr>hn_nodes := (hn_nodes g)[i := (hn_nodes g ! i)[l := xs]]\<rparr>"

lemma set_adj_fields [simp]:
  "hn_vectors (set_adj i l xs g) = hn_vectors g" "hn_ids (set_adj i l xs g) = hn_ids g" "hn_params (set_adj i l xs g) = hn_params g"
  "length (hn_nodes (set_adj i l xs g)) = length (hn_nodes g)"
  by (simp_all add: set_adj_def)

lemma set_adj_twice: "i \<in> on_layer g l \<Longrightarrow> set_adj i l ys (set_adj i l xs g) = set_adj i l ys g"
  by (simp add: set_adj_def on_layer_def)

lemma set_adj_shape: "i \<in> on_layer g l \<Longrightarrow> same_shape g (set_adj i l xs g)"
  by (auto simp: same_shape_def set_adj_def on_layer_def map_update list_update_id
      intro!: nth_equalityI simp: nth_list_update)

lemma set_adj_nth:
  assumes "i \<in> on_layer g l" "j \<in> on_layer g l'"
  shows "hn_nodes (set_adj i l xs g) ! j ! l' = (if j = i \<and> l' = l then xs else hn_nodes g ! j ! l')"
  using assms by (auto simp: set_adj_def on_layer_def nth_list_update)

lemma set_adj_graph_ok:
  assumes "graph_ok g" "i \<in> on_layer g l" "set xs \<subseteq> on_layer g l"
  shows "graph_ok (set_adj i l xs g)"
proof -
  have sh: "on_layer (set_adj i l xs g) l' = on_layer g l'" for l'
    by (rule same_shape_on_layer[OF set_adj_shape[OF assms(2)]])
  show ?thesis using assms unfolding graph_ok_def sh by (auto simp: set_adj_nth[OF assms(2)] split: if_splits)
qed

lemma set_adj_degree_ok:
  assumes "degree_ok g" "i \<in> on_layer g l" "length xs \<le> max_degree (hn_params g) l"
  shows "degree_ok (set_adj i l xs g)"
proof -
  have sh: "on_layer (set_adj i l xs g) l' = on_layer g l'" for l'
    by (rule same_shape_on_layer[OF set_adj_shape[OF assms(2)]])
  show ?thesis using assms unfolding degree_ok_def sh by (auto simp: set_adj_nth[OF assms(2)])
qed

text \<open>Outside the layer \<open>lc\<close> the edges do not change.\<close>

definition only_layer :: "nat \<Rightarrow> hnsw \<Rightarrow> hnsw \<Rightarrow> bool" where
  "only_layer lc g g' \<longleftrightarrow> (\<forall>l i. l \<noteq> lc \<longrightarrow> i \<in> on_layer g l \<longrightarrow> hn_nodes g' ! i ! l = hn_nodes g ! i ! l)"

lemma set_adj_only: "i \<in> on_layer g lc \<Longrightarrow> only_layer lc g (set_adj i lc xs g)"
  by (auto simp: only_layer_def set_adj_nth)

lemma push_neighbor_eq:
  "i \<in> on_layer g l \<Longrightarrow> push_neighbor i l nb g = ok (set_adj i l (hn_nodes g ! i ! l @ [nb]) g)"
  by (simp add: push_neighbor_def on_layer_def set_adj_def)

lemma dists_ok: "\<forall>x \<in> set adj. x < length (hn_vectors g) \<Longrightarrow> \<exists>ds. dists g base adj = Inr ds \<and> map snd ds = adj"
  by (induction adj) (auto simp: dist_to_def)

lemma prune_eq:
  assumes "graph_ok g" "n \<in> on_layer g l"
  shows "\<exists>kept. prune n l budget g = ok (set_adj n l kept g) \<and> set kept \<subseteq> set (hn_nodes g ! n ! l) \<and> length kept \<le> budget"
proof -
  have adj: "set (hn_nodes g ! n ! l) \<subseteq> on_layer g l" using assms by (auto simp: graph_ok_def)
  then obtain ds where ds: "dists g (hn_vectors g ! n) (hn_nodes g ! n ! l) = Inr ds" "map snd ds = hn_nodes g ! n ! l"
    using dists_ok[of "hn_nodes g ! n ! l" g] on_layer_vectors[OF assms(1)] by blast
  have e: "snd ` set ds = set (hn_nodes g ! n ! l)" by (metis ds(2) set_map)
  then have "snd ` set ds \<subseteq> on_layer g l" using adj by simp
  then obtain kept where "closest g ds budget = Some (Inr kept)" "set kept \<subseteq> snd ` set ds" "length kept \<le> budget"
    using closest_ok[OF assms(1)] by blast
  then show ?thesis using ds(1) e assms(2) on_layer_vectors[OF assms]
    by (intro exI[of _ kept]) (simp add: prune_def on_layer_def set_adj_def)
qed

text \<open>Linking back to a new neighbour, with pruning when its list outgrows the budget.\<close>

lemma link_back:
  assumes "graph_ok g" "degree_ok g" "nb \<in> on_layer g lc" "i \<in> on_layer g lc"
  shows "\<exists>ys. oc_bind (push_neighbor nb lc i g) (\<lambda>g. let budget = max_degree (hn_params g) lc in
      oc_bind (if budget < length (hn_nodes g ! nb ! lc) then prune nb lc budget g else ok g) f) = f (set_adj nb lc ys g) \<and>
    set ys \<subseteq> on_layer g lc \<and> length ys \<le> max_degree (hn_params g) lc"
proof -
  let ?ys = "hn_nodes g ! nb ! lc @ [i]"
  let ?g = "set_adj nb lc ?ys g"
  have sub: "set ?ys \<subseteq> on_layer g lc" using assms by (auto simp: graph_ok_def)
  have g: "graph_ok ?g" by (rule set_adj_graph_ok[OF assms(1,3) sub])
  have nb: "nb \<in> on_layer ?g lc" using same_shape_on_layer[OF set_adj_shape[OF assms(3)]] assms(3) by blast
  have ys: "hn_nodes ?g ! nb ! lc = ?ys" using set_adj_nth[OF assms(3,3)] by simp
  show ?thesis
  proof (cases "max_degree (hn_params g) lc < length ?ys")
    case True
    obtain kept where k: "prune nb lc (max_degree (hn_params g) lc) ?g = ok (set_adj nb lc kept ?g)" "set kept \<subseteq> set ?ys"
      "length kept \<le> max_degree (hn_params g) lc"
      using prune_eq[OF g nb] ys by metis
    then show ?thesis using True sub assms(3)
      by (intro exI[of _ kept]) (auto simp: push_neighbor_eq ys Let_def set_adj_twice)
  next
    case False
    then show ?thesis using sub assms(3) by (intro exI[of _ ?ys]) (simp add: push_neighbor_eq ys Let_def)
  qed
qed

lemma connect_ok:
  assumes "graph_ok g" "degree_ok g" "i \<in> on_layer g lc" "set sel \<subseteq> on_layer g lc - {i}"
    "length (hn_nodes g ! i ! lc) + length sel \<le> max_degree (hn_params g) lc"
  shows "\<exists>g'. connect i lc sel g = Some (Inr g') \<and> same_shape g g' \<and> graph_ok g' \<and> degree_ok g' \<and> only_layer lc g g'"
  using assms
proof (induction sel arbitrary: g)
  case (Cons nb sel)
  let ?xs = "hn_nodes g ! i ! lc @ [nb]"
  let ?g1 = "set_adj i lc ?xs g"
  have nb: "nb \<in> on_layer g lc" "nb \<noteq> i" using Cons.prems(4) by auto
  have sh1: "on_layer ?g1 l = on_layer g l" for l by (rule same_shape_on_layer[OF set_adj_shape[OF Cons.prems(3)]])
  have g1: "graph_ok ?g1" "degree_ok ?g1"
    using set_adj_graph_ok[OF Cons.prems(1,3), of ?xs] set_adj_degree_ok[OF Cons.prems(2,3), of ?xs] Cons.prems(1,3,5) nb
    by (auto simp: graph_ok_def[of g])
  obtain ys where ys: "oc_bind (push_neighbor nb lc i ?g1) (\<lambda>g. let budget = max_degree (hn_params g) lc in
      oc_bind (if budget < length (hn_nodes g ! nb ! lc) then prune nb lc budget g else ok g) (connect i lc sel)) =
      connect i lc sel (set_adj nb lc ys ?g1)" "set ys \<subseteq> on_layer ?g1 lc" "length ys \<le> max_degree (hn_params ?g1) lc"
    using link_back[OF g1, of nb lc i] nb Cons.prems(3) unfolding sh1 by blast
  let ?g2 = "set_adj nb lc ys ?g1"
  have nb1: "nb \<in> on_layer ?g1 lc" unfolding sh1 by (rule nb(1))
  have sh: "same_shape g ?g2" by (rule same_shape_trans[OF set_adj_shape[OF Cons.prems(3)] set_adj_shape[OF nb1]])
  have sh2: "on_layer ?g2 l = on_layer g l" for l by (rule same_shape_on_layer[OF sh])
  have own: "hn_nodes ?g2 ! i ! lc = ?xs"
    using set_adj_nth[OF nb1, of i lc ys] set_adj_nth[OF Cons.prems(3,3), of ?xs] Cons.prems(3) nb(2) sh1 by simp
  have "\<exists>g'. connect i lc sel ?g2 = Some (Inr g') \<and> same_shape ?g2 g' \<and> graph_ok g' \<and> degree_ok g' \<and> only_layer lc ?g2 g'"
    by (rule Cons.IH) (use set_adj_graph_ok[OF g1(1) nb1 ys(2)] set_adj_degree_ok[OF g1(2) nb1 ys(3)] Cons.prems sh2 own in auto)
  then obtain g' where g': "connect i lc sel ?g2 = Some (Inr g')" "same_shape ?g2 g'" "graph_ok g'" "degree_ok g'" "only_layer lc ?g2 g'"
    by blast
  have "only_layer lc g g'" using g'(5) set_adj_only[OF Cons.prems(3), of ?xs] set_adj_only[OF nb1, of ys]
    unfolding only_layer_def sh1 sh2 by auto
  moreover have "connect i lc (nb # sel) g = Some (Inr g')"
    using ys(1) g'(1) Cons.prems(3) by (simp add: push_neighbor_eq)
  ultimately show ?case using g' same_shape_trans[OF sh g'(2)] by blast
qed (auto simp: ok_def only_layer_def)

lemma min_by_dist_mem: "xs \<noteq> [] \<Longrightarrow> \<exists>x \<in> set xs. min_by_dist xs = Some x"
proof (induction xs)
  case (Cons x xs)
  show ?case using Cons.IH by (cases "xs = []") auto
qed simp

lemma descend_ok:
  assumes "graph_ok g" "set ep \<subseteq> on_layer g lc" "ep \<noteq> []" "distinct ep"
  shows "\<exists>ep'. descend g q layer lc ep = Some (Inr ep') \<and> set ep' \<subseteq> on_layer g (min layer lc) \<and> ep' \<noteq> [] \<and> distinct ep' \<and>
    set ep' \<subseteq> set ep \<union> (\<Union>l. targets g l)"
  using assms(2-4)
proof (induction lc arbitrary: ep)
  case (Suc lc)
  show ?case
  proof (cases "layer < Suc lc")
    case True
    obtain found where f: "search_layer g q ep 1 (Suc lc) = Some (Inr found)" "snd ` set found \<subseteq> set ep \<union> targets g (Suc lc)" "found \<noteq> []"
      using search_layer_ok[OF assms(1) Suc.prems, of q 1] by auto
    then obtain d best where b: "(d, best) \<in> set found" "min_by_dist found = Some (d, best)"
      using min_by_dist_mem[of found] by auto
    then have m: "best \<in> set ep \<union> targets g (Suc lc)" using f(2) by force
    then have "{best} \<subseteq> on_layer g lc"
      using Suc.prems(1) targets_on_layer[OF assms(1), of "Suc lc"] on_layer_mono[of lc "Suc lc" g] by auto
    then obtain ep' where "descend g q layer lc [best] = Some (Inr ep')" "set ep' \<subseteq> on_layer g (min layer lc)" "ep' \<noteq> []" "distinct ep'"
      "set ep' \<subseteq> {best} \<union> (\<Union>l. targets g l)"
      using Suc.IH[of "[best]"] by auto
    then show ?thesis using True f(1) b(2) m by (auto simp: min_def)
  next
    case False
    then have "min layer (Suc lc) = Suc lc" by simp
    then show ?thesis using False Suc.prems by (auto simp: ok_def)
  qed
qed (auto simp: ok_def)

lemma max_degree_m: "hp_m p \<le> max_degree p l"
  by (simp add: max_degree_def)

lemma link_layer_ok:
  assumes "graph_ok g" "degree_ok g" "i \<in> on_layer g lc" "set ep \<subseteq> on_layer g lc - {i}" "ep \<noteq> []" "distinct ep"
    "i \<notin> targets g lc" "hn_nodes g ! i ! lc = []" "entry \<in> on_layer g lc - {i}"
  shows "\<exists>ep' g'. link_layer q i entry lc ep g = Some (Inr (ep', g')) \<and> same_shape g g' \<and> graph_ok g' \<and> degree_ok g' \<and>
    only_layer lc g g' \<and> set ep' \<subseteq> on_layer g lc - {i} \<and> ep' \<noteq> [] \<and> distinct ep'"
proof -
  obtain cands where c: "search_layer g q ep (hp_ef_construction (hn_params g)) lc = Some (Inr cands)"
    "snd ` set cands \<subseteq> set ep \<union> targets g lc" "distinct (map snd cands)"
    using search_layer_ok[OF assms(1) _ assms(5,6)] assms(4) by blast
  have cl: "snd ` set cands \<subseteq> on_layer g lc - {i}"
    using c(2) assms(4,7) targets_on_layer[OF assms(1), of lc] by blast
  then obtain sel where sel: "closest g cands (hp_m (hn_params g)) = Some (Inr sel)" "set sel \<subseteq> snd ` set cands"
    "length sel \<le> hp_m (hn_params g)"
    using closest_ok[OF assms(1), of cands lc] by blast
  have "length (hn_nodes g ! i ! lc) + length sel \<le> max_degree (hn_params g) lc"
    using assms(8) sel(3) max_degree_m[of "hn_params g" lc] by simp
  then obtain g' where g': "connect i lc sel g = Some (Inr g')" "same_shape g g'" "graph_ok g'" "degree_ok g'" "only_layer lc g g'"
    using connect_ok[OF assms(1-3)] sel(2) cl by blast
  let ?ep = "if cands = [] then [entry] else map snd cands"
  have "set ?ep \<subseteq> on_layer g lc - {i}" "?ep \<noteq> []" "distinct ?ep" using cl assms(9) c(3) by auto
  then show ?thesis using c(1) sel(1) g' by (intro exI[of _ ?ep] exI[of _ g']) (simp add: link_layer_def ok_def)
qed

lemma only_layer_targets:
  assumes "same_shape g g'" "only_layer lc g g'" "l \<noteq> lc"
  shows "targets g' l = targets g l"
  using assms(2,3) unfolding targets_def same_shape_on_layer[OF assms(1)] by (auto simp: only_layer_def)

lemma link_layers_ok:
  assumes "graph_ok g" "degree_ok g" "i \<in> on_layer g lc" "set ep \<subseteq> on_layer g lc - {i}" "ep \<noteq> []" "distinct ep"
    "\<forall>l \<le> lc. i \<notin> targets g l" "\<forall>l \<le> lc. hn_nodes g ! i ! l = []" "entry \<in> on_layer g lc - {i}"
  shows "\<exists>g'. link_layers q i entry lc ep g = Some (Inr g') \<and> same_shape g g' \<and> graph_ok g' \<and> degree_ok g'"
  using assms
proof (induction lc arbitrary: ep g)
  case 0
  then obtain ep' g' where "link_layer q i entry 0 ep g = Some (Inr (ep', g'))" "same_shape g g'" "graph_ok g'" "degree_ok g'"
    using link_layer_ok[OF 0(1-6), of entry q] by auto
  then show ?case by (simp add: ok_def)
next
  case (Suc lc)
  obtain ep' g' where g': "link_layer q i entry (Suc lc) ep g = Some (Inr (ep', g'))" "same_shape g g'" "graph_ok g'" "degree_ok g'"
    "only_layer (Suc lc) g g'" "set ep' \<subseteq> on_layer g (Suc lc) - {i}" "ep' \<noteq> []" "distinct ep'"
    using link_layer_ok[OF Suc.prems(1-6), of entry q] Suc.prems(7-9) by auto
  have sub: "on_layer g (Suc lc) \<subseteq> on_layer g lc" by (rule on_layer_mono) simp
  have ol: "on_layer g' l = on_layer g l" for l by (rule same_shape_on_layer[OF g'(2)])
  have "\<exists>h. link_layers q i entry lc ep' g' = Some (Inr h) \<and> same_shape g' h \<and> graph_ok h \<and> degree_ok h"
  proof (rule Suc.IH)
    show "\<forall>l \<le> lc. i \<notin> targets g' l" using Suc.prems(7) only_layer_targets[OF g'(2,5)] by auto
    show "\<forall>l \<le> lc. hn_nodes g' ! i ! l = []"
    proof (intro allI impI)
      fix l assume "l \<le> lc"
      then have "i \<in> on_layer g l" "l \<noteq> Suc lc" using Suc.prems(3) on_layer_mono[of l "Suc lc" g] by auto
      then show "hn_nodes g' ! i ! l = []" using g'(5) Suc.prems(8) \<open>l \<le> lc\<close> by (simp add: only_layer_def)
    qed
  qed (use g' Suc.prems sub ol in auto)
  then show ?case using g'(1,2) same_shape_trans by fastforce
qed

section \<open>Building and searching\<close>

definition hnsw_ok :: "(record_id \<times> f32 list) list \<Rightarrow> metric \<Rightarrow> hnsw_params \<Rightarrow> hnsw \<Rightarrow> bool" where
  "hnsw_ok entries m p g \<longleftrightarrow>
     graph_ok g \<and> degree_ok g \<and> entry_ok g \<and> zip (hn_ids g) (hn_vectors g) = entries \<and> hn_metric g = m \<and> hn_params g = p"

definition add_node :: "u64 \<Rightarrow> record_id \<Rightarrow> f32 list \<Rightarrow> nat \<Rightarrow> hnsw \<Rightarrow> hnsw" where
  "add_node rng rid v layer g =
     g\<lparr>hn_rng := rng, hn_ids := hn_ids g @ [rid], hn_vectors := hn_vectors g @ [v],
       hn_nodes := hn_nodes g @ [replicate (layer + 1) []]\<rparr>"

lemma add_node_layer:
  assumes "graph_ok g"
  shows "on_layer (add_node rng rid v layer g) l = on_layer g l \<union> (if l \<le> layer then {length (hn_ids g)} else {})"
  using assms by (auto simp: on_layer_def add_node_def graph_ok_def nth_append)

lemma add_node_adj:
  assumes "graph_ok g" "i \<in> on_layer (add_node rng rid v layer g) l"
  shows "hn_nodes (add_node rng rid v layer g) ! i ! l = (if i = length (hn_ids g) then [] else hn_nodes g ! i ! l)"
  using assms by (auto simp: on_layer_def add_node_def graph_ok_def nth_append simp del: replicate_Suc split: if_splits)

lemma add_node_ok:
  fixes rng :: u64 and rid :: record_id and v :: "f32 list" and layer :: nat
  assumes "graph_ok g" "degree_ok g"
  defines "g1 \<equiv> add_node rng rid v layer g"
  shows "graph_ok g1" "degree_ok g1" "length (hn_ids g) \<notin> targets g1 l"
proof -
  note l = add_node_layer[OF assms(1), of rng rid v layer, folded g1_def]
  note a = add_node_adj[OF assms(1), of _ rng rid v layer, folded g1_def]
  have len: "length (hn_vectors g1) = length (hn_ids g1)" "length (hn_nodes g1) = length (hn_ids g1)" "hn_params g1 = hn_params g"
    using assms(1) by (simp_all add: g1_def add_node_def graph_ok_def)
  have old: "i \<in> on_layer g l' \<Longrightarrow> i \<noteq> length (hn_ids g)" for i l' using assms(1) by (auto simp: on_layer_def graph_ok_def)
  have adj: "set (hn_nodes g1 ! i ! l') \<subseteq> on_layer g l' \<and> length (hn_nodes g1 ! i ! l') \<le> max_degree (hn_params g) l'"
    if "i \<in> on_layer g1 l'" for i l'
  proof (cases "i = length (hn_ids g)")
    case False
    then have "i \<in> on_layer g l'" using that l by (auto split: if_splits)
    then show ?thesis using a[OF that] False assms(1,2) by (auto simp: graph_ok_def degree_ok_def)
  qed (use a[OF that] in simp)
  have "on_layer g l' \<subseteq> on_layer g1 l'" for l' using l by simp
  then show "graph_ok g1" unfolding graph_ok_def using len adj by blast
  show "degree_ok g1" unfolding degree_ok_def len(3) using adj by blast
  show "length (hn_ids g) \<notin> targets g1 l" using adj old unfolding targets_def by blast
qed

lemma entry_update [simp]:
  "on_layer (hn_entry_update e g) = on_layer g" "on_layer (hn_max_layer_update n g) = on_layer g"
  "graph_ok (hn_entry_update e g) = graph_ok g" "graph_ok (hn_max_layer_update n g) = graph_ok g"
  "degree_ok (hn_entry_update e g) = degree_ok g" "degree_ok (hn_max_layer_update n g) = degree_ok g"
  by (simp_all add: fun_eq_iff on_layer_def graph_ok_def degree_ok_def)

lemma same_shape_fields:
  assumes "same_shape g h"
  shows "hn_ids h = hn_ids g" "hn_vectors h = hn_vectors g" "hn_metric h = hn_metric g" "hn_params h = hn_params g"
    "hn_entry h = hn_entry g" "hn_max_layer h = hn_max_layer g"
  using assms by (auto simp: same_shape_def)

lemma hnsw_insert_ok:
  assumes "hnsw_ok entries m p g" "fst (assign_layer ln p (hn_rng g)) < unat (- 1 :: u64)"
  shows "\<exists>g'. hnsw_insert ln rid v g = Some (Inr g') \<and> hnsw_ok (entries @ [(rid, v)]) m p g'"
proof -
  obtain layer rng where lr: "assign_layer ln p (hn_rng g) = (layer, rng)" by (metis prod.exhaust)
  let ?i = "length (hn_ids g)" and ?g = "add_node rng rid v layer g"
  have g: "graph_ok g" "degree_ok g" "entry_ok g" "zip (hn_ids g) (hn_vectors g) = entries" "hn_metric g = m" "hn_params g = p"
    using assms(1) by (simp_all add: hnsw_ok_def)
  note g1 = add_node_ok[OF g(1,2), where rng = rng and rid = rid and v = v and layer = layer]
  note l1 = add_node_layer[OF g(1), of rng rid v layer]
  have f: "zip (hn_ids ?g) (hn_vectors ?g) = entries @ [(rid, v)]" "hn_metric ?g = m" "hn_params ?g = p" "hn_ids ?g \<noteq> []"
    "hn_entry ?g = hn_entry g" "hn_max_layer ?g = hn_max_layer g"
    using g by (auto simp: add_node_def graph_ok_def)
  have ins: "hnsw_insert ln rid v g = (case hn_entry ?g of
      None \<Rightarrow> ok (?g\<lparr>hn_entry := Some ?i, hn_max_layer := layer\<rparr>)
    | Some entry \<Rightarrow> (let top = hn_max_layer ?g in
         oc_bind (descend ?g v layer top [entry]) (\<lambda>ep.
         oc_bind (link_layers v ?i entry (min layer top) ep ?g) (\<lambda>g.
         ok (if hn_max_layer g < layer then g\<lparr>hn_max_layer := layer, hn_entry := Some ?i\<rparr> else g)))))"
    using assms(2) lr g(6) by (cases "hn_entry g") (simp_all add: hnsw_insert_def add_node_def Let_def del: replicate_Suc)
  show ?thesis
  proof (cases "hn_entry g")
    case None
    let ?h = "?g\<lparr>hn_entry := Some ?i, hn_max_layer := layer\<rparr>"
    have "graph_ok ?h" "degree_ok ?h" using g1(1,2) by simp_all
    moreover have "?i \<in> on_layer ?g layer" using l1 by simp
    then have "entry_ok ?h" by (simp add: entry_ok_def)
    ultimately show ?thesis using None ins f by (intro exI[of _ ?h]) (simp add: ok_def hnsw_ok_def)
  next
    case (Some entry)
    let ?top = "hn_max_layer g"
    have e: "entry \<in> on_layer g ?top" "entry \<noteq> ?i" using g(1,3) Some by (auto simp: entry_ok_def on_layer_def graph_ok_def)
    obtain ep where ep: "descend ?g v layer ?top [entry] = Some (Inr ep)" "set ep \<subseteq> on_layer ?g (min layer ?top)" "ep \<noteq> []" "distinct ep"
      "set ep \<subseteq> {entry} \<union> (\<Union>l. targets ?g l)"
      using descend_ok[OF g1(1), of "[entry]" ?top v layer] e(1) l1 by auto
    have iep: "?i \<notin> set ep" using ep(5) g1(3) e(2) by blast
    have il: "?i \<in> on_layer ?g l" if "l \<le> layer" for l using l1 that by simp
    have el: "entry \<in> on_layer ?g (min layer ?top)" using e(1) l1 on_layer_mono[of "min layer ?top" ?top g] by auto
    have nil: "\<forall>l \<le> min layer ?top. hn_nodes ?g ! ?i ! l = []" using add_node_adj[OF g(1)] il by simp
    obtain h where h: "link_layers v ?i entry (min layer ?top) ep ?g = Some (Inr h)" "same_shape ?g h" "graph_ok h" "degree_ok h"
      using link_layers_ok[OF g1(1,2) il _ ep(3,4) _ nil, of entry v] ep(2) iep g1(3) el e(2) by auto
    note hf = same_shape_fields[OF h(2)]
    let ?h = "if ?top < layer then h\<lparr>hn_max_layer := layer, hn_entry := Some ?i\<rparr> else h"
    have hl: "on_layer h l = on_layer ?g l" for l by (rule same_shape_on_layer[OF h(2)])
    have "graph_ok ?h" "degree_ok ?h" using h(3,4) by simp_all
    moreover have "entry_ok ?h"
    proof -
      have "?i \<in> on_layer h layer" "entry \<in> on_layer h ?top" using e(1) il[of layer] unfolding hl l1 by simp_all
      moreover have "hn_entry h = Some entry" "hn_max_layer h = ?top" using hf(5,6) f(5,6) Some by simp_all
      ultimately show ?thesis by (simp add: entry_ok_def)
    qed
    moreover have "hnsw_insert ln rid v g = Some (Inr ?h)" using ins Some ep(1) h(1) hf(6) f(5,6) by (simp add: Let_def ok_def)
    ultimately show ?thesis using hf f by (intro exI[of _ ?h]) (simp add: hnsw_ok_def)
  qed
qed

text \<open>The layers drawn from the generator leave room for one more.\<close>

definition layers_fit :: "(f64 \<Rightarrow> f64) \<Rightarrow> hnsw_params \<Rightarrow> bool" where
  "layers_fit ln p \<longleftrightarrow> (\<forall>rng. fst (assign_layer ln p rng) < unat (- 1 :: u64))"

lemma hnsw_extend_ok:
  assumes "layers_fit ln p" "hnsw_ok done m p g"
  shows "\<exists>g'. hnsw_extend ln entries g = Some (Inr g') \<and> hnsw_ok (done @ entries) m p g'"
  using assms(2)
proof (induction entries arbitrary: "done" g)
  case (Cons e entries)
  obtain rid v where e: "e = (rid, v)" by (metis prod.exhaust)
  obtain h where h: "hnsw_insert ln rid v g = Some (Inr h)" "hnsw_ok (done @ [(rid, v)]) m p h"
    using hnsw_insert_ok[OF Cons.prems] assms(1) unfolding layers_fit_def by blast
  then show ?case using Cons.IH[OF h(2)] by (simp add: e)
qed (auto simp: ok_def)

lemma hnsw_new_ok: "hnsw_ok [] m p (hnsw_new m p seed)"
  by (simp add: hnsw_ok_def hnsw_new_def graph_ok_def degree_ok_def entry_ok_def on_layer_def)

lemma hnsw_build_ok:
  assumes "layers_fit ln p"
  shows "\<exists>g. hnsw_build ln entries m p seed = Some (Inr g) \<and> hnsw_ok entries m p g"
  using hnsw_extend_ok[OF assms hnsw_new_ok] by (simp add: hnsw_build_def)

text \<open>A graph that was built is well formed, whatever the layers.\<close>

lemma hnsw_extend_built:
  assumes "hnsw_ok done m p g" "hnsw_extend ln entries g = Some (Inr g')"
  shows "hnsw_ok (done @ entries) m p g'"
  using assms
proof (induction entries arbitrary: "done" g)
  case (Cons e entries)
  obtain rid v where e: "e = (rid, v)" by (metis prod.exhaust)
  obtain h where i: "hnsw_insert ln rid v g = Some (Inr h)" "hnsw_extend ln entries h = Some (Inr g')"
    using Cons.prems(2) by (auto simp: e oc_bind_def split: option.splits sum.splits)
  have p: "hn_params g = p" using Cons.prems(1) by (simp add: hnsw_ok_def)
  have "fst (assign_layer ln p (hn_rng g)) < unat (- 1 :: u64)"
    using i(1) unfolding hnsw_insert_def p by (auto simp: Let_def split_beta not_le split: if_splits)
  then have "hnsw_ok (done @ [(rid, v)]) m p h" using hnsw_insert_ok[OF Cons.prems(1), of ln rid v] i(1) by simp
  from Cons.IH[OF this i(2)] show ?case by (simp add: e)
qed (simp add: ok_def)

lemma hnsw_build_built: "hnsw_build ln entries m p seed = Some (Inr g) \<Longrightarrow> hnsw_ok entries m p g"
  using hnsw_extend_built[OF hnsw_new_ok] by (fastforce simp: hnsw_build_def)

lemma hnsw_neighbors_ok:
  assumes "graph_ok g" "snd ` set cands \<subseteq> on_layer g 0"
  shows "hnsw_neighbors g q cands = Inr (map (\<lambda>c. neighbor_of (hn_metric g) q (hn_ids g ! snd c, hn_vectors g ! snd c)) cands)"
  using assms(2)
proof (induction cands)
  case (Cons c cands)
  obtain d i where c: "c = (d, i)" by (metis prod.exhaust)
  then show ?case using Cons on_layer_vectors[OF assms(1), of i 0] by simp
qed simp

text \<open>What a search returns.\<close>

definition ann_answer :: "neighbor set \<Rightarrow> nat \<Rightarrow> neighbor list \<Rightarrow> bool" where
  "ann_answer hits k ns \<longleftrightarrow>
     length ns \<le> k \<and> distinct (map nb_id ns) \<and> set ns \<subseteq> hits \<and> (hits \<noteq> {} \<longrightarrow> 0 < k \<longrightarrow> ns \<noteq> []) \<and> sorted_wrt better ns"

text \<open>Every score is a number, so that the comparator of neighbours is a total order; \<open>sort_by\<close> may panic on others.\<close>

definition number_scores :: "metric \<Rightarrow> f32 list \<Rightarrow> (record_id \<times> f32 list) list \<Rightarrow> bool" where
  "number_scores m q entries = list_all (\<lambda>e. \<not> f32_is_nan (similarity m q (snd e))) entries"

lemma stable_sort_rank_better:
  assumes "set ns \<subseteq> ranked_scores" "distinct (map nb_id ns)"
  shows "sorted_wrt better (stable_sort rank_cmp ns)"
proof -
  have s: "stable_sort rank_cmp ns = sort_key rank_key ns" by (rule neighbor_order.stable_sort_key[OF assms(1)])
  have "inj_on rank_key (set ns)" "distinct ns" using assms(2) by (auto simp: distinct_map rank_key_def inj_on_def)
  then have "sorted_wrt (<) (map rank_key (sort_key rank_key ns))" unfolding strict_sorted_iff by (auto simp: distinct_map)
  then have so: "sorted_wrt (\<lambda>a b. rank_key a < rank_key b) (stable_sort rank_cmp ns)" unfolding s by (simp add: sorted_wrt_map)
  have "better a b" if "a \<in> set ns" "b \<in> set ns" "rank_key a < rank_key b" for a b
  proof -
    have "a \<in> ranked_scores" "b \<in> ranked_scores" using that(1,2) assms(1) by auto
    then show ?thesis using that(3) neighbor_order.keyed[of a b] by (simp add: better_def cmp_of_Less)
  qed
  then show ?thesis by (intro sorted_wrt_mono_rel[OF _ so]) simp
qed

lemma hnsw_nearest_ok:
  assumes "hnsw_ok entries m p g" "distinct (map fst entries)" "number_scores m q entries"
  shows "\<exists>ns. hnsw_nearest g q k ef = Some (Inr ns) \<and> ann_answer (neighbor_of m q ` set entries) k ns"
proof (cases "hn_ids g = [] \<or> k = 0")
  case True
  then show ?thesis using assms(1) by (auto simp: hnsw_nearest_def ok_def ann_answer_def hnsw_ok_def)
next
  case False
  have g: "graph_ok g" "entry_ok g" "zip (hn_ids g) (hn_vectors g) = entries" "hn_metric g = m"
    using assms(1) by (simp_all add: hnsw_ok_def)
  then obtain entry where e: "hn_entry g = Some entry" "entry \<in> on_layer g (hn_max_layer g)"
    using False by (auto simp: entry_ok_def split: option.splits)
  obtain ep where ep: "descend g q 0 (hn_max_layer g) [entry] = Some (Inr ep)" "set ep \<subseteq> on_layer g 0" "ep \<noteq> []" "distinct ep"
    using descend_ok[OF g(1), of "[entry]" "hn_max_layer g" q 0] e(2) by auto
  obtain cands where c: "search_layer g q ep (max ef k) 0 = Some (Inr cands)" "snd ` set cands \<subseteq> set ep \<union> targets g 0"
    "distinct (map snd cands)" "cands \<noteq> []"
    using search_layer_ok[OF g(1) ep(2-4), of q "max ef k"] False by auto
  have cl: "snd ` set cands \<subseteq> on_layer g 0" using c(2) ep(2) targets_on_layer[OF g(1), of 0] by blast
  define scored where "scored = map (\<lambda>c. neighbor_of m q (hn_ids g ! snd c, hn_vectors g ! snd c)) cands"
  have ids: "map nb_id scored = map (\<lambda>i. hn_ids g ! i) (map snd cands)" by (simp add: scored_def neighbor_of_def comp_def)
  have lens: "length (hn_vectors g) = length (hn_ids g)" using g(1) by (simp add: graph_ok_def)
  then have "distinct (hn_ids g)" using assms(2) g(3) by (metis map_fst_zip)
  moreover have lt: "snd c < length (hn_ids g)" if "c \<in> set cands" for c
    using that cl on_layer_vectors[OF g(1)] by auto
  ultimately have di: "distinct (map nb_id scored)"
    unfolding ids using c(3) by (auto simp: distinct_map inj_on_def nth_eq_iff_index_eq)
  have "(hn_ids g ! i, hn_vectors g ! i) \<in> set entries" if "i < length (hn_ids g)" for i
    using that lens by (auto simp: g(3)[symmetric] set_zip)
  then have mem: "set scored \<subseteq> neighbor_of m q ` set entries" using lt by (auto simp: scored_def)
  have "neighbor_of m q ` set entries \<subseteq> ranked_scores"
    using assms(3) by (auto simp: ranked_scores_def neighbor_of_def number_scores_def list_all_iff)
  then have rs: "set scored \<subseteq> ranked_scores" using mem by blast
  have near: "hnsw_nearest g q k ef = Some (Inr (take k (stable_sort rank_cmp scored)))"
    using False e(1) ep(1) c(1) hnsw_neighbors_ok[OF g(1) cl] g(4) neighbor_order.sort_by_key[OF rs]
    by (simp add: hnsw_nearest_def ok_def scored_def)
  have so: "sorted_wrt better (take k (stable_sort rank_cmp scored))"
    by (rule sorted_wrt_take, rule stable_sort_rank_better[OF rs di])
  have "distinct (map nb_id (stable_sort rank_cmp scored))" by (rule distinct_map_sub[of _ scored]) (simp_all add: di)
  then have "distinct (map nb_id (take k (stable_sort rank_cmp scored)))" by (simp only: take_map[symmetric] distinct_take)
  moreover have "set (take k (stable_sort rank_cmp scored)) \<subseteq> neighbor_of m q ` set entries"
    using set_take_subset[of k "stable_sort rank_cmp scored"] mem by simp
  moreover have "take k (stable_sort rank_cmp scored) \<noteq> []"
  proof -
    have "length scored \<noteq> 0" using c(4) by (simp add: scored_def)
    then have "stable_sort rank_cmp scored \<noteq> []" by (metis length_stable_sort list.size(3))
    then show ?thesis using False by simp
  qed
  ultimately have "ann_answer (neighbor_of m q ` set entries) k (take k (stable_sort rank_cmp scored))"
    unfolding ann_answer_def using so by simp
  then show ?thesis using near by blast
qed

section \<open>The cache of graphs\<close>

text \<open>Every cached graph was built from the vectors the index holds now.\<close>

definition cache_ok :: "collection_indexes \<Rightarrow> bool" where
  "cache_ok ci \<longleftrightarrow>
     (\<forall>f m p g. om_get (ci_ann_cache ci) (f, metric_name m, hp_m p, hp_ef_construction p) = Some g \<longrightarrow>
        (\<exists>vi es. om_get (ci_vector_maps ci) f = Some vi \<and> mset es = mset (vi_entries vi) \<and> hnsw_ok es m p g))"

lemma metric_name_inj [simp]: "metric_name a = metric_name b \<longleftrightarrow> a = b"
  by (cases a; cases b) simp_all

lemma cache_ok_insert:
  assumes "cache_ok ci" "om_get (ci_vector_maps ci) f = Some vi" "mset es = mset (vi_entries vi)" "hnsw_ok es m p g"
  shows "cache_ok (ci\<lparr>ci_ann_cache := om_insert (f, metric_name m, hp_m p, hp_ef_construction p) g (ci_ann_cache ci)\<rparr>)"
  unfolding cache_ok_def
proof (intro allI impI)
  fix f' m' and p' :: hnsw_params and g'
  assume "om_get (ci_ann_cache (ci\<lparr>ci_ann_cache := om_insert (f, metric_name m, hp_m p, hp_ef_construction p) g (ci_ann_cache ci)\<rparr>))
      (f', metric_name m', hp_m p', hp_ef_construction p') = Some g'"
  then have g': "if (f', m', p') = (f, m, p) then g' = g
      else om_get (ci_ann_cache ci) (f', metric_name m', hp_m p', hp_ef_construction p') = Some g'"
    by (cases p'; cases p) (auto split: if_splits)
  show "\<exists>vi es. om_get (ci_vector_maps (ci\<lparr>ci_ann_cache := om_insert (f, metric_name m, hp_m p, hp_ef_construction p) g (ci_ann_cache ci)\<rparr>)) f' =
      Some vi \<and> mset es = mset (vi_entries vi) \<and> hnsw_ok es m' p' g'"
  proof (cases "(f', m', p') = (f, m, p)")
    case True
    then show ?thesis using g' assms(2-4) by auto
  next
    case False
    then show ?thesis using g' assms(1) unfolding cache_ok_def by auto
  qed
qed

lemma ann_graph_ok:
  assumes "ann_graph ln order f vi m p ci = Some (Inr (g, ci'))" "cache_ok ci" "om_get (ci_vector_maps ci) f = Some vi"
    "\<And>es. mset (order es) = mset es"
  shows "cache_ok ci' \<and> (\<exists>c. ci' = ci\<lparr>ci_ann_cache := c\<rparr>) \<and> (\<exists>es. mset es = mset (vi_entries vi) \<and> hnsw_ok es m p g)"
proof (cases "om_get (ci_ann_cache ci) (f, metric_name m, hp_m p, hp_ef_construction p)")
  case None
  then have g: "hnsw_build ln (order (vi_entries vi)) m p ANN_GRAPH_SEED = Some (Inr g)"
    "ci' = ci\<lparr>ci_ann_cache := om_insert (f, metric_name m, hp_m p, hp_ef_construction p) g (ci_ann_cache ci)\<rparr>"
    using assms(1) by (auto simp: ann_graph_def Let_def oc_bind_def ok_def split: option.splits sum.splits)
  note o = hnsw_build_built[OF g(1)]
  show ?thesis using cache_ok_insert[OF assms(2,3) assms(4) o] o assms(4) unfolding g(2) by blast
next
  case (Some c)
  then have "c = g" "ci' = ci" using assms(1) by (simp_all add: ann_graph_def Let_def ok_def)
  moreover have "\<exists>c. ci = ci\<lparr>ci_ann_cache := c\<rparr>" by (rule exI[of _ "ci_ann_cache ci"]) simp
  ultimately show ?thesis using assms(2)[unfolded cache_ok_def, rule_format, OF Some] assms(2,3) by simp
qed

text \<open>The indexes of a collection holding the records \<open>R\<close>, reached by the operations that keep them in step with the records
  and by approximate searches, the hash map of vectors having any iteration order at each search.\<close>

inductive ann_run :: "'n index_env \<Rightarrow> (f64 \<Rightarrow> f64) \<Rightarrow> collection_schema \<Rightarrow> record_t set \<Rightarrow> collection_indexes \<Rightarrow> bool" for E ln s where
  ann_new: "ann_run E ln s {} (indexes_from_schema s)"
| ann_op: "ann_run E ln s R ci \<Longrightarrow> index_op E s R ci R' ci' \<Longrightarrow> ann_run E ln s R' ci'"
| ann_search: "ann_run E ln s R ci \<Longrightarrow> (\<And>es. mset (order es) = mset es) \<Longrightarrow>
    vector_ann_nearest ln order f q k m p ef ci = Some (r, ci') \<Longrightarrow> ann_run E ln s R ci'"

lemma ann_search_cache:
  assumes "vector_ann_nearest ln order f q k m p ef ci = Some (r, ci')" "cache_ok ci" "\<And>es. mset (order es) = mset es"
  shows "cache_ok ci' \<and> (\<exists>c. ci' = ci\<lparr>ci_ann_cache := c\<rparr>)"
proof -
  have "ci = ci\<lparr>ci_ann_cache := ci_ann_cache ci\<rparr>" by simp
  then have "ci' = ci \<Longrightarrow> ?thesis" using assms(2) by metis
  moreover have "ci' = ci \<or> (\<exists>vi g. om_get (ci_vector_maps ci) f = Some vi \<and> ann_graph ln order f vi m p ci = Some (Inr (g, ci')))"
    using assms(1) by (auto simp: vector_ann_nearest_def split: option.splits if_splits sum.splits)
  ultimately show ?thesis using ann_graph_ok[OF _ assms(2) _ assms(3)] by blast
qed

lemma ann_run_ok: "ann_run E ln s R ci \<Longrightarrow> index_run E s R ci \<and> cache_ok ci"
proof (induction rule: ann_run.induct)
  case ann_new
  then show ?case by (simp add: run_new cache_ok_def schema_cache)
next
  case (ann_op R ci R' ci')
  then show ?case using run_op[of E s R ci R' ci'] index_op_cache[of E s R ci R' ci'] by (simp add: cache_ok_def)
next
  case (ann_search R ci order f q k m p ef r ci')
  then show ?case using ann_search_cache[of ln order f q k m p ef ci r ci'] run_search[of E s R ci] by auto
qed

lemma distinct_fst_mset: "mset es = mset es' \<Longrightarrow> distinct (map fst es) \<Longrightarrow> distinct (map fst es')"
  by (rule distinct_map_sub[of es' es]) simp_all

section \<open>Properties\<close>

text \<open>The neighbours among a set of records, whatever the length of their vectors.\<close>

definition stored_hits :: "record_t set \<Rightarrow> string \<Rightarrow> f32 list \<Rightarrow> metric \<Rightarrow> neighbor set" where
  "stored_hits R f q m = {neighbor_of m q (rec_id r, v) | r v. r \<in> R \<and> om_get (rec_fields r) f = Some (VVector v)}"

lemma vector_rep_stored:
  assumes "vector_rep dim f R vi"
  shows "neighbor_of m q ` set (vi_entries vi) = stored_hits R f q m"
proof -
  have "(i, v) \<in> set (vi_entries vi) \<longleftrightarrow> om_get (vi_entries vi) i = Some v" for i v
    using assms om_wf_distinct[of "vi_entries vi"] by (simp add: vector_rep_def om_get_def map_of_eq_Some_iff)
  then have "set (vi_entries vi) = {(rec_id r, v) | r v. r \<in> R \<and> om_get (rec_fields r) f = Some (VVector v)}"
    using assms by (auto simp: vector_rep_def)
  then show ?thesis by (auto simp: stored_hits_def)
qed

text \<open>A search of a field that has a vector index, with parameters in range.\<close>

lemma ann_search_field:
  assumes "vector_rep dim f R vi" "om_get (ci_vector_maps ci) f = Some vi" "cache_ok ci" "\<And>es. mset (order es) = mset es"
    "layers_fit ln p" "\<forall>n \<in> stored_hits R f q m. \<not> f32_is_nan (nb_score n)" "length q = vi_dim vi" "hnsw_validate p = Inr ()"
  shows "\<exists>ns ci'. vector_ann_nearest ln order f q k m p ef ci = Some (Inr ns, ci') \<and> ann_answer (stored_hits R f q m) k ns"
proof -
  have "\<exists>g ci'. ann_graph ln order f vi m p ci = Some (Inr (g, ci'))"
    using hnsw_build_ok[OF assms(5), of "order (vi_entries vi)" m ANN_GRAPH_SEED]
    by (auto simp: ann_graph_def Let_def ok_def split: option.splits)
  then obtain g ci' where g: "ann_graph ln order f vi m p ci = Some (Inr (g, ci'))" by blast
  obtain es where es: "mset es = mset (vi_entries vi)" "hnsw_ok es m p g" using ann_graph_ok[OF g assms(3,2,4)] by blast
  have se: "set es = set (vi_entries vi)" by (rule mset_eq_setD[OF es(1)])
  have hits: "neighbor_of m q ` set es = stored_hits R f q m" unfolding se by (rule vector_rep_stored[OF assms(1)])
  have "om_wf (vi_entries vi)" using assms(1) by (simp add: vector_rep_def)
  then have di: "distinct (map fst es)" using distinct_fst_mset[OF es(1)[symmetric]] om_wf_distinct by blast
  have "number_scores m q es" using assms(6) unfolding hits[symmetric] number_scores_def list_all_iff by (simp add: neighbor_of_def)
  then obtain ns where ns: "hnsw_nearest g q k ef = Some (Inr ns)" "ann_answer (stored_hits R f q m) k ns"
    using hnsw_nearest_ok[OF es(2) di, of q k ef] unfolding hits by blast
  then show ?thesis using assms(2,7,8) g by (simp add: vector_ann_nearest_def)
qed

text \<open>C39. Approximate search over the indexes of a set of records, reached by index operations and earlier searches: when no
  similarity of the query to a record is a NaN and the layers that the logarithm gives fit a machine word, it returns and does not
  panic, whatever order the vectors enter the graph in and whether or not the graph was cached.  It fails exactly for an unknown
  field, a query of another dimension or parameters out of range; otherwise it gives at most \<open>k\<close> distinct records that are
  stored now, at least one when there are any, with their exact similarity and best first.  Every cached graph is one of the
  vectors stored now, with every out-degree within its budget, before and after.\<close>

theorem ann_search_returns:
  assumes "ann_run E ln s R ci" "\<And>es. mset (order es) = mset es" "layers_fit ln p"
    and "\<forall>n \<in> stored_hits R f q m. \<not> f32_is_nan (nb_score n)"
  shows "cache_ok ci \<and> (case vector_ann_nearest ln order f q k m p ef ci of
      None \<Rightarrow> False
    | Some (Inl e, ci') \<Rightarrow> ci' = ci \<and> e = Err EInvalidRequest \<and>
        (vector_dim (indexes_from_schema s) f \<noteq> Some (length q) \<or> hnsw_validate p \<noteq> Inr ())
    | Some (Inr ns, ci') \<Rightarrow> cache_ok ci' \<and> vector_dim (indexes_from_schema s) f = Some (length q) \<and> hnsw_validate p = Inr () \<and>
        ann_answer (stored_hits R f q m) k ns)"
proof -
  have run: "index_run E s R ci" "cache_ok ci" using ann_run_ok[OF assms(1)] by simp_all
  have v: "hnsw_validate p = Inr () \<or> hnsw_validate p = Inl EInvalidRequest" by (simp add: hnsw_validate_def)
  show ?thesis
  proof (cases "om_get (ci_vector_maps ci) f")
    case None
    then show ?thesis using run(2) run_vector_dim[OF run(1), of f] by (simp add: vector_ann_nearest_def vector_dim_def)
  next
    case (Some vi)
    note d = run_vector_dim[OF run(1), of f] run_vector_rep[OF run(1) Some]
    show ?thesis
    proof (cases "length q = vi_dim vi \<and> hnsw_validate p = Inr ()")
      case True
      then obtain ns ci' where ns: "vector_ann_nearest ln order f q k m p ef ci = Some (Inr ns, ci')" "ann_answer (stored_hits R f q m) k ns"
        using ann_search_field[OF d(2) Some run(2) assms(2-4)] by blast
      then show ?thesis using True Some d(1) run(2) ann_search_cache[OF ns(1) run(2) assms(2)] by (simp add: vector_dim_def)
    next
      case False
      then show ?thesis using Some d(1) run(2) v by (auto simp: vector_ann_nearest_def vector_dim_def)
    qed
  qed
qed

text \<open>A logarithm for the example: negative below one half, so that some nodes rise to the layer 1.\<close>

definition demo_ln :: "f64 \<Rightarrow> f64" where
  "demo_ln u = (if f64_partial_cmp u 0x3FE0000000000000 = Some Less then 0xBFF0000000000000 else 0x3FF0000000000000)"

definition demo_hnsw_params :: hnsw_params where
  "demo_hnsw_params = \<lparr>hp_m = 2, hp_ef_construction = 4\<rparr>"

lemma demo_layers_fit: "layers_fit demo_ln demo_hnsw_params"
  unfolding layers_fit_def
proof
  fix rng
  obtain u r where u: "next_unit rng = (u, r)" by (metis prod.exhaust)
  have m: "level_mult demo_ln demo_hnsw_params = 0x3FF0000000000000" by code_simp
  have "f64_floor_usize (f64_mul (f64_neg 0xBFF0000000000000) 0x3FF0000000000000) = 1"
    "f64_floor_usize (f64_mul (f64_neg 0x3FF0000000000000) 0x3FF0000000000000) = 0" by code_simp+
  moreover have "(1 :: u64) < - 1" by code_simp
  then have "1 < unat (- 1 :: u64)" unfolding word_less_nat_alt by simp
  ultimately show "fst (assign_layer demo_ln demo_hnsw_params rng) < unat (- 1 :: u64)"
    by (simp add: assign_layer_def u m demo_ln_def)
qed

lemma demo_ann_run: "ann_run demo_index_env demo_ln demo_schema {demo_user 2 ''b'' ''on'', demo_user 1 ''a'' ''on''} demo_indexes"
proof -
  have "ann_run demo_index_env demo_ln demo_schema {demo_user 1 ''a'' ''on''}
    (index_insert demo_index_env (demo_user 1 ''a'' ''on'') (indexes_from_schema demo_schema))"
    by (rule ann_op[OF ann_new op_insert]) (simp, code_simp)
  then show ?thesis unfolding demo_indexes_def
    by (rule ann_op[OF _ op_insert]) (simp add: demo_user_def record_new_def, code_simp)
qed

lemma ann_search_cached:
  assumes "vector_ann_nearest ln order f q k m p ef ci = Some (Inr ns, ci')"
  shows "om_get (ci_ann_cache ci') (f, metric_name m, hp_m p, hp_ef_construction p) \<noteq> None"
  using assms by (auto simp: vector_ann_nearest_def ann_graph_def Let_def ok_def oc_bind_def
      split: option.splits if_splits sum.splits)

lemma demo_stored_scores:
  "\<forall>n \<in> stored_hits {demo_user 2 ''b'' ''on'', demo_user 1 ''a'' ''on''} ''vec'' [0x3F800000, 0] Cosine. \<not> f32_is_nan (nb_score n)"
  "\<forall>n \<in> stored_hits {demo_user 2 ''b'' ''on''} ''vec'' [0x3F800000, 0] Cosine. \<not> f32_is_nan (nb_score n) \<and> nb_id n = 2"
  "stored_hits {demo_user 2 ''b'' ''on''} ''vec'' [0x3F800000, 0] Cosine \<noteq> {}"
proof -
  have "similarity Cosine [0x3F800000, 0] [0x3F800000, 0] = 0x3F800000" by code_simp
  then have s: "\<not> f32_is_nan (similarity Cosine [0x3F800000, 0] [0x3F800000, 0])" by (simp add: f32_is_nan_def)
  show "\<forall>n \<in> stored_hits {demo_user 2 ''b'' ''on'', demo_user 1 ''a'' ''on''} ''vec'' [0x3F800000, 0] Cosine. \<not> f32_is_nan (nb_score n)"
    "\<forall>n \<in> stored_hits {demo_user 2 ''b'' ''on''} ''vec'' [0x3F800000, 0] Cosine. \<not> f32_is_nan (nb_score n) \<and> nb_id n = 2"
    "stored_hits {demo_user 2 ''b'' ''on''} ''vec'' [0x3F800000, 0] Cosine \<noteq> {}"
    using s by (auto simp: stored_hits_def demo_user_def record_new_def neighbor_of_def simp del: similarity.simps)
qed

lemma found_cases:
  assumes "case x of None \<Rightarrow> False | Some (Inl e, c) \<Rightarrow> P e c | Some (Inr ns, c) \<Rightarrow> Q ns c" "\<And>e c. \<not> P e c"
  shows "\<exists>ns c. x = Some (Inr ns, c) \<and> Q ns c"
proof -
  obtain r c where "x = Some (r, c)" using assms(1) by (cases x) auto
  then show ?thesis using assms by (cases r) auto
qed

text \<open>A search, the removal of the record 1, and the search again: the graph of the first search was cached and is not used.\<close>

theorem ann_search_returns_witness:
  "\<exists>ns ci ns' ci'. vector_ann_nearest demo_ln rev ''vec'' [0x3F800000, 0] 1 Cosine demo_hnsw_params 4 demo_indexes = Some (Inr ns, ci) \<and>
     length ns = 1 \<and> ci_ann_cache ci \<noteq> [] \<and>
     vector_ann_nearest demo_ln rev ''vec'' [0x3F800000, 0] 1 Cosine demo_hnsw_params 4
       (index_remove demo_index_env (demo_user 1 ''a'' ''on'') ci) = Some (Inr ns', ci') \<and> map nb_id ns' = [2]"
proof -
  let ?q = "[0x3F800000, 0] :: f32 list" and ?R = "{demo_user 2 ''b'' ''on'', demo_user 1 ''a'' ''on''}"
  have d: "vector_dim (indexes_from_schema demo_schema) ''vec'' = Some (length ?q)" "hnsw_validate demo_hnsw_params = Inr ()" by code_simp+
  have o: "mset (rev es) = mset es" for es :: "(record_id \<times> f32 list) list" by simp
  note t = ann_search_returns[OF _ o demo_layers_fit, where k = 1 and ef = 4]
  obtain ns ci where n: "vector_ann_nearest demo_ln rev ''vec'' ?q 1 Cosine demo_hnsw_params 4 demo_indexes = Some (Inr ns, ci)"
    "ann_answer (stored_hits ?R ''vec'' ?q Cosine) 1 ns"
    using found_cases[OF t[OF demo_ann_run demo_stored_scores(1), THEN conjunct2]] d by auto
  have "?R - {demo_user 1 ''a'' ''on''} = {demo_user 2 ''b'' ''on''}" by (auto simp: demo_user_def record_new_def)
  then have a: "ann_run demo_index_env demo_ln demo_schema {demo_user 2 ''b'' ''on''} (index_remove demo_index_env (demo_user 1 ''a'' ''on'') ci)"
    using ann_op[OF ann_search[OF demo_ann_run o n(1)] op_remove[of "demo_user 1 ''a'' ''on''"]] by simp
  have s: "\<forall>n \<in> stored_hits {demo_user 2 ''b'' ''on''} ''vec'' ?q Cosine. \<not> f32_is_nan (nb_score n)" using demo_stored_scores(2) by blast
  obtain ns' ci' where n': "vector_ann_nearest demo_ln rev ''vec'' ?q 1 Cosine demo_hnsw_params 4
      (index_remove demo_index_env (demo_user 1 ''a'' ''on'') ci) = Some (Inr ns', ci')"
    "ann_answer (stored_hits {demo_user 2 ''b'' ''on''} ''vec'' ?q Cosine) 1 ns'"
    using found_cases[OF t[OF a s, THEN conjunct2]] d by auto
  have "ns' \<noteq> []" "length ns' \<le> 1" "\<forall>n \<in> set ns'. nb_id n = 2"
    using n'(2) demo_stored_scores(2,3) by (auto simp: ann_answer_def)
  then have "map nb_id ns' = [2]" by (cases ns') auto
  moreover have "stored_hits ?R ''vec'' ?q Cosine \<noteq> {}" using demo_stored_scores(3) by (auto simp: stored_hits_def)
  then have "length ns = 1" using n(2) by (cases ns) (auto simp: ann_answer_def)
  moreover have "ci_ann_cache ci \<noteq> []" using ann_search_cached[OF n(1)] by auto
  ultimately show ?thesis using n(1) n'(1) by (intro exI conjI)
qed

end
