(* ===== verification/Spec2Isabelle.thy ===== *)
theory Spec2Isabelle
  imports Raft_Cluster Raft_Durability Raft_Base64 Core_Props Store_Durability Index_Props Engine_Isolation Protocol_Props Engine_Faults Engine_Types Hnsw_Props
begin

text \<open>
  AuraDB is a document database with vector and text search.  A client sends frames over a socket; the server
  decodes them and calls the engine; the engine checks a mutation against the schema and the indexes, commits a batch to the
  multi-version storage, or through the Raft log in a cluster, and brings its in-memory indexes up to date.  This
  development models these parts as functions on explicit states and proves what they promise to each other.  Paths are relative to
  \<open>src/crates\<close>.

  \<^bold>\<open>Conventions.\<close>  \<open>Result\<close> is a sum, \<open>Inl\<close> the error and \<open>Inr\<close> the value; a method with \<open>&mut self\<close> returns
  its result with the new state, also after an error.  A panic is a value (\<open>Panic\<close>, or \<open>None\<close> in the Raft harness).  Maps are
  association lists ordered by key (\<open>omap\<close> of Prelude).  Identifiers, bytes and checksums are words of their
  width; strings are their UTF-8 bytes; floating-point numbers are bit patterns with the arithmetic of Rust_Arith.  Terms, log indices, commit
  timestamps, record versions and counters are natural numbers, so overflow of a 64-bit counter is outside the
  model.  Rust_Str, Rust_Float, Rust_Cast, Rust_Arith, Rust_Sort and Rust_Io hold what the sources use of the standard library.

  \<^bold>\<open>Parameters.\<close>  \<open>serde_json\<close> and \<open>crc32fast\<close> are codec records (\<open>json_ops\<close>, \<open>store_codec\<close>, \<open>index_codec\<close>,
  \<open>engine_env\<close>); theorems that depend on them assume that decoding undoes encoding and that a torn frame is noticed, and
  their witnesses use a concrete codec for which that is proved.  The tokenizer, the wall clock, the natural
  logarithm, the iteration order of a hash map and the call that replicates a batch are parameters too.

  \<^bold>\<open>Core types\<close> (\<open>auradb-core\<close>; Core, Core_Props).  Values and their JSON form, records, identifiers, the logical clock, schemas
  and their validation.  Values and identifiers survive their text forms.

  \<^bold>\<open>Storage\<close> (\<open>auradb-storage\<close>; Store_Format, Store, Store_Mvcc, Store_Recovery, Store_Durability).  The state is the record
  \<open>storage\<close>: directory, manifest, catalog, version chains.  Every file operation takes an outcome from a script,
  success or failure after some bytes, and a crash of the process is the directory a failed call leaves; so one theorem covers
  every crash point.  Each file records how much of it was synced, and \<open>power_loss\<close> cuts files anywhere behind that; creating,
  renaming and removing a file is taken to be durable at once.  \<open>disk_ok\<close> and \<open>store_ok\<close> tie the bytes to the chains.  A
  commit is atomic, and durable across a power loss with \<open>sync_on_commit\<close>, and extends the history of snapshot readers; compaction
  and garbage collection keep every read they must keep; a replica fed the entries in order follows the primary.  A commit
  acknowledged after a failed write is lost: that is a defect, stated as a theorem.

  \<^bold>\<open>Raft\<close> (\<open>auradb-raft\<close>).  Raft_Log and Raft_Node translate the log and every method of the node over the storage trait, a
  record of operations; the locale \<open>raft_store\<close> is the contract of the trait, interpreted on the in-memory
  and on the file storage (Raft_Store, Raft_File).  Raft_Spec is the abstract protocol, Raft_Safety its invariant over the locale
  \<open>quorums\<close>, interpreted on majorities; Raft_Refine shows that each method of the node performs abstract steps, Raft_Network
  that a cluster over a network that loses, repeats and reorders messages, with crashes, implements the protocol.  Raft_Cluster
  states election safety, log matching, leader completeness, state-machine safety and durability of commits
  over the code; Raft_Sim does so for the harness of \<open>sim.rs\<close>.  Raft_Durability covers the file storage under I/O faults and
  power loss, with three defects stated as theorems; whether the append handle is on the current log file is part of its state.  Raft_Base64 the payload codec.  Liveness of elections is not claimed.

  \<^bold>\<open>Indexes\<close> (\<open>auradb-index\<close>, \<open>auradb-query/src/eval.rs\<close>; Query_Eval, Index, Index_Persist, Index_Rep, Index_Facts, Index_Props).  The locale
  \<open>record_index\<close> is the contract of an index over a set of records, \<open>field_indexes\<close> lifts it to one index per
  field; they are interpreted on the unique, secondary, document-path, vector and text maps and on all of them together.  Lookups
  and uniqueness checks are exact on indexes reached by operations that respect the contract (\<open>index_op\<close>: an insertion right after the
  uniqueness check that accepted it, a removal, a rebuild, a snapshot load); the engine leaves that contract when two records of
  one update or commit clash, which is a defect.  A rebuild equals incremental maintenance, snapshots load back.

  \<^bold>\<open>Vector search\<close> (\<open>metric.rs\<close>, \<open>hnsw.rs\<close>; Vector_Types, Vector_Search, Hnsw, Hnsw_Props).  The bounded heap of the exact search selects what
  sorting all candidates would, through the locale \<open>keyed_cmp\<close> interpreted on the comparator of neighbours.  The beam search
  of the approximate index is a \<open>partial_function\<close>; that it returns is proved from the invariant of the graph.  Cached graphs are
  part of the indexes, every change of the vectors drops them, and \<open>ann_run\<close> interleaves changes with searches: a search never
  uses a graph of other vectors.  \<open>sort_by\<close> panics where the comparator is not a total order, so both searches assume that no
  similarity is a NaN; the approximate one also that the layers drawn with the logarithm fit a machine word.  Nothing is claimed about
  its recall.

  \<^bold>\<open>Transactions and engine\<close> (\<open>auradb-txn\<close>, \<open>auradb/src/engine.rs\<close>, \<open>idgen.rs\<close>, \<open>stats.rs\<close>; Txn, Engine, Engine_Ops, Engine_Txn).  The state
  behind the mutex is the record \<open>engine\<close>; \<open>locked\<close> is the lock with its poisoning.  Engine_Keeps shows that every operation keeps the
  snapshot of a reader (dropping a collection, that of the other collections), Engine_Session composes them to runs in which a
  transaction is interleaved with everyone else, labelled with the collections dropped meanwhile, and Engine_Isolation states
  snapshot isolation of point reads and scans, first committer wins and no lost update.  Engine_Types shows that clients
  keep every stored record conforming to its schema, Engine_Faults that a transaction deleting its own insert panics after its
  commit, and that reads through an index and of a dropped collection miss the snapshot.  Engine_Demo holds the small engine of the witnesses.

  \<^bold>\<open>Wire protocol\<close> (\<open>auradb-protocol\<close>, \<open>auradb-server/src/wire.rs\<close>; Protocol, Protocol_Props).  Opcodes, the frame codec and the reader and writer
  of frames: encoding and decoding agree, and the decoder stays within its input and its limit.

  \<^bold>\<open>Bounds.\<close>  The only fuel is the source's own: \<open>deliver_all\<close> of the harness stops after 100000 deliveries and panics, and the
  theorem that the harness does not panic leaves it out.  Sizes of files are assumed below \<open>2^63\<close> where a length is cast.

  \<^bold>\<open>Not modelled.\<close>  Query planner, executor, aggregates, cursors, snippets and ranked text search (read-only, mostly over
  floating-point scores); the text analyzer (Unicode tables); protocol payloads (derived encodings); sockets, TLS, authentication,
  configuration and dispatch of the server; the threads and transport of replication; cluster metadata, metrics, the
  conformance client and the command line.  Texts of error messages are left out everywhere.
\<close>

end
